(* ===== verification/Prelude.thy ===== *)
theory Prelude
  imports Main "HOL-Library.Word"
begin

text \<open>
  Shared vocabulary of the development: bytes and Go strings, Go error values, the result type of
  a fallible Go function, and the generic lemmas on lists and results that the components share.

  A Go string is a sequence of bytes and is modelled by \<open>string\<close> (a list of 8-bit characters);
  a Go \<open>[]byte\<close> is a list of 8-bit words. A function that returns \<open>(T, error)\<close> returns a
  value of \<open>'a result\<close>: \<open>Inl\<close> for a non-nil error, \<open>Inr\<close> for the value.
\<close>

type_synonym byte = "8 word"
type_synonym bytes = "byte list"

text \<open>
  An OBJECT IDENTIFIER (\<open>asn1.ObjectIdentifier\<close> is a slice of \<open>int\<close>).
\<close>

type_synonym oid = "int list"

text \<open>
  Go error values. \<open>ErrVar\<close> is a package-level error variable, known by its qualified name
  (\<open>errors.Is\<close> compares such a variable by identity). \<open>ErrNew\<close> is a fresh
  \<open>errors.New\<close> or \<open>fmt.Errorf\<close> without \<open>%w\<close>; \<open>ErrWrap\<close> is \<open>fmt.Errorf\<close> with one \<open>%w\<close>,
  which \<open>errors.Is\<close> looks through. Format arguments are kept as values instead of being rendered.
\<close>

datatype fmt_arg = FStr string | FInt int | FOid oid

datatype go_error =
    ErrVar string
  | ErrNew string "fmt_arg list"
  | ErrWrap string "fmt_arg list" go_error

fun errors_Is :: "go_error \<Rightarrow> go_error \<Rightarrow> bool" where
  "errors_Is (ErrWrap f as e) t = (ErrWrap f as e = t \<or> errors_Is e t)"
| "errors_Is e t = (e = t)"

type_synonym 'a result = "go_error + 'a"

definition rbind :: "'a result \<Rightarrow> ('a \<Rightarrow> 'b result) \<Rightarrow> 'b result" where
  "rbind r f = (case r of Inl e \<Rightarrow> Inl e | Inr x \<Rightarrow> f x)"

definition rmap :: "('a \<Rightarrow> 'b) \<Rightarrow> 'a result \<Rightarrow> 'b result" where
  "rmap f r = (case r of Inl e \<Rightarrow> Inl e | Inr x \<Rightarrow> Inr (f x))"

definition wrap_err :: "string \<Rightarrow> fmt_arg list \<Rightarrow> 'a result \<Rightarrow> 'a result" where
  "wrap_err f as r = (case r of Inl e \<Rightarrow> Inl (ErrWrap f as e) | Inr x \<Rightarrow> Inr x)"

text \<open>
  A loop \<open>for i, x := range xs\<close> that returns at the first error and collects one value per
  element otherwise; the index is passed for the error messages.
\<close>

fun rmap_index :: "nat \<Rightarrow> (nat \<Rightarrow> 'a \<Rightarrow> 'b result) \<Rightarrow> 'a list \<Rightarrow> 'b list result" where
  "rmap_index i f [] = Inr []"
| "rmap_index i f (x # xs) =
     (case f i x of
        Inl e \<Rightarrow> Inl e
      | Inr y \<Rightarrow> (case rmap_index (Suc i) f xs of Inl e \<Rightarrow> Inl e | Inr ys \<Rightarrow> Inr (y # ys)))"

text \<open>Collections used by the component theories.\<close>

named_theorems result_simps \<open>rewriting of results\<close>
named_theorems frame_simps \<open>what an operation leaves unchanged\<close>
named_theorems contract \<open>facts that discharge an interface's laws\<close>

lemma rbind_Inl [simp, result_simps]: "rbind (Inl e) f = Inl e"
  by (simp add: rbind_def)

lemma rbind_Inr [simp, result_simps]: "rbind (Inr x) f = f x"
  by (simp add: rbind_def)

lemma rbind_eq_Inr [simp]: "rbind r f = Inr y \<longleftrightarrow> (\<exists>x. r = Inr x \<and> f x = Inr y)"
  by (cases r) auto

lemma rbind_assoc [result_simps]: "rbind (rbind r f) g = rbind r (\<lambda>x. rbind (f x) g)"
  by (cases r) auto

lemma rbind_return [simp]: "rbind r Inr = r"
  by (cases r) auto

lemma rbind_cong [fundef_cong]:
  "r = r' \<Longrightarrow> (\<And>x. r' = Inr x \<Longrightarrow> f x = g x) \<Longrightarrow> rbind r f = rbind r' g"
  by (cases r') auto

lemma rmap_Inl [simp, result_simps]: "rmap f (Inl e) = Inl e"
  by (simp add: rmap_def)

lemma rmap_Inr [simp, result_simps]: "rmap f (Inr x) = Inr (f x)"
  by (simp add: rmap_def)

lemma rmap_eq_Inr [simp]: "rmap f r = Inr y \<longleftrightarrow> (\<exists>x. r = Inr x \<and> y = f x)"
  by (cases r) auto

lemma wrap_err_Inr [simp, result_simps]: "wrap_err f as (Inr x) = Inr x"
  by (simp add: wrap_err_def)

lemma wrap_err_Inl [simp, result_simps]: "wrap_err f as (Inl e) = Inl (ErrWrap f as e)"
  by (simp add: wrap_err_def)

lemma wrap_err_eq_Inr [simp]: "wrap_err f as r = Inr y \<longleftrightarrow> r = Inr y"
  by (cases r) auto

lemma wrap_err_eq_Inl [simp]:
  "wrap_err f as r = Inl e' \<longleftrightarrow> (\<exists>e. r = Inl e \<and> e' = ErrWrap f as e)"
  by (cases r) auto

lemma result_cases [case_names error ok]:
  "(\<And>e. r = Inl e \<Longrightarrow> P) \<Longrightarrow> (\<And>x. r = Inr x \<Longrightarrow> P) \<Longrightarrow> P"
  for r :: "'a result"
  by (cases r) auto

lemma not_Inr_iff_Inl: "(\<forall>y. r \<noteq> Inr y) \<longleftrightarrow> (\<exists>e. r = Inl e)"
  for r :: "'a result"
  by (cases r) auto

lemma rmap_index_Inr:
  "rmap_index i f xs = Inr ys \<longleftrightarrow>
     length ys = length xs \<and> (\<forall>k < length xs. f (i + k) (xs ! k) = Inr (ys ! k))"
proof (induction xs arbitrary: i ys)
  case Nil
  then show ?case by auto
next
  case (Cons x xs)
  show ?case
  proof (cases ys)
    case Nil
    then show ?thesis by (auto split: sum.splits)
  next
    case (Cons z zs)
    have "(\<forall>k < length (x # xs). f (i + k) ((x # xs) ! k) = Inr ((z # zs) ! k)) \<longleftrightarrow>
        f i x = Inr z \<and> (\<forall>k < length xs. f (Suc i + k) (xs ! k) = Inr (zs ! k))"
      by (auto simp: less_Suc_eq_0_disj)
    with Cons.IH[of "Suc i" zs] Cons show ?thesis
      by (auto split: sum.splits)
  qed
qed

lemma rmap_index_map:
  "(\<And>k x. k < length xs \<Longrightarrow> xs ! k = x \<Longrightarrow> f (i + k) x = Inr (g x)) \<Longrightarrow>
     rmap_index i f xs = Inr (map g xs)"
  by (simp add: rmap_index_Inr)

lemma rmap_index_length: "rmap_index i f xs = Inr ys \<Longrightarrow> length ys = length xs"
  by (simp add: rmap_index_Inr)

text \<open>Wrapping an error never hides what it wraps from \<open>errors.Is\<close>.\<close>

lemma errors_Is_wrap: "errors_Is e t \<Longrightarrow> errors_Is (ErrWrap f as e) t"
  by simp

lemma errors_Is_refl [simp]: "errors_Is e e"
  by (cases e) auto

text \<open>Conversions between \<open>string\<close> and \<open>[]byte\<close>.\<close>

definition bytes_of :: "string \<Rightarrow> bytes" where
  "bytes_of s = map (\<lambda>c. word_of_nat (of_char c)) s"

definition string_of :: "bytes \<Rightarrow> string" where
  "string_of bs = map (\<lambda>b. char_of (unat b)) bs"

lemma string_of_bytes_of [simp]: "string_of (bytes_of s) = s"
  by (induction s) (auto simp: bytes_of_def string_of_def unat_of_nat take_bit_eq_mod)

lemma unat_byte [simp]: "unat (b :: byte) < 256"
  using unsigned_less [of b] by simp

lemma bytes_of_string_of [simp]: "bytes_of (string_of bs) = bs"
proof -
  have "word_of_nat (unat b mod 256) = b" for b :: byte
    by simp
  then show ?thesis
    by (induction bs) (auto simp: bytes_of_def string_of_def)
qed

lemma length_bytes_of [simp]: "length (bytes_of s) = length s"
  by (simp add: bytes_of_def)

lemma bytes_of_inj: "bytes_of s = bytes_of t \<longleftrightarrow> s = t"
  by (metis string_of_bytes_of)

text \<open>The \<open>int\<close> of a 64-bit Go platform: wrap-around to two's complement.\<close>

definition wrap64 :: "int \<Rightarrow> int" where
  "wrap64 n = sint (word_of_int n :: 64 word)"

lemma wrap64_id: "- (2 ^ 63) \<le> n \<Longrightarrow> n < 2 ^ 63 \<Longrightarrow> wrap64 n = n"
  by (simp add: wrap64_def sint_sbintrunc' signed_take_bit_int_eq_self)

section \<open>Pieces of a list\<close>

text \<open>A list cut into pieces of a given length.\<close>

function chunks :: "nat \<Rightarrow> 'a list \<Rightarrow> 'a list list" where
  "chunks n xs = (if n = 0 \<or> xs = [] then [] else take n xs # chunks n (drop n xs))"
  by pat_completeness auto
termination by (relation "measure (\<lambda>(n, xs). length xs)") auto

declare chunks.simps [simp del]

lemma chunks_Nil [simp]: "chunks n [] = []"
  by (simp add: chunks.simps)

lemma concat_chunks: "0 < n \<Longrightarrow> concat (chunks n xs) = xs"
proof (induction n xs rule: chunks.induct)
  case (1 n xs)
  then show ?case by (cases "xs = []") (simp_all add: chunks.simps [of n xs])
qed

lemma chunks_length: "l \<in> set (chunks n xs) \<Longrightarrow> l \<noteq> [] \<and> length l \<le> n"
proof (induction n xs rule: chunks.induct)
  case (1 n xs)
  then show ?case by (cases "n = 0 \<or> xs = []") (auto simp: chunks.simps [of n xs])
qed

lemma chunks_full: "l \<in> set (butlast (chunks n xs)) \<Longrightarrow> length l = n"
proof (induction n xs rule: chunks.induct)
  case (1 n xs)
  show ?case
  proof (cases "n = 0 \<or> xs = []")
    case True
    then show ?thesis using "1.prems" by (auto simp: chunks.simps [of n xs])
  next
    case False
    then have run: "chunks n xs = take n xs # chunks n (drop n xs)" by (subst chunks.simps) simp
    show ?thesis
    proof (cases "drop n xs = []")
      case True
      then show ?thesis using "1.prems" run by simp
    next
      case more: False
      then have "chunks n (drop n xs) \<noteq> []" using False by (subst chunks.simps) simp
      then have "l = take n xs \<or> l \<in> set (butlast (chunks n (drop n xs)))"
        using "1.prems" run by auto
      then show ?thesis using "1.IH" [OF False] more by auto
    qed
  qed
qed

end
