(* ===== verification/Radix.thy ===== *)
theory Radix
  imports Prelude
begin

text \<open>
  Positional numerals, most significant digit first. The hexadecimal file names of the store, the
  base-256 length octets of DER and the base-128 arcs of object identifiers are all numerals of
  this kind, so their round trips, widths and orderings are proved once here.
\<close>

fun radix :: "nat \<Rightarrow> nat \<Rightarrow> nat list" where
  "radix b n = (if b < 2 \<or> n < b then [n] else radix b (n div b) @ [n mod b])"

declare radix.simps [simp del]

definition radix_val :: "nat \<Rightarrow> nat list \<Rightarrow> nat" where
  "radix_val b ds = foldl (\<lambda>a d. a * b + d) 0 ds"

lemma radix_small [simp]: "n < b \<Longrightarrow> radix b n = [n]"
  by (simp add: radix.simps)

lemma radix_step: "2 \<le> b \<Longrightarrow> b \<le> n \<Longrightarrow> radix b n = radix b (n div b) @ [n mod b]"
  by (subst radix.simps) simp

lemma radix_val_Nil [simp]: "radix_val b [] = 0"
  by (simp add: radix_val_def)

lemma radix_val_snoc [simp]: "radix_val b (ds @ [d]) = radix_val b ds * b + d"
  by (simp add: radix_val_def)

lemma radix_val_single [simp]: "radix_val b [d] = d"
  by (simp add: radix_val_def)

lemma radix_val_append: "radix_val b (ds @ es) = radix_val b ds * b ^ length es + radix_val b es"
proof (induction es rule: rev_induct)
  case Nil
  then show ?case by simp
next
  case (snoc e es)
  have "radix_val b (ds @ es @ [e]) = radix_val b (ds @ es) * b + e"
    using radix_val_snoc [of b "ds @ es" e] by simp
  with snoc show ?case by (simp add: algebra_simps)
qed

lemma radix_val_Cons: "radix_val b (d # ds) = d * b ^ length ds + radix_val b ds"
  using radix_val_append [of b "[d]" ds] by simp

lemma radix_val_zeros [simp]: "radix_val b (replicate k 0 @ ds) = radix_val b ds"
  by (induction k) (auto simp: radix_val_Cons)

lemma radix_nonempty [simp]: "radix b n \<noteq> []"
  by (subst radix.simps) simp

lemma radix_value [simp]: "2 \<le> b \<Longrightarrow> radix_val b (radix b n) = n"
proof (induction b n rule: radix.induct)
  case (1 b n)
  show ?case
  proof (cases "n < b")
    case True
    then show ?thesis by simp
  next
    case False
    with 1 have "radix_val b (radix b (n div b)) = n div b" by simp
    with False "1.prems" show ?thesis by (simp add: radix_step)
  qed
qed

lemma radix_inj: "2 \<le> b \<Longrightarrow> radix b m = radix b n \<longleftrightarrow> m = n"
  by (metis radix_value)

lemma radix_digits: "2 \<le> b \<Longrightarrow> d \<in> set (radix b n) \<Longrightarrow> d < b"
proof (induction b n rule: radix.induct)
  case (1 b n)
  show ?case
  proof (cases "n < b")
    case True
    with "1.prems" show ?thesis by simp
  next
    case False
    with 1 show ?thesis by (auto simp: radix_step)
  qed
qed

lemma radix_hd_pos: "2 \<le> b \<Longrightarrow> 0 < n \<Longrightarrow> 0 < hd (radix b n)"
proof (induction b n rule: radix.induct)
  case (1 b n)
  show ?case
  proof (cases "n < b")
    case True
    with "1.prems" show ?thesis by simp
  next
    case False
    with "1.prems" have "0 < n div b" by (simp add: div_greater_zero_iff)
    with False 1 show ?thesis by (simp add: radix_step)
  qed
qed

lemma radix_length_le: "2 \<le> b \<Longrightarrow> n < b ^ k \<Longrightarrow> 0 < k \<Longrightarrow> length (radix b n) \<le> k"
proof (induction k arbitrary: n)
  case 0
  then show ?case by simp
next
  case (Suc k)
  show ?case
  proof (cases "n < b")
    case True
    then show ?thesis by simp
  next
    case False
    with Suc.prems have k: "0 < k" by (cases k) auto
    have "n div b < b ^ k"
      using Suc.prems by (simp add: less_mult_imp_div_less mult.commute)
    with Suc k have "length (radix b (n div b)) \<le> k" by simp
    with False Suc.prems show ?thesis by (simp add: radix_step)
  qed
qed

lemma radix_val_less: "(\<forall>d\<in>set ds. d < b) \<Longrightarrow> radix_val b ds < b ^ length ds"
proof (induction ds rule: rev_induct)
  case Nil
  then show ?case by simp
next
  case (snoc d ds)
  then have "radix_val b ds + 1 \<le> b ^ length ds" and d: "d < b" by auto
  then have "(radix_val b ds + 1) * b \<le> b ^ length ds * b" by (rule_tac mult_le_mono1)
  with d show ?case by (simp add: algebra_simps)
qed

lemma radix_lower: "2 \<le> b \<Longrightarrow> 0 < n \<Longrightarrow> b ^ (length (radix b n) - 1) \<le> n"
proof -
  assume b: "2 \<le> b" and n: "0 < n"
  obtain d ds where r: "radix b n = d # ds" by (cases "radix b n") auto
  from radix_hd_pos [OF b n] r have "1 \<le> d" by simp
  then have "b ^ length ds \<le> d * b ^ length ds" by simp
  also have "\<dots> \<le> radix_val b (d # ds)" by (simp add: radix_val_Cons)
  also have "\<dots> = n" using b r radix_value by metis
  finally show ?thesis using r by simp
qed

lemma radix_length_iff: "2 \<le> b \<Longrightarrow> 0 < k \<Longrightarrow> length (radix b n) \<le> k \<longleftrightarrow> n < b ^ k"
proof
  assume b: "2 \<le> b" and k: "0 < k" and l: "length (radix b n) \<le> k"
  have "\<forall>d\<in>set (radix b n). d < b" using radix_digits [OF b] by blast
  then have "radix_val b (radix b n) < b ^ length (radix b n)" by (rule radix_val_less)
  also have "\<dots> \<le> b ^ k" using b l by (intro power_increasing) auto
  finally show "n < b ^ k" using b by simp
qed (simp add: radix_length_le)

text \<open>Numerals of the same width are ordered as their values are: the first difference decides.\<close>

lemma radix_val_mono:
  "length ds = length es \<Longrightarrow> \<forall>d\<in>set ds. d < b \<Longrightarrow> d < e \<Longrightarrow>
     radix_val b (ps @ d # ds) < radix_val b (ps @ e # es)"
proof -
  assume len: "length ds = length es" and small: "\<forall>d\<in>set ds. d < b" and less: "d < e"
  have "radix_val b ds < b ^ length ds" by (rule radix_val_less [OF small])
  then have "d * b ^ length ds + radix_val b ds < (d + 1) * b ^ length ds" by simp
  also have "\<dots> \<le> e * b ^ length ds" using less by (intro mult_le_mono1) simp
  finally have "radix_val b (d # ds) < e * b ^ length es" by (simp add: radix_val_Cons len)
  then have "radix_val b (d # ds) < radix_val b (e # es)" by (simp add: radix_val_Cons)
  then show ?thesis using len by (simp add: radix_val_append)
qed

lemma radix_val_inj:
  "length ds = length es \<Longrightarrow> \<forall>d\<in>set ds. d < b \<Longrightarrow> \<forall>e\<in>set es. e < b \<Longrightarrow>
     radix_val b ds = radix_val b es \<Longrightarrow> ds = es"
proof (induction ds es rule: list_induct2)
  case Nil
  then show ?case by simp
next
  case (Cons d ds e es)
  have "d = e"
  proof (rule linorder_cases [of d e])
    assume "d < e"
    then show ?thesis
      using radix_val_mono [of ds es b d e "[]"] Cons by simp
  next
    assume "e < d"
    then show ?thesis
      using radix_val_mono [of es ds b e d "[]"] Cons by simp
  qed
  with Cons show ?case by (simp add: radix_val_Cons)
qed

text \<open>Digits with no leading zero are the numeral of their value.\<close>

lemma radix_of_digits:
  "2 \<le> b \<Longrightarrow> ds \<noteq> [] \<Longrightarrow> \<forall>d\<in>set ds. d < b \<Longrightarrow> hd ds \<noteq> 0 \<Longrightarrow> radix b (radix_val b ds) = ds"
proof -
  assume b: "2 \<le> b" and ds: "ds \<noteq> []" "\<forall>d\<in>set ds. d < b" "hd ds \<noteq> 0"
  let ?n = "radix_val b ds"
  obtain d es where e: "ds = d # es" using ds(1) by (cases ds) auto
  have lt: "?n < b ^ length ds" by (rule radix_val_less [OF ds(2)])
  have ge: "b ^ length es \<le> ?n" using ds(3) by (simp add: e radix_val_Cons trans_le_add1)
  have "length (radix b ?n) \<le> length ds"
    using b ds(1) lt by (simp add: radix_length_iff)
  moreover have "\<not> length (radix b ?n) \<le> length es"
  proof (cases es)
    case Nil
    then show ?thesis by simp
  next
    case (Cons x xs)
    then show ?thesis using b ge by (subst radix_length_iff) auto
  qed
  ultimately have "length (radix b ?n) = length ds" by (simp add: e)
  then show ?thesis
    by (rule radix_val_inj) (use b ds radix_digits [OF b] in auto)
qed

lemmas radix_core = radix_small radix_step radix_value radix_digits radix_hd_pos radix_length_iff

end
