(* ===== verification/Go_Text.thy ===== *)
theory Go_Text
  imports Radix "HOL-Library.Char_ord" "HOL-Library.List_Lexorder" "HOL-Library.Multiset"
begin

text \<open>
  What the program uses of the text packages of Go's standard library: \<open>strings.Split\<close>,
  \<open>strings.TrimRight\<close>, \<open>strconv.Atoi\<close>, \<open>encoding/hex\<close>, the \<open>%040x\<close> format of a big integer,
  \<open>url.PathEscape\<close>, \<open>net.IP.String\<close> and \<open>sort.Strings\<close>. Strings are compared as Go compares
  them, byte by byte (the lexicographic order of \<open>List_Lexorder\<close> over \<open>Char_ord\<close>), and
  \<open>sort.Strings\<close> is the library's \<open>sort\<close> over that total order.
\<close>

section \<open>Splitting and trimming\<close>

text \<open>\<open>strings.Split(s, sep)\<close> for a one-byte separator: never empty, even for \<open>s = ""\<close>.\<close>

fun split_on :: "char \<Rightarrow> string \<Rightarrow> string list" where
  "split_on c [] = [[]]"
| "split_on c (x # xs) =
     (if x = c then [] # split_on c xs
      else (case split_on c xs of [] \<Rightarrow> [[x]] | f # fs \<Rightarrow> (x # f) # fs))"

fun join_with :: "char \<Rightarrow> string list \<Rightarrow> string" where
  "join_with c [] = []"
| "join_with c [f] = f"
| "join_with c (f # g # fs) = f @ c # join_with c (g # fs)"

lemma split_on_nonempty [simp]: "split_on c s \<noteq> []"
  by (induction s) (auto split: list.splits)

lemma split_on_plain: "c \<notin> set s \<Longrightarrow> split_on c s = [s]"
  by (induction s) auto

lemma split_on_append: "c \<notin> set s \<Longrightarrow> split_on c (s @ c # t) = s # split_on c t"
  by (induction s) auto

lemma join_with_Cons: "fs \<noteq> [] \<Longrightarrow> join_with c (f # fs) = f @ c # join_with c fs"
  by (cases fs) auto

lemma split_on_join:
  "fs \<noteq> [] \<Longrightarrow> \<forall>f\<in>set fs. c \<notin> set f \<Longrightarrow> split_on c (join_with c fs) = fs"
proof (induction fs)
  case Nil
  then show ?case by simp
next
  case (Cons f fs)
  then show ?case
    by (cases "fs = []") (simp_all add: split_on_plain split_on_append join_with_Cons)
qed

lemma join_split_on: "join_with c (split_on c s) = s"
proof (induction s)
  case Nil
  then show ?case by simp
next
  case (Cons x xs)
  obtain f fs where f: "split_on c xs = f # fs" by (cases "split_on c xs") auto
  with Cons have "join_with c (f # fs) = xs" by simp
  with f show ?case by (cases fs) (auto simp: join_with_Cons)
qed

text \<open>\<open>strings.TrimRight(s, "/")\<close>: every trailing byte of the cutset goes.\<close>

definition TrimRight :: "string \<Rightarrow> char \<Rightarrow> string" where
  "TrimRight s c = rev (dropWhile (\<lambda>x. x = c) (rev s))"

lemma TrimRight_last: "TrimRight s c \<noteq> [] \<Longrightarrow> last (TrimRight s c) \<noteq> c"
  using hd_dropWhile [of "\<lambda>x. x = c" "rev s"] by (auto simp: TrimRight_def last_rev)

section \<open>Decimal numbers\<close>

definition digit_val :: "char \<Rightarrow> int option" where
  "digit_val c = (let n = of_char c :: int in if 48 \<le> n \<and> n \<le> 57 then Some (n - 48) else None)"

datatype num_error = SyntaxError | RangeError

text \<open>
  The digit loop of \<open>strconv.ParseUint(s, 10, 64)\<close>: a character that is no digit is a syntax
  error, a value past 64 bits a range error, whichever comes first.
\<close>

fun parse_uint64 :: "int \<Rightarrow> string \<Rightarrow> num_error + int" where
  "parse_uint64 n [] = Inr n"
| "parse_uint64 n (c # cs) =
     (case digit_val c of
        None \<Rightarrow> Inl SyntaxError
      | Some d \<Rightarrow> if n * 10 + d < 2 ^ 64 then parse_uint64 (n * 10 + d) cs else Inl RangeError)"

fun num_error_var :: "num_error \<Rightarrow> go_error" where
  "num_error_var SyntaxError = ErrVar ''strconv.ErrSyntax''"
| "num_error_var RangeError = ErrVar ''strconv.ErrRange''"

definition Atoi :: "string \<Rightarrow> int result" where
  "Atoi s =
     (let neg = (s \<noteq> [] \<and> hd s = CHR ''-'');
          ds = (if s \<noteq> [] \<and> (hd s = CHR ''-'' \<or> hd s = CHR ''+'') then tl s else s);
          fail = (\<lambda>k. Inl (ErrWrap ''strconv.Atoi: parsing %q: %w'' [FStr s] (num_error_var k)))
      in if ds = [] then fail SyntaxError
         else (case parse_uint64 0 ds of
                 Inl k \<Rightarrow> fail k
               | Inr n \<Rightarrow>
                   if neg then (if n \<le> 2 ^ 63 then Inr (- n) else fail RangeError)
                   else (if n < 2 ^ 63 then Inr n else fail RangeError)))"

lemma parse_uint64_nonneg: "parse_uint64 n ds = Inr m \<Longrightarrow> 0 \<le> n \<Longrightarrow> 0 \<le> m"
  by (induction n ds rule: parse_uint64.induct)
     (auto simp: digit_val_def Let_def split: option.splits if_splits)

lemma Atoi_bounds: "Atoi s = Inr n \<Longrightarrow> - (2 ^ 63) \<le> n \<and> n < 2 ^ 63"
  by (auto simp: Atoi_def Let_def dest: parse_uint64_nonneg split: if_splits sum.splits)

lemma Atoi_empty: "\<exists>e. Atoi [] = Inl e"
  by (simp add: Atoi_def)

section \<open>Hexadecimal\<close>

definition hex_digit :: "nat \<Rightarrow> char" where
  "hex_digit n = char_of (if n < 10 then 48 + n else 87 + n)"

definition hex_val :: "char \<Rightarrow> nat option" where
  "hex_val c =
     (let n = of_char c :: nat in
      if 48 \<le> n \<and> n \<le> 57 then Some (n - 48)
      else if 97 \<le> n \<and> n \<le> 102 then Some (n - 87)
      else if 65 \<le> n \<and> n \<le> 70 then Some (n - 55)
      else None)"

definition hex_bad :: "char \<Rightarrow> go_error" where
  "hex_bad c = ErrNew ''encoding/hex: invalid byte: %#U'' [FInt (of_char c)]"

text \<open>
  \<open>hex.DecodeString\<close>: pairs of digits of either case; the first bad byte is reported, and an
  odd length only when every byte is a digit.
\<close>

fun hex_DecodeString :: "string \<Rightarrow> bytes result" where
  "hex_DecodeString [] = Inr []"
| "hex_DecodeString [c] =
     (if hex_val c = None then Inl (hex_bad c) else Inl (ErrVar ''hex.ErrLength''))"
| "hex_DecodeString (p # q # cs) =
     (case hex_val p of
        None \<Rightarrow> Inl (hex_bad p)
      | Some a \<Rightarrow>
          (case hex_val q of
             None \<Rightarrow> Inl (hex_bad q)
           | Some b \<Rightarrow> rmap (\<lambda>bs. word_of_nat (a * 16 + b) # bs) (hex_DecodeString cs)))"

text \<open>\<open>hex.EncodeToString\<close>, and the \<open>%x\<close> digits of a non-negative number.\<close>

definition hex_EncodeToString :: "bytes \<Rightarrow> string" where
  "hex_EncodeToString bs =
     concat (map (\<lambda>b. [hex_digit (unat b div 16), hex_digit (unat b mod 16)]) bs)"

definition hex_nat :: "nat \<Rightarrow> string" where
  "hex_nat n = map hex_digit (radix 16 n)"

lemma of_char_hex_digit: "n < 16 \<Longrightarrow> of_char (hex_digit n) = (if n < 10 then 48 + n else 87 + n)"
  by (auto simp: hex_digit_def)

lemma hex_val_digit [simp]: "n < 16 \<Longrightarrow> hex_val (hex_digit n) = Some n"
  by (auto simp: hex_val_def Let_def of_char_hex_digit)

lemma hex_digit_inj: "m < 16 \<Longrightarrow> n < 16 \<Longrightarrow> hex_digit m = hex_digit n \<longleftrightarrow> m = n"
  by (metis hex_val_digit option.inject)

lemma hex_digit_less: "m < 16 \<Longrightarrow> n < 16 \<Longrightarrow> hex_digit m < hex_digit n \<longleftrightarrow> m < n"
  by (auto simp: less_char_def of_char_hex_digit)

lemma length_hex_EncodeToString [simp]: "length (hex_EncodeToString bs) = 2 * length bs"
  by (induction bs) (simp_all add: hex_EncodeToString_def)

lemma hex_decode_encode: "hex_DecodeString (hex_EncodeToString bs) = Inr bs"
proof (induction bs)
  case Nil
  then show ?case by (simp add: hex_EncodeToString_def)
next
  case (Cons b bs)
  have "unat b div 16 < 16" using unat_byte [of b] by linarith
  moreover have "unat b div 16 * 16 + unat b mod 16 = unat b" by simp
  ultimately show ?case using Cons by (simp add: hex_EncodeToString_def)
qed

lemma hex_DecodeString_length: "hex_DecodeString s = Inr bs \<Longrightarrow> length s = 2 * length bs"
  by (induction s arbitrary: bs rule: hex_DecodeString.induct)
     (auto split: if_splits option.splits)

text \<open>A string decodes exactly when it is an even number of hexadecimal digits.\<close>

lemma hex_DecodeString_ok_iff:
  "(\<exists>bs. hex_DecodeString s = Inr bs) \<longleftrightarrow> even (length s) \<and> (\<forall>c\<in>set s. hex_val c \<noteq> None)"
  by (induction s rule: hex_DecodeString.induct) (auto split: option.splits)

lemma hex_nat_nonempty [simp]: "hex_nat n \<noteq> []"
  by (simp add: hex_nat_def)

lemma hex_nat_inj: "hex_nat m = hex_nat n \<longleftrightarrow> m = n"
proof
  assume "hex_nat m = hex_nat n"
  then have "map the (map hex_val (hex_nat m)) = map the (map hex_val (hex_nat n))" by simp
  moreover have "map the (map hex_val (hex_nat k)) = radix 16 k" for k
    using radix_digits [of 16 _ k] by (auto simp: hex_nat_def intro!: map_idI)
  ultimately show "m = n" by (simp add: radix_inj)
qed simp

text \<open>
  \<open>fmt.Sprintf("%040x", n)\<close> for a \<open>*big.Int\<close>: sign, then zeros up to a total width of 40, then
  the digits. A longer number is printed in full.
\<close>

definition sprintf_040x :: "int \<Rightarrow> string" where
  "sprintf_040x n =
     (let sign = (if n < 0 then ''-'' else []); ds = hex_nat (nat \<bar>n\<bar>)
      in sign @ replicate (40 - (length sign + length ds)) (CHR ''0'') @ ds)"

section \<open>URLs and IP addresses\<close>

text \<open>
  \<open>url.PathEscape\<close>: in a path segment everything is percent-encoded but letters, digits, the
  unreserved marks and the delimiters other than slash, semicolon, comma and question mark.
\<close>

definition path_plain :: "char \<Rightarrow> bool" where
  "path_plain c =
     (let n = of_char c :: nat in
      (97 \<le> n \<and> n \<le> 122) \<or> (65 \<le> n \<and> n \<le> 90) \<or> (48 \<le> n \<and> n \<le> 57) \<or>
      c \<in> set ''-_.~$&+:=@'')"

definition upper_hex :: "nat \<Rightarrow> char" where
  "upper_hex n = char_of (if n < 10 then 48 + n else 55 + n)"

definition PathEscape :: "string \<Rightarrow> string" where
  "PathEscape s =
     concat (map (\<lambda>c. if path_plain c then [c]
                      else [CHR ''%'', upper_hex (of_char c div 16), upper_hex (of_char c mod 16)]) s)"

lemma upper_hex_plain: "n < 16 \<Longrightarrow> path_plain (upper_hex n)"
  by (auto simp: path_plain_def upper_hex_def Let_def)

lemma PathEscape_chars: "c \<in> set (PathEscape s) \<Longrightarrow> path_plain c \<or> c = CHR ''%''"
proof -
  assume "c \<in> set (PathEscape s)"
  moreover have "of_char x div 16 < (16::nat)" for x :: char
    using nat_of_char_less_256 [of x] by linarith
  ultimately show ?thesis
    by (auto simp: PathEscape_def upper_hex_plain split: if_splits)
qed

lemma PathEscape_no_slash: "CHR ''/'' \<notin> set (PathEscape s)"
  using PathEscape_chars [of "CHR ''/''" s] by (auto simp: path_plain_def Let_def)

text \<open>Decimal digits of a number.\<close>

definition dec_nat :: "nat \<Rightarrow> string" where
  "dec_nat n = map (\<lambda>d. char_of (48 + d)) (radix 10 n)"

text \<open>
  \<open>net.IP.String\<close>. An address of 4 bytes, or of 16 bytes in the IPv4-mapped form, is printed in
  dotted decimal; any other one of 16 bytes as RFC 5952 says (the first longest run of at least
  two zero groups becomes \<open>::\<close>); other lengths print as \<open>?\<close> and hexadecimal.
\<close>

definition ip_To4 :: "bytes \<Rightarrow> bytes option" where
  "ip_To4 ip =
     (if length ip = 4 then Some ip
      else if length ip = 16 \<and> take 10 ip = replicate 10 0 \<and> ip ! 10 = 255 \<and> ip ! 11 = 255
      then Some (drop 12 ip) else None)"

fun ip_groups :: "bytes \<Rightarrow> nat list" where
  "ip_groups (a # b # r) = (unat a * 256 + unat b) # ip_groups r"
| "ip_groups _ = []"

definition zero_run :: "nat list \<Rightarrow> nat \<Rightarrow> nat" where
  "zero_run gs i = length (takeWhile (\<lambda>g. g = 0) (drop i gs))"

definition ip_best_run :: "nat list \<Rightarrow> nat \<times> nat" where
  "ip_best_run gs =
     foldl (\<lambda>(s, l) i. if zero_run gs i \<ge> 2 \<and> zero_run gs i > l then (i, zero_run gs i) else (s, l))
       (length gs, 0) [0..<length gs]"

definition ip6_text :: "nat list \<Rightarrow> string" where
  "ip6_text gs =
     (let (s, l) = ip_best_run gs in
      if l = 0 then join_with (CHR '':'') (map hex_nat gs)
      else join_with (CHR '':'') (map hex_nat (take s gs)) @ ''::''
           @ join_with (CHR '':'') (map hex_nat (drop (s + l) gs)))"

definition IP_String :: "bytes \<Rightarrow> string" where
  "IP_String ip =
     (if ip = [] then ''<nil>''
      else if length ip \<noteq> 4 \<and> length ip \<noteq> 16 then CHR ''?'' # hex_EncodeToString ip
      else (case ip_To4 ip of
              Some p4 \<Rightarrow> join_with (CHR ''.'') (map (\<lambda>b. dec_nat (unat b)) p4)
            | None \<Rightarrow> ip6_text (ip_groups ip)))"

end
