(* ===== verification/Go_OS.thy ===== *)
theory Go_OS
  imports Go_Text
begin

text \<open>
  The part of the operating system the program uses, with Go's packages over it: \<open>path/filepath\<close>
  (\<open>Clean\<close>, \<open>Join\<close>, \<open>Dir\<close>, \<open>Base\<close>), \<open>os\<close> (directories, temporary files, writing, renaming,
  removing, reading), \<open>crypto/rand\<close> and \<open>time.Now\<close>.

  The state is a map from paths to regular files, a set of directories, and a clock that counts
  system calls. What the environment decides, whether the n-th call fails and how far it got, which
  random numbers come and what time it is, is a record of functions of that clock, so a
  statement about every environment covers every run.
\<close>

section \<open>Paths\<close>

text \<open>\<open>filepath.Clean\<close>: the lexical normal form, by a stack of path elements.\<close>

definition path_rooted :: "string \<Rightarrow> bool" where
  "path_rooted p = (p \<noteq> [] \<and> hd p = CHR ''/'')"

fun clean_step :: "bool \<Rightarrow> string list \<Rightarrow> string \<Rightarrow> string list" where
  "clean_step rooted st e =
     (if e = [] \<or> e = ''.'' then st
      else if e = ''..''
      then (if st \<noteq> [] \<and> last st \<noteq> ''..'' then butlast st
            else if rooted then st else st @ [e])
      else st @ [e])"

definition path_elements :: "string \<Rightarrow> string list" where
  "path_elements p = foldl (clean_step (path_rooted p)) [] (split_on (CHR ''/'') p)"

definition path_Clean :: "string \<Rightarrow> string" where
  "path_Clean p =
     (let es = path_elements p; body = (if es = [] then [] else join_with (CHR ''/'') es)
      in if path_rooted p then CHR ''/'' # body else if es = [] then ''.'' else body)"

fun path_Join :: "string list \<Rightarrow> string" where
  "path_Join [] = []"
| "path_Join (e # es) = (if e = [] then path_Join es else path_Clean (join_with (CHR ''/'') (e # es)))"

text \<open>The last path element, and what precedes it.\<close>

definition path_Base :: "string \<Rightarrow> string" where
  "path_Base p =
     (if p = [] then ''.''
      else let q = TrimRight p (CHR ''/'') in
           if q = [] then ''/'' else last (split_on (CHR ''/'') q))"

definition path_Dir :: "string \<Rightarrow> string" where
  "path_Dir p = path_Clean (rev (dropWhile (\<lambda>c. c \<noteq> CHR ''/'') (rev p)))"

text \<open>The directories \<open>os.MkdirAll\<close> creates: every leading part of the path and the path itself.\<close>

definition path_prefixes :: "string \<Rightarrow> string list" where
  "path_prefixes p = map (\<lambda>i. take i p) (filter (\<lambda>i. p ! i = CHR ''/'') [1..<length p]) @ [p]"

section \<open>The state\<close>

text \<open>
  The choices of the environment at the n-th system call: the failure, if any; how much of the work a
  failing call did; the number \<open>os.CreateTemp\<close> draws (32 bits); the bytes \<open>rand.Read\<close> delivers; the
  time in nanoseconds.
\<close>

record os_env =
  ev_fault :: "nat \<Rightarrow> go_error option"
  ev_partial :: "nat \<Rightarrow> nat"
  ev_random :: "nat \<Rightarrow> 32 word"
  ev_bytes :: "nat \<Rightarrow> nat \<Rightarrow> byte"
  ev_now :: "nat \<Rightarrow> int"

record os_file =
  f_data :: bytes
  f_perm :: nat

record os_world =
  w_files :: "string \<Rightarrow> os_file option"
  w_dirs :: "string set"
  w_tick :: nat
  w_env :: os_env

text \<open>The permission bits the program uses: octal 600, 640 and 750.\<close>

abbreviation "perm_600 \<equiv> (384 :: nat)"
abbreviation "perm_640 \<equiv> (416 :: nat)"
abbreviation "perm_750 \<equiv> (488 :: nat)"

definition os_fault :: "'z os_world_scheme \<Rightarrow> go_error option" where
  "os_fault w = ev_fault (w_env w) (w_tick w)"

definition os_tick :: "'z os_world_scheme \<Rightarrow> 'z os_world_scheme" where
  "os_tick w = w \<lparr> w_tick := Suc (w_tick w) \<rparr>"

text \<open>A function that returns only an \<open>error\<close> returns an option of an error; \<open>None\<close> is nil.\<close>

type_synonym ('a, 'z) os_call = "'z os_world_scheme \<Rightarrow> 'a \<times> 'z os_world_scheme"

section \<open>System calls\<close>

definition set_file :: "string \<Rightarrow> os_file option \<Rightarrow> 'z os_world_scheme \<Rightarrow> 'z os_world_scheme" where
  "set_file p f w = w \<lparr> w_files := (w_files w)(p := f) \<rparr>"

definition os_MkdirAll :: "string \<Rightarrow> nat \<Rightarrow> (go_error option, 'z) os_call" where
  "os_MkdirAll p perm w =
     (let ps = path_prefixes p in
      case os_fault w of
        Some e \<Rightarrow>
          (Some e, os_tick (w \<lparr> w_dirs := w_dirs w \<union> set (take (ev_partial (w_env w) (w_tick w)) ps) \<rparr>))
      | None \<Rightarrow>
          if list_ex (\<lambda>q. w_files w q \<noteq> None) ps then (Some (ErrVar ''syscall.ENOTDIR''), os_tick w)
          else (None, os_tick (w \<lparr> w_dirs := w_dirs w \<union> set ps \<rparr>)))"

text \<open>
  \<open>os.CreateTemp\<close>: the last \<open>*\<close> of the pattern is replaced by a random number; a name that exists is
  drawn again, at most 10000 times.
\<close>

definition temp_parts :: "string \<Rightarrow> string \<times> string" where
  "temp_parts pattern =
     (if CHR ''*'' \<in> set pattern
      then (rev (tl (dropWhile (\<lambda>c. c \<noteq> CHR ''*'') (rev pattern))),
            rev (takeWhile (\<lambda>c. c \<noteq> CHR ''*'') (rev pattern)))
      else (pattern, []))"

definition temp_join :: "string \<Rightarrow> string \<Rightarrow> string" where
  "temp_join dir name =
     (if dir \<noteq> [] \<and> last dir = CHR ''/'' then dir @ name else dir @ CHR ''/'' # name)"

function create_temp :: "nat \<Rightarrow> string \<Rightarrow> string \<Rightarrow> string \<Rightarrow> (string result, 'z) os_call" where
  "create_temp tries dir prefix suffix w =
     (let name = temp_join dir (prefix @ dec_nat (unat (ev_random (w_env w) (w_tick w))) @ suffix) in
      if w_files w name \<noteq> None \<or> name \<in> w_dirs w
      then (if tries = 0 then (Inl (ErrVar ''os.ErrExist''), os_tick w)
            else create_temp (tries - 1) dir prefix suffix (os_tick w))
      else (case os_fault w of
              Some e \<Rightarrow> (Inl e, os_tick w)
            | None \<Rightarrow>
                if dir \<notin> w_dirs w then (Inl (ErrVar ''os.ErrNotExist''), os_tick w)
                else (Inr name, os_tick (set_file name (Some \<lparr> f_data = [], f_perm = perm_600 \<rparr>) w))))"
  by pat_completeness auto
termination by (relation "measure (\<lambda>(tries, _). tries)") auto

declare create_temp.simps [simp del]

definition os_CreateTemp :: "string \<Rightarrow> string \<Rightarrow> (string result, 'z) os_call" where
  "os_CreateTemp dir pattern w =
     (if CHR ''/'' \<in> set pattern
      then (Inl (ErrNew ''pattern contains path separator'' [FStr pattern]), w)
      else let (prefix, suffix) = temp_parts pattern in create_temp 10000 dir prefix suffix w)"

text \<open>Writing to, closing and changing the mode of a file that was opened under the given name.\<close>

definition os_Write :: "string \<Rightarrow> bytes \<Rightarrow> (go_error option, 'z) os_call" where
  "os_Write p d w =
     (let put = (\<lambda>d. case w_files w p of
                       None \<Rightarrow> w
                     | Some f \<Rightarrow> set_file p (Some (f \<lparr> f_data := f_data f @ d \<rparr>)) w)
      in case os_fault w of
           Some e \<Rightarrow> (Some e, os_tick (put (take (ev_partial (w_env w) (w_tick w)) d)))
         | None \<Rightarrow> (None, os_tick (put d)))"

definition os_Close :: "string \<Rightarrow> (go_error option, 'z) os_call" where
  "os_Close p w = (os_fault w, os_tick w)"

definition os_Chmod :: "string \<Rightarrow> nat \<Rightarrow> (go_error option, 'z) os_call" where
  "os_Chmod p perm w =
     (case os_fault w of
        Some e \<Rightarrow> (Some e, os_tick w)
      | None \<Rightarrow>
          (case w_files w p of
             None \<Rightarrow> (Some (ErrVar ''os.ErrNotExist''), os_tick w)
           | Some f \<Rightarrow> (None, os_tick (set_file p (Some (f \<lparr> f_perm := perm \<rparr>)) w))))"

definition os_Rename :: "string \<Rightarrow> string \<Rightarrow> (go_error option, 'z) os_call" where
  "os_Rename old new w =
     (case os_fault w of
        Some e \<Rightarrow> (Some e, os_tick w)
      | None \<Rightarrow>
          (case w_files w old of
             None \<Rightarrow> (Some (ErrVar ''os.ErrNotExist''), os_tick w)
           | Some f \<Rightarrow>
               if new \<in> w_dirs w then (Some (ErrVar ''os.ErrExist''), os_tick w)
               else (None, os_tick (set_file new (Some f) (set_file old None w)))))"

definition os_Remove :: "string \<Rightarrow> (go_error option, 'z) os_call" where
  "os_Remove p w =
     (case os_fault w of
        Some e \<Rightarrow> (Some e, os_tick w)
      | None \<Rightarrow>
          (case w_files w p of
             None \<Rightarrow> (Some (ErrVar ''os.ErrNotExist''), os_tick w)
           | Some f \<Rightarrow> (None, os_tick (set_file p None w))))"

definition os_ReadFile :: "string \<Rightarrow> (bytes result, 'z) os_call" where
  "os_ReadFile p w =
     (case os_fault w of
        Some e \<Rightarrow> (Inl e, os_tick w)
      | None \<Rightarrow>
          (case w_files w p of
             None \<Rightarrow> (Inl (ErrVar ''os.ErrNotExist''), os_tick w)
           | Some f \<Rightarrow> (Inr (f_data f), os_tick w)))"

text \<open>\<open>rand.Read\<close> into a buffer of \<open>n\<close> bytes, and \<open>time.Now\<close>.\<close>

definition rand_Read :: "nat \<Rightarrow> (bytes result, 'z) os_call" where
  "rand_Read n w =
     (case os_fault w of
        Some e \<Rightarrow> (Inl e, os_tick w)
      | None \<Rightarrow> (Inr (map (ev_bytes (w_env w) (w_tick w)) [0..<n]), os_tick w))"

definition time_Now :: "(int, 'z) os_call" where
  "time_Now w = (ev_now (w_env w) (w_tick w), os_tick w)"

section \<open>What the calls leave alone\<close>

lemma os_tick_simps [simp]:
  "w_files (os_tick w) = w_files w" "w_dirs (os_tick w) = w_dirs w" "w_env (os_tick w) = w_env w"
  "w_tick (os_tick w) = Suc (w_tick w)"
  by (simp_all add: os_tick_def)

lemma set_file_simps [simp]:
  "w_files (set_file p f w) = (w_files w)(p := f)" "w_dirs (set_file p f w) = w_dirs w"
  "w_env (set_file p f w) = w_env w" "w_tick (set_file p f w) = w_tick w"
  by (simp_all add: set_file_def)

lemma os_MkdirAll_frame [frame_simps]:
  "os_MkdirAll p perm w = (r, w') \<Longrightarrow> w_files w' = w_files w \<and> w_env w' = w_env w"
  by (auto simp: os_MkdirAll_def Let_def split: option.splits if_splits)

lemma create_temp_result:
  "create_temp n dir pre suf w = (r, w') \<Longrightarrow>
     w_env w' = w_env w \<and> w_dirs w' = w_dirs w \<and>
     (case r of
        Inl e \<Rightarrow> w_files w' = w_files w
      | Inr p \<Rightarrow> w_files w p = None \<and> w_files w' = (w_files w)(p \<mapsto> \<lparr> f_data = [], f_perm = perm_600 \<rparr>) \<and>
                 (\<exists>k. p = temp_join dir (pre @ dec_nat k @ suf)))"
proof (induction n dir pre suf w rule: create_temp.induct)
  case (1 n dir pre suf w)
  let ?name = "temp_join dir (pre @ dec_nat (unat (ev_random (w_env w) (w_tick w))) @ suf)"
  note unfolded = create_temp.simps [of n dir pre suf w, unfolded Let_def]
  show ?case
  proof (cases "w_files w ?name \<noteq> None \<or> ?name \<in> w_dirs w")
    case True
    show ?thesis
    proof (cases "n = 0")
      case True
      with \<open>w_files w ?name \<noteq> None \<or> ?name \<in> w_dirs w\<close> "1.prems" unfolded show ?thesis by auto
    next
      case False
      with True "1.prems" unfolded have "create_temp (n - 1) dir pre suf (os_tick w) = (r, w')" by simp
      from "1.IH" [OF refl True False this] show ?thesis by (simp cong: sum.case_cong)
    qed
  next
    case False
    with "1.prems" unfolded show ?thesis by (auto split: option.splits if_splits)
  qed
qed

lemma os_Close_frame [frame_simps]:
  "os_Close p w = (r, w') \<Longrightarrow> w_files w' = w_files w \<and> w_env w' = w_env w"
  by (auto simp: os_Close_def)

lemma os_ReadFile_frame [frame_simps]:
  "os_ReadFile p w = (r, w') \<Longrightarrow> w_files w' = w_files w \<and> w_env w' = w_env w"
  by (auto simp: os_ReadFile_def split: option.splits)

lemma rand_Read_frame [frame_simps]:
  "rand_Read n w = (r, w') \<Longrightarrow> w_files w' = w_files w \<and> w_env w' = w_env w"
  by (auto simp: rand_Read_def split: option.splits)

lemma rand_Read_length: "rand_Read n w = (Inr bs, w') \<Longrightarrow> length bs = n"
  by (auto simp: rand_Read_def split: option.splits)

lemma time_Now_frame [frame_simps]:
  "time_Now w = (r, w') \<Longrightarrow> w_files w' = w_files w \<and> w_env w' = w_env w"
  by (auto simp: time_Now_def)

text \<open>The calls on one file change that file only, and what they make of it.\<close>

lemma os_Write_file:
  "os_Write p d w = (r, w') \<Longrightarrow> w_files w p = Some f \<Longrightarrow>
     w_env w' = w_env w \<and>
     (\<exists>d'. w_files w' = (w_files w)(p \<mapsto> f \<lparr> f_data := f_data f @ d' \<rparr>) \<and> (r = None \<longrightarrow> d' = d))"
  by (auto simp: os_Write_def Let_def split: option.splits)

lemma os_Chmod_file:
  "os_Chmod p perm w = (r, w') \<Longrightarrow> w_files w p = Some f \<Longrightarrow>
     w_env w' = w_env w \<and>
     w_files w' = (if r = None then (w_files w)(p \<mapsto> f \<lparr> f_perm := perm \<rparr>) else w_files w)"
  by (auto simp: os_Chmod_def split: option.splits)

lemma os_Rename_file:
  "os_Rename p q w = (r, w') \<Longrightarrow> w_files w p = Some f \<Longrightarrow>
     w_env w' = w_env w \<and>
     w_files w' = (if r = None then (w_files w)(p := None, q \<mapsto> f) else w_files w)"
  by (auto simp: os_Rename_def split: option.splits if_splits)

lemma os_Remove_file:
  "os_Remove p w = (r, w') \<Longrightarrow>
     w_env w' = w_env w \<and> (w_files w' = (w_files w)(p := None) \<or> w_files w' = w_files w)"
  by (auto simp: os_Remove_def split: option.splits)

text \<open>A system on which no call fails.\<close>

definition no_faults :: "'z os_world_scheme \<Rightarrow> bool" where
  "no_faults w \<longleftrightarrow> (\<forall>n. ev_fault (w_env w) n = None)"

lemma no_faults_env: "w_env w' = w_env w \<Longrightarrow> no_faults w' = no_faults w"
  by (simp add: no_faults_def)

lemma no_faults_os: "no_faults w \<Longrightarrow> os_fault w = None"
  by (simp add: no_faults_def os_fault_def)

lemma os_Remove_quiet:
  "os_Remove p w = (r, w') \<Longrightarrow> no_faults w \<Longrightarrow> w_files w' = (w_files w)(p := None) \<and> w_env w' = w_env w"
  by (auto simp: os_Remove_def no_faults_os split: option.splits)

lemma os_Write_frame:
  "os_Write p d w = (r, w') \<Longrightarrow> w_env w' = w_env w \<and> (\<forall>q. q \<noteq> p \<longrightarrow> w_files w' q = w_files w q)"
  by (auto simp: os_Write_def Let_def split: option.splits)

lemma os_CreateTemp_frame:
  assumes "os_CreateTemp dir pat w = (r, w')"
  shows "w_env w' = w_env w \<and>
    (case r of
       Inl e \<Rightarrow> w_files w' = w_files w
     | Inr p \<Rightarrow> w_files w p = None \<and> w_files w' = (w_files w)(p \<mapsto> \<lparr> f_data = [], f_perm = perm_600 \<rparr>))"
  using assms create_temp_result [of 10000 dir "fst (temp_parts pat)" "snd (temp_parts pat)" w r w']
  by (cases r) (auto simp: os_CreateTemp_def split: if_splits prod.splits)

section \<open>Joined paths\<close>

text \<open>A path element that \<open>Clean\<close> keeps as it is.\<close>

definition plain_element :: "string \<Rightarrow> bool" where
  "plain_element e = (e \<noteq> [] \<and> e \<noteq> ''.'' \<and> e \<noteq> ''..'' \<and> CHR ''/'' \<notin> set e)"

definition path_prefix :: "string \<Rightarrow> string" where
  "path_prefix d =
     (if path_rooted d then ''/'' else []) @ concat (map (\<lambda>e. e @ ''/'') (path_elements d))"

lemma join_with_snoc: "es \<noteq> [] \<Longrightarrow> join_with c (es @ [e]) = join_with c es @ c # e"
  by (induction es rule: join_with.induct) auto

lemma join_with_concat: "concat (map (\<lambda>e. e @ [c]) es) @ e = join_with c (es @ [e])"
  by (induction es) (auto simp: join_with_Cons)

lemma split_on_append2: "split_on c (s @ c # t) = split_on c s @ split_on c t"
proof (induction s)
  case (Cons x s)
  then show ?case by (cases "split_on c s") auto
qed simp

lemma path_elements_two:
  assumes "plain_element a" "plain_element b" "d \<noteq> []"
  shows "path_elements (d @ CHR ''/'' # a @ CHR ''/'' # b) = path_elements d @ [a, b]"
proof -
  have "path_rooted (d @ CHR ''/'' # a @ CHR ''/'' # b) = path_rooted d"
    using assms(3) by (simp add: path_rooted_def)
  then show ?thesis
    using assms(1,2) by (simp add: path_elements_def split_on_append2 split_on_plain plain_element_def)
qed

text \<open>\<open>filepath.Join(dir, a, b)\<close> keeps the last two elements under a prefix that depends on \<open>dir\<close> only.\<close>

lemma path_Join_three:
  assumes "plain_element a" "plain_element b"
  shows "path_Join [d, a, b] = path_prefix d @ a @ CHR ''/'' # b"
proof (cases "d = []")
  case True
  have "path_elements (a @ CHR ''/'' # b) = [a, b]"
    using assms by (simp add: path_elements_def split_on_append2 split_on_plain plain_element_def)
  moreover have "\<not> path_rooted (a @ CHR ''/'' # b)"
    using assms by (cases a) (auto simp: path_rooted_def plain_element_def)
  moreover have "path_prefix [] = []" by (simp add: path_prefix_def path_rooted_def path_elements_def)
  ultimately show ?thesis using True assms by (simp add: path_Clean_def plain_element_def)
next
  case False
  have "path_rooted (d @ CHR ''/'' # a @ CHR ''/'' # b) = path_rooted d"
    using False by (simp add: path_rooted_def)
  moreover have "join_with (CHR ''/'') (path_elements d @ [a, b]) =
      concat (map (\<lambda>e. e @ ''/'') (path_elements d)) @ a @ CHR ''/'' # b"
    using join_with_concat [of "CHR ''/''" "path_elements d @ [a]" b] by simp
  ultimately show ?thesis
    using False assms by (simp add: path_Clean_def path_elements_two path_prefix_def)
qed

lemma path_Base_of:
  assumes "plain_element b"
  shows "path_Base (p @ CHR ''/'' # b) = b"
proof -
  have "b \<noteq> []" "CHR ''/'' \<notin> set b" using assms by (auto simp: plain_element_def)
  moreover from this have "last b \<noteq> CHR ''/''" by (metis last_in_set)
  ultimately have "TrimRight (p @ CHR ''/'' # b) (CHR ''/'') = p @ CHR ''/'' # b"
    by (cases b rule: rev_cases) (auto simp: TrimRight_def)
  then show ?thesis
    using assms by (simp add: path_Base_def split_on_append2 split_on_plain plain_element_def)
qed

section \<open>A concrete system\<close>

text \<open>A system on which nothing fails, with an empty disk, for the concrete instances.\<close>

definition quiet_env :: os_env where
  "quiet_env = \<lparr> ev_fault = (\<lambda>_. None), ev_partial = (\<lambda>_. 0), ev_random = (\<lambda>t. of_nat t),
     ev_bytes = (\<lambda>_ _. 1), ev_now = (\<lambda>_. 0) \<rparr>"

definition empty_world :: os_world where
  "empty_world = \<lparr> w_files = Map.empty, w_dirs = {}, w_tick = 0, w_env = quiet_env \<rparr>"

end
