(* ===== verification/X509.thy ===== *)
theory X509
  imports Go_Text
begin

text \<open>
  The values of Go's \<open>crypto/x509\<close> that the program handles, with the fields it reads or writes.
  Signing, signature checking and the parsing of certificates and requests are cryptographic
  library code: they are arguments of the definitions that call them.

  A URI is kept as its \<open>String()\<close>, the only thing the program asks of it; a public key is an opaque
  byte string. Times and durations are in nanoseconds.
\<close>

record pkix_name =
  CommonName :: string
  OtherNames :: "(oid \<times> string) list"

datatype ext_key_usage = ExtKeyUsageClientAuth | ExtKeyUsageServerAuth | ExtKeyUsageOther nat

datatype pk_alg = RSA | DSA | ECDSA | Ed25519 | UnknownPublicKeyAlgorithm

record x509_cert =
  Raw :: bytes
  SerialNumber :: int
  Subject :: pkix_name
  DNSNames :: "string list"
  EmailAddresses :: "string list"
  IPAddresses :: "bytes list"
  URIs :: "string list"
  NotBefore :: int
  NotAfter :: int
  KeyUsage :: nat
  ExtKeyUsage :: "ext_key_usage list"
  BasicConstraintsValid :: bool
  IsCA :: bool
  SubjectKeyId :: bytes
  AuthorityKeyId :: bytes

record x509_csr =
  csr_Raw :: bytes
  csr_Subject :: pkix_name
  csr_DNSNames :: "string list"
  csr_EmailAddresses :: "string list"
  csr_IPAddresses :: "bytes list"
  csr_URIs :: "string list"
  csr_PublicKeyAlgorithm :: pk_alg
  csr_PublicKey :: bytes

definition KeyUsageDigitalSignature :: nat where
  "KeyUsageDigitalSignature = 1"

definition KeyUsageKeyEncipherment :: nat where
  "KeyUsageKeyEncipherment = 4"

end
