(* ===== verification/Go_Time.thy ===== *)
theory Go_Time
  imports Go_Text
begin

text \<open>
  What the program uses of Go's \<open>time\<close> package besides the clock: \<open>Duration.String\<close> and
  \<open>ParseDuration\<close>. A duration is a 64-bit count of nanoseconds and is modelled by an \<open>int\<close> between
  \<open>- 2 ^ 63\<close> and \<open>2 ^ 63 - 1\<close>; the unsigned arithmetic of the parser is written out. The fraction of
  a number is computed in floating point, with the rounding of IEEE 754 doubles.
\<close>

section \<open>Doubles\<close>

text \<open>
  The quotient \<open>p / q\<close> rounded to a 53-bit significand, ties to even, as a numerator and a denominator.
  The exponents that occur here are far from the limits of the format.
\<close>

definition round_half_even :: "nat \<Rightarrow> nat \<Rightarrow> nat" where
  "round_half_even p q =
     (let d = p div q; r = p mod q in if 2 * r < q \<or> 2 * r = q \<and> even d then d else d + 1)"

text \<open>Doubling the denominator, or the numerator, until the quotient has 53 bits; the number of doublings.\<close>

function scale_down :: "nat \<Rightarrow> nat \<Rightarrow> nat \<times> nat" where
  "scale_down p q =
     (if q = 0 \<or> p div q < 2 ^ 53 then (q, 0)
      else (case scale_down p (2 * q) of (q', k) \<Rightarrow> (q', Suc k)))"
  by pat_completeness auto
termination
proof (relation "measure (\<lambda>(p, q). p div q)")
  fix p q :: nat
  assume "\<not> (q = 0 \<or> p div q < 2 ^ 53)"
  moreover have "p div (2 * q) = p div q div 2" by (metis div_mult2_eq mult.commute)
  moreover from calculation have "0 < p div q" by (metis less_numeral_extra(3) not_gr0 zero_less_numeral zero_less_power)
  ultimately show "((p, 2 * q), (p, q)) \<in> measure (\<lambda>(p, q). p div q)" by simp
qed simp

function scale_up :: "nat \<Rightarrow> nat \<Rightarrow> nat \<times> nat" where
  "scale_up p q =
     (if p = 0 \<or> q = 0 \<or> 2 ^ 52 \<le> p div q then (p, 0)
      else (case scale_up (2 * p) q of (p', k) \<Rightarrow> (p', Suc k)))"
  by pat_completeness auto
termination
proof (relation "measure (\<lambda>(p, q). 2 ^ 52 * q - p)")
  fix p q :: nat
  assume a: "\<not> (p = 0 \<or> q = 0 \<or> 2 ^ 52 \<le> p div q)"
  then have "p < 2 ^ 52 * q" by (meson div_less_iff_less_mult not_le not_gr0)
  with a show "((2 * p, q), (p, q)) \<in> measure (\<lambda>(p, q). 2 ^ 52 * q - p)" by auto
qed simp

declare scale_down.simps [simp del] scale_up.simps [simp del]

definition f53 :: "nat \<Rightarrow> nat \<Rightarrow> nat \<times> nat" where
  "f53 p q =
     (if p = 0 \<or> q = 0 then (0, 1)
      else (case scale_down p q of (q', k) \<Rightarrow>
           (case scale_up p q' of (p', l) \<Rightarrow> (round_half_even p' q' * 2 ^ k, 2 ^ l))))"

text \<open>A quotient that is a whole number of at most 53 bits is exact.\<close>

lemma scale_up_exact: "\<exists>k. scale_up p q = (2 ^ k * p, k)"
proof (induction p q rule: scale_up.induct)
  case (1 p q)
  show ?case
  proof (cases "p = 0 \<or> q = 0 \<or> 2 ^ 52 \<le> p div q")
    case True
    then show ?thesis by (subst scale_up.simps) simp
  next
    case False
    with 1 obtain k where "scale_up (2 * p) q = (2 ^ k * (2 * p), k)" by blast
    then show ?thesis using False by (subst scale_up.simps) (simp add: exI [of _ "Suc k"])
  qed
qed

lemma f53_exact:
  assumes "0 < q" "n < 2 ^ 53" "f53 (n * q) q = (a, b)"
  shows "a = n * b \<and> 0 < b"
proof (cases "n = 0")
  case True
  then show ?thesis using assms by (auto simp: f53_def)
next
  case False
  have d: "scale_down (n * q) q = (q, 0)" using assms by (subst scale_down.simps) simp
  obtain k where k: "scale_up (n * q) q = (2 ^ k * (n * q), k)" using scale_up_exact by blast
  have "round_half_even (2 ^ k * (n * q)) q = 2 ^ k * n"
    using assms(1) by (simp add: round_half_even_def mult.assoc [symmetric])
  then show ?thesis using assms False d k by (auto simp: f53_def)
qed

text \<open>\<open>uint64(float64(f) * (float64(unit) / scale))\<close>.\<close>

definition frac_part :: "nat \<Rightarrow> nat \<Rightarrow> nat \<Rightarrow> nat" where
  "frac_part f unit scale =
     (case f53 unit scale of (a, b) \<Rightarrow>
     (case f53 f 1 of (c, d) \<Rightarrow>
     (case f53 (c * a) (d * b) of (m, n) \<Rightarrow> m div n)))"

lemma frac_part_exact:
  assumes "0 < s" "f * u < 2 ^ 53" "0 < u"
  shows "frac_part f (u * s) s = f * u"
proof (cases "f = 0")
  case True
  then show ?thesis by (simp add: frac_part_def f53_def split: prod.split)
next
  case False
  have u: "u < 2 ^ 53" "f < 2 ^ 53"
    using assms False by (metis le_less_trans mult_le_mono1 mult_1 Suc_leI One_nat_def not_gr0,
        metis le_less_trans mult_le_mono2 mult.right_neutral Suc_leI One_nat_def)
  obtain a b where 1: "f53 (u * s) s = (a, b)" by fastforce
  obtain c d where 2: "f53 (f * 1) 1 = (c, d)" by fastforce
  have ab: "a = u * b" "0 < b" using f53_exact [OF assms(1) u(1) 1] by simp_all
  have cd: "c = f * d" "0 < d" using f53_exact [OF _ u(2) 2] by simp_all
  obtain m n where 3: "f53 (f * u * (d * b)) (d * b) = (m, n)" by fastforce
  have "m = f * u * n" "0 < n" using f53_exact [OF _ assms(2) 3] ab cd by simp_all
  moreover have "c * a = f * u * (d * b)" using ab cd by simp
  ultimately show ?thesis using 1 2 3 by (simp add: frac_part_def)
qed

section \<open>Parsing\<close>

definition dig :: "char \<Rightarrow> nat option" where
  "dig c = (let n = of_char c :: nat in if 48 \<le> n \<and> n \<le> 57 then Some (n - 48) else None)"

fun leadingInt :: "nat \<Rightarrow> string \<Rightarrow> (nat \<times> string) option" where
  "leadingInt x [] = Some (x, [])"
| "leadingInt x (c # cs) =
     (case dig c of
        None \<Rightarrow> Some (x, c # cs)
      | Some d \<Rightarrow>
          if x > 2 ^ 63 div 10 then None
          else if x * 10 + d > 2 ^ 63 then None
          else leadingInt (x * 10 + d) cs)"

fun leadingFraction :: "bool \<Rightarrow> nat \<Rightarrow> nat \<Rightarrow> string \<Rightarrow> nat \<times> nat \<times> string" where
  "leadingFraction overflow x scale [] = (x, scale, [])"
| "leadingFraction overflow x scale (c # cs) =
     (case dig c of
        None \<Rightarrow> (x, scale, c # cs)
      | Some d \<Rightarrow>
          if overflow \<or> x > (2 ^ 63 - 1) div 10 \<or> x * 10 + d > 2 ^ 63
          then leadingFraction True x scale cs
          else leadingFraction False (x * 10 + d) (scale * 10) cs)"

text \<open>The map of units; the two spellings of the micro sign are U+00B5 and U+03BC in UTF-8.\<close>

definition unitMap :: "string \<Rightarrow> nat option" where
  "unitMap = map_of
     [(''ns'', 1), (''us'', 10 ^ 3), ([CHR 0xC2, CHR 0xB5, CHR ''s''], 10 ^ 3),
      ([CHR 0xCE, CHR 0xBC, CHR ''s''], 10 ^ 3), (''ms'', 10 ^ 6), (''s'', 10 ^ 9),
      (''m'', 60 * 10 ^ 9), (''h'', 3600 * 10 ^ 9)]"

definition unit_char :: "char \<Rightarrow> bool" where
  "unit_char c = (c \<noteq> CHR ''.'' \<and> dig c = None)"

definition invalid_duration :: "string \<Rightarrow> go_error" where
  "invalid_duration s = ErrNew ''time: invalid duration %q'' [FStr s]"

text \<open>One number with its unit: its nanoseconds and the rest of the text.\<close>

definition parse_term :: "string \<Rightarrow> string \<Rightarrow> (nat \<times> string) result" where
  "parse_term orig s =
     (if \<not> (hd s = CHR ''.'' \<or> dig (hd s) \<noteq> None) then Inl (invalid_duration orig)
      else (case leadingInt 0 s of
        None \<Rightarrow> Inl (invalid_duration orig)
      | Some (v, s1) \<Rightarrow>
          (let pre = (length s \<noteq> length s1);
               (f, scale, s2) = (if s1 \<noteq> [] \<and> hd s1 = CHR ''.'' then leadingFraction False 0 1 (tl s1) else (0, 1, s1));
               post = (s1 \<noteq> [] \<and> hd s1 = CHR ''.'' \<and> length (tl s1) \<noteq> length s2)
           in if \<not> pre \<and> \<not> post then Inl (invalid_duration orig)
              else (let u = takeWhile unit_char s2; s3 = dropWhile unit_char s2 in
                if u = [] then Inl (ErrNew ''time: missing unit in duration %q'' [FStr orig])
                else (case unitMap u of
                  None \<Rightarrow> Inl (ErrNew ''time: unknown unit %q in duration %q'' [FStr u, FStr orig])
                | Some unit \<Rightarrow>
                    if v > 2 ^ 63 div unit then Inl (invalid_duration orig)
                    else (let v = v * unit + (if f > 0 then frac_part f unit scale else 0) in
                      if v > 2 ^ 63 then Inl (invalid_duration orig) else Inr (v, s3)))))))"

lemma leadingInt_rest: "leadingInt x s = Some (v, r) \<Longrightarrow> length r \<le> length s"
  by (induction x s rule: leadingInt.induct) (auto split: option.splits if_splits)

lemma leadingFraction_rest: "leadingFraction b x sc s = (v, sc', r) \<Longrightarrow> length r \<le> length s"
  by (induction b x sc s rule: leadingFraction.induct) (auto split: option.splits if_splits)

lemma parse_term_rest: "parse_term orig s = Inr (v, r) \<Longrightarrow> length r < length s"
proof -
  assume a: "parse_term orig s = Inr (v, r)"
  obtain v1 s1 where 1: "leadingInt 0 s = Some (v1, s1)"
    using a by (auto simp: parse_term_def split: option.splits if_splits)
  obtain f sc s2 where 2: "(if s1 \<noteq> [] \<and> hd s1 = CHR ''.'' then leadingFraction False 0 1 (tl s1) else (0, 1, s1))
      = (f, sc, s2)" by (metis prod_cases3)
  have 3: "takeWhile unit_char s2 \<noteq> []" "r = dropWhile unit_char s2"
    using a 1 2 by (auto simp: parse_term_def Let_def split: option.splits if_splits)
  have "length s1 \<le> length s" using leadingInt_rest [OF 1] .
  moreover have "length s2 \<le> length s1"
    using 2 leadingFraction_rest [of False 0 1 "tl s1" f sc s2] by (auto split: if_splits)
  moreover have "length r < length s2"
    using 3 takeWhile_dropWhile_id [of unit_char s2] by (metis length_append length_greater_0_conv less_add_same_cancel2)
  ultimately show ?thesis by linarith
qed

text \<open>The loop over the terms; the sum wraps at 64 bits.\<close>

function parse_terms :: "string \<Rightarrow> nat \<Rightarrow> string \<Rightarrow> nat result" where
  "parse_terms orig d s =
     (if s = [] then Inr d
      else (case parse_term orig s of
        Inl e \<Rightarrow> Inl e
      | Inr (v, r) \<Rightarrow>
          (let d = (d + v) mod 2 ^ 64 in
           if d > 2 ^ 63 then Inl (invalid_duration orig) else parse_terms orig d r)))"
  by pat_completeness auto
termination
  by (relation "measure (\<lambda>(orig, d, s). length s)") (auto dest: parse_term_rest)

declare parse_terms.simps [simp del]

definition ParseDuration :: "string \<Rightarrow> int result" where
  "ParseDuration orig =
     (let neg = (orig \<noteq> [] \<and> hd orig = CHR ''-'');
          s = (if orig \<noteq> [] \<and> (hd orig = CHR ''-'' \<or> hd orig = CHR ''+'') then tl orig else orig)
      in if s = ''0'' then Inr 0
         else if s = [] then Inl (invalid_duration orig)
         else (case parse_terms orig 0 s of
           Inl e \<Rightarrow> Inl e
         | Inr d \<Rightarrow>
             if neg then Inr (- int d)
             else if d > 2 ^ 63 - 1 then Inl (invalid_duration orig) else Inr (int d)))"

section \<open>Printing\<close>

fun fmtFrac :: "nat \<Rightarrow> bool \<Rightarrow> string \<Rightarrow> nat \<Rightarrow> string \<times> nat" where
  "fmtFrac 0 print buf v = ((if print then CHR ''.'' # buf else buf), v)"
| "fmtFrac (Suc i) print buf v =
     (let digit = v mod 10; print = (print \<or> digit \<noteq> 0)
      in fmtFrac i print (if print then char_of (48 + digit) # buf else buf) (v div 10))"

definition Duration_String :: "int \<Rightarrow> string" where
  "Duration_String d =
     (let u = nat \<bar>d\<bar>;
          text = (if u < 10 ^ 9
            then (if u = 0 then ''0s''
                  else if u < 10 ^ 3 then (case fmtFrac 0 False ''ns'' u of (buf, u) \<Rightarrow> dec_nat u @ buf)
                  else if u < 10 ^ 6 then (case fmtFrac 3 False [CHR 0xC2, CHR 0xB5, CHR ''s''] u of (buf, u) \<Rightarrow> dec_nat u @ buf)
                  else (case fmtFrac 6 False ''ms'' u of (buf, u) \<Rightarrow> dec_nat u @ buf))
            else (case fmtFrac 9 False ''s'' u of (buf, u) \<Rightarrow>
                   (let buf = dec_nat (u mod 60) @ buf; u = u div 60 in
                    if u > 0
                    then (let buf = dec_nat (u mod 60) @ ''m'' @ buf; u = u div 60 in
                          if u > 0 then dec_nat u @ ''h'' @ buf else buf)
                    else buf)))
      in if d < 0 then CHR ''-'' # text else text)"

section \<open>The round trip\<close>

abbreviation dchar :: "nat \<Rightarrow> char" where
  "dchar d \<equiv> char_of (48 + d)"

definition digits_end :: "string \<Rightarrow> bool" where
  "digits_end s = (s = [] \<or> dig (hd s) = None)"

lemma dig_dchar [simp]: "d < 10 \<Longrightarrow> dig (dchar d) = Some d"
  by (simp add: dig_def Let_def)

lemma leadingInt_digits:
  assumes "\<forall>d\<in>set ds. d < 10" "digits_end r" "x * 10 ^ length ds + radix_val 10 ds \<le> 2 ^ 63"
  shows "leadingInt x (map dchar ds @ r) = Some (x * 10 ^ length ds + radix_val 10 ds, r)"
  using assms
proof (induction ds arbitrary: x)
  case Nil
  then show ?case by (cases r) (auto simp: digits_end_def)
next
  case (Cons d ds)
  have v: "(x * 10 + d) * 10 ^ length ds + radix_val 10 ds = x * 10 ^ length (d # ds) + radix_val 10 (d # ds)"
    by (simp add: radix_val_Cons algebra_simps)
  have "x * 10 + d \<le> (x * 10 + d) * 10 ^ length ds" by simp
  with v Cons.prems(3) have b: "x * 10 + d \<le> 2 ^ 63" by linarith
  then have "\<not> x > 2 ^ 63 div 10" by simp
  with b Cons v show ?case by simp
qed

lemma leadingInt_dec: "n \<le> 2 ^ 63 \<Longrightarrow> digits_end r \<Longrightarrow> leadingInt 0 (dec_nat n @ r) = Some (n, r)"
proof -
  assume n: "n \<le> 2 ^ 63" "digits_end r"
  have "\<forall>d\<in>set (radix 10 n). d < 10" using radix_digits [of 10 _ n] by simp
  from leadingInt_digits [OF this n(2), of 0] n(1) show ?thesis
    by (simp add: dec_nat_def)
qed

lemma leadingFraction_digits:
  assumes "\<forall>d\<in>set ds. d < 10" "digits_end r" "x * 10 ^ length ds + radix_val 10 ds < 2 ^ 63"
  shows "leadingFraction False x sc (map dchar ds @ r) = (x * 10 ^ length ds + radix_val 10 ds, sc * 10 ^ length ds, r)"
  using assms
proof (induction ds arbitrary: x sc)
  case Nil
  then show ?case by (cases r) (auto simp: digits_end_def)
next
  case (Cons d ds)
  have v: "(x * 10 + d) * 10 ^ length ds + radix_val 10 ds = x * 10 ^ length (d # ds) + radix_val 10 (d # ds)"
    by (simp add: radix_val_Cons algebra_simps)
  have "x * 10 + d \<le> (x * 10 + d) * 10 ^ length ds" by simp
  with v Cons.prems(3) have b: "x * 10 + d < 2 ^ 63" by linarith
  then have "\<not> x > (2 ^ 63 - 1) div 10" by simp
  with b Cons v show ?case by (simp add: mult.assoc)
qed

text \<open>The digits of a fraction, at fixed width and without the zeros at the end.\<close>

fun fixed :: "nat \<Rightarrow> nat \<Rightarrow> nat list" where
  "fixed 0 v = []"
| "fixed (Suc i) v = fixed i (v div 10) @ [v mod 10]"

lemma fixed_facts: "length (fixed i v) = i" "d \<in> set (fixed i v) \<Longrightarrow> d < 10" "radix_val 10 (fixed i v) = v mod 10 ^ i"
proof (induction i arbitrary: v)
  case (Suc i)
  {
    case 1
    then show ?case using Suc by simp
  next
    case 2
    then show ?case using Suc by auto
  next
    case 3
    then show ?case using Suc by (simp add: mod_mult2_eq)
  }
qed simp_all

lemma fmtFrac_print: "fmtFrac i True buf v = (CHR ''.'' # map dchar (fixed i v) @ buf, v div 10 ^ i)"
  by (induction i arbitrary: buf v) (simp_all add: Let_def div_mult2_eq)

definition is_fraction :: "nat \<Rightarrow> nat \<Rightarrow> string \<Rightarrow> bool" where
  "is_fraction i m fr \<longleftrightarrow> m = 0 \<and> fr = [] \<or>
     (\<exists>ds. fr = CHR ''.'' # map dchar ds \<and> ds \<noteq> [] \<and> (\<forall>d\<in>set ds. d < 10) \<and> length ds \<le> i \<and>
        radix_val 10 ds * 10 ^ (i - length ds) = m)"

lemma fmtFrac_fraction: "\<exists>fr. fmtFrac i False buf v = (fr @ buf, v div 10 ^ i) \<and> is_fraction i (v mod 10 ^ i) fr"
proof (induction i arbitrary: v)
  case 0
  then show ?case by (simp add: is_fraction_def)
next
  case (Suc i)
  have m: "v mod 10 ^ Suc i = 10 * (v div 10 mod 10 ^ i) + v mod 10" by (simp add: mod_mult2_eq)
  show ?case
  proof (cases "v mod 10 = 0")
    case True
    obtain fr where fr: "fmtFrac i False buf (v div 10) = (fr @ buf, v div 10 div 10 ^ i)"
      "is_fraction i (v div 10 mod 10 ^ i) fr" using Suc by blast
    have "is_fraction (Suc i) (v mod 10 ^ Suc i) fr"
      using fr(2) True m unfolding is_fraction_def by (auto simp: Suc_diff_le)
    with fr(1) True show ?thesis by (auto simp: div_mult2_eq)
  next
    case False
    have "fmtFrac (Suc i) False buf v = ((CHR ''.'' # map dchar (fixed (Suc i) v)) @ buf, v div 10 ^ Suc i)"
      using False by (simp add: Let_def fmtFrac_print div_mult2_eq)
    moreover have "is_fraction (Suc i) (v mod 10 ^ Suc i) (CHR ''.'' # map dchar (fixed (Suc i) v))"
      unfolding is_fraction_def
    proof (intro disjI2 exI [of _ "fixed (Suc i) v"] conjI)
      show "fixed (Suc i) v \<noteq> []" by simp
      show "\<forall>d\<in>set (fixed (Suc i) v). d < 10" using fixed_facts(2) by blast
      show "length (fixed (Suc i) v) \<le> Suc i"
        "radix_val 10 (fixed (Suc i) v) * 10 ^ (Suc i - length (fixed (Suc i) v)) = v mod 10 ^ Suc i"
        by (simp_all only: fixed_facts(1,3) diff_self_eq_0 power_0 mult_1_right order_refl)
    qed (rule refl)
    ultimately show ?thesis by blast
  qed
qed

lemma radix_val_small: "\<forall>d\<in>set ds. d < 10 \<Longrightarrow> length ds \<le> 9 \<Longrightarrow> radix_val 10 ds < 10 ^ 9"
  using radix_val_less [of ds 10] power_increasing [of "length ds" 9 "10 :: nat"] by linarith

lemma dec_nat_head: "\<exists>c cs. dec_nat n = c # cs \<and> dig c \<noteq> None"
proof -
  obtain d ds where d: "radix 10 n = d # ds" using radix_nonempty [of 10 n] by (cases "radix 10 n") auto
  then have "d < 10" using radix_digits [of 10 d n] by simp
  with d show ?thesis by (simp add: dec_nat_def)
qed

text \<open>A number, its fraction and its unit are read back.\<close>

lemma parse_term_printed:
  assumes "is_fraction i m fr" "i \<le> 9" and "unitMap u = Some unit" "n * unit + m \<le> 2 ^ 63" "i = 0 \<or> unit = 10 ^ i" "0 < unit"
    and "u \<noteq> []" "\<forall>c\<in>set u. unit_char c" "r = [] \<or> \<not> unit_char (hd r)"
  shows "parse_term orig (dec_nat n @ fr @ u @ r) = Inr (n * unit + m, r)"
proof -
  let ?s = "dec_nat n @ fr @ u @ r"
  have n: "n \<le> 2 ^ 63 div unit" using assms(4,6) by (simp add: less_eq_div_iff_mult_less_eq)
  then have n63: "n \<le> 2 ^ 63" by (meson div_le_dividend le_trans)
  have hd: "dig (hd ?s) \<noteq> None" using dec_nat_head [of n] by auto
  have ur: "digits_end (u @ r)" "hd (u @ r) \<noteq> CHR ''.''" using assms(7,8) by (cases u; auto simp: digits_end_def unit_char_def)+
  have tk: "takeWhile unit_char (u @ r) = u" "dropWhile unit_char (u @ r) = r"
    using assms(8,9) by (cases r; simp add: takeWhile_append dropWhile_append)+
  have len: "length ?s \<noteq> length (fr @ u @ r)" using dec_nat_head [of n] by auto
  show ?thesis
  proof (cases "fr = []")
    case True
    then have m: "m = 0" using assms(1) by (auto simp: is_fraction_def)
    have 1: "leadingInt 0 ?s = Some (n, u @ r)"
      using True leadingInt_dec [OF n63, of "u @ r"] ur(1) by simp
    show ?thesis
      using True m 1 hd len ur(2) tk assms(3,4,7) n by (simp add: parse_term_def Let_def)
  next
    case False
    then obtain ds where ds: "fr = CHR ''.'' # map dchar ds" "ds \<noteq> []" "\<forall>d\<in>set ds. d < 10" "length ds \<le> i"
      "radix_val 10 ds * 10 ^ (i - length ds) = m" using assms(1) by (auto simp: is_fraction_def)
    then have i: "unit = 10 ^ (i - length ds) * 10 ^ length ds"
      using assms(5) by (auto simp flip: power_add)
    have small: "radix_val 10 ds < 10 ^ 9" using radix_val_small ds assms(2) by simp
    have 1: "leadingInt 0 ?s = Some (n, CHR ''.'' # map dchar ds @ u @ r)"
      using ds(1) leadingInt_dec [OF n63, of "CHR ''.'' # map dchar ds @ u @ r"]
      by (simp add: digits_end_def dig_def)
    have 2: "leadingFraction False 0 1 (map dchar ds @ u @ r) = (radix_val 10 ds, 10 ^ length ds, u @ r)"
      using leadingFraction_digits [OF ds(3) ur(1), of 0 1] small by simp
    have "radix_val 10 ds * 10 ^ (i - length ds) < 10 ^ i"
    proof -
      have "radix_val 10 ds < 10 ^ length ds" using radix_val_less ds(3) by simp
      then have "radix_val 10 ds * 10 ^ (i - length ds) < 10 ^ length ds * 10 ^ (i - length ds)" by simp
      then show ?thesis using ds(4) by (simp flip: power_add)
    qed
    also have "(10 :: nat) ^ i \<le> 10 ^ 9" using assms(2) by (rule power_increasing) simp
    finally have f: "frac_part (radix_val 10 ds) unit (10 ^ length ds) = m"
      unfolding i using frac_part_exact [of "10 ^ length ds" "radix_val 10 ds" "10 ^ (i - length ds)"] ds(5) by simp
    have z: "radix_val 10 ds = 0 \<Longrightarrow> m = 0" using ds(5) by simp
    have "parse_term orig ?s = Inr (n * unit + (if radix_val 10 ds > 0 then m else 0), r)"
      using ds(1,2) 1 2 hd len tk assms(3,4,7) n z f by (simp add: parse_term_def Let_def)
    then show ?thesis using z by (cases "radix_val 10 ds = 0") simp_all
  qed
qed

lemma parse_terms_printed:
  assumes "is_fraction i m fr" "i \<le> 9" "unitMap u = Some unit" "i = 0 \<or> unit = 10 ^ i" "0 < unit"
    and "u \<noteq> []" "\<forall>c\<in>set u. unit_char c" "r = [] \<or> \<not> unit_char (hd r)" "d + (n * unit + m) \<le> 2 ^ 63"
  shows "parse_terms orig d (dec_nat n @ fr @ u @ r) = parse_terms orig (d + (n * unit + m)) r"
proof -
  have "parse_term orig (dec_nat n @ fr @ u @ r) = Inr (n * unit + m, r)"
    using parse_term_printed [OF assms(1-3) _ assms(4-8)] assms(9) by simp
  moreover have "dec_nat n @ fr @ u @ r \<noteq> []" using dec_nat_head [of n] by auto
  moreover have "(d + (n * unit + m)) mod 2 ^ 64 = d + (n * unit + m)" using assms(9) by simp
  ultimately show ?thesis using assms(6,9) by (subst parse_terms.simps) (simp add: Let_def)
qed

lemma parse_terms_Nil [simp]: "parse_terms orig d [] = Inr d"
  by (simp add: parse_terms.simps)

lemma units:
  "unitMap ''ns'' = Some 1" "unitMap [CHR 0xC2, CHR 0xB5, CHR ''s''] = Some (10 ^ 3)" "unitMap ''ms'' = Some (10 ^ 6)"
  "unitMap ''s'' = Some (10 ^ 9)" "unitMap ''m'' = Some (60 * 10 ^ 9)" "unitMap ''h'' = Some (3600 * 10 ^ 9)"
  by (simp_all add: unitMap_def)

lemma unit_chars:
  "unit_char CHR ''n''" "unit_char CHR ''s''" "unit_char CHR ''m''" "unit_char CHR ''h''" "unit_char CHR 0xC2"
  "unit_char CHR 0xB5" "\<not> unit_char (hd (dec_nat n @ s))"
  using dec_nat_head [of n] by (auto simp: unit_char_def dig_def)

lemma no_fraction: "is_fraction 0 0 []"
  by (simp add: is_fraction_def)

text \<open>The text of a magnitude, as the printer writes it.\<close>

definition magnitude_text :: "nat \<Rightarrow> string" where
  "magnitude_text u =
     (if u < 10 ^ 9
      then (if u = 0 then ''0s''
            else if u < 10 ^ 3 then (case fmtFrac 0 False ''ns'' u of (buf, u) \<Rightarrow> dec_nat u @ buf)
            else if u < 10 ^ 6 then (case fmtFrac 3 False [CHR 0xC2, CHR 0xB5, CHR ''s''] u of (buf, u) \<Rightarrow> dec_nat u @ buf)
            else (case fmtFrac 6 False ''ms'' u of (buf, u) \<Rightarrow> dec_nat u @ buf))
      else (case fmtFrac 9 False ''s'' u of (buf, u) \<Rightarrow>
             (let buf = dec_nat (u mod 60) @ buf; u = u div 60 in
              if u > 0
              then (let buf = dec_nat (u mod 60) @ ''m'' @ buf; u = u div 60 in
                    if u > 0 then dec_nat u @ ''h'' @ buf else buf)
              else buf)))"

lemma Duration_String_text:
  "Duration_String d = (if d < 0 then CHR ''-'' # magnitude_text (nat \<bar>d\<bar>) else magnitude_text (nat \<bar>d\<bar>))"
  by (simp add: Duration_String_def magnitude_text_def Let_def)

lemma parse_unit_printed:
  assumes "unitMap b = Some (10 ^ i)" "i \<le> 9" "b \<noteq> []" "\<forall>c\<in>set b. unit_char c" "u \<le> 2 ^ 63"
  shows "parse_terms orig 0 (case fmtFrac i False b u of (buf, u) \<Rightarrow> dec_nat u @ buf) = Inr u"
proof -
  obtain fr where fr: "fmtFrac i False b u = (fr @ b, u div 10 ^ i)" "is_fraction i (u mod 10 ^ i) fr"
    using fmtFrac_fraction by blast
  have e: "0 + (u div 10 ^ i * 10 ^ i + u mod 10 ^ i) = u" by (simp only: div_mult_mod_eq add_0)
  have "parse_terms orig 0 (dec_nat (u div 10 ^ i) @ fr @ b @ []) = parse_terms orig (0 + (u div 10 ^ i * 10 ^ i + u mod 10 ^ i)) []"
    by (rule parse_terms_printed [OF fr(2) assms(2,1) _ _ assms(3,4)]) (unfold e, use assms(5) in simp_all)
  with fr(1) show ?thesis unfolding e by simp
qed

lemma hms: "n = 3600 * (n div 60 div 60) + 60 * (n div 60 mod 60) + n mod 60" for n :: nat
proof -
  have "n = n div 60 * 60 + n mod 60" "n div 60 = n div 60 div 60 * 60 + n div 60 mod 60" by simp_all
  then show ?thesis by linarith
qed

lemma hms_scaled: "s = 3600 * a + 60 * b + c \<Longrightarrow> s * k = a * (3600 * k) + b * (60 * k) + c * k" for s :: nat
  by (simp add: algebra_simps)

text \<open>From a second on: hours, minutes and seconds with a fraction.\<close>

lemma parse_seconds:
  assumes "is_fraction 9 f fr" "d + (s * 10 ^ 9 + f) \<le> 2 ^ 63"
  shows "parse_terms orig d (dec_nat s @ fr @ ''s'' @ []) = Inr (d + (s * 10 ^ 9 + f))"
  by (subst parse_terms_printed [OF assms(1) _ units(4)]) (use assms(2) in \<open>simp_all add: unit_chars\<close>)

lemma parse_minutes:
  assumes "is_fraction 9 f fr" "d + m * (60 * 10 ^ 9) + (s * 10 ^ 9 + f) \<le> 2 ^ 63"
  shows "parse_terms orig d (dec_nat m @ [] @ ''m'' @ dec_nat s @ fr @ ''s'' @ []) =
    Inr (d + m * (60 * 10 ^ 9) + (s * 10 ^ 9 + f))"
proof -
  have "parse_terms orig d (dec_nat m @ [] @ ''m'' @ dec_nat s @ fr @ ''s'' @ []) =
      parse_terms orig (d + (m * (60 * 10 ^ 9) + 0)) (dec_nat s @ fr @ ''s'' @ [])"
    by (rule parse_terms_printed [OF no_fraction _ units(5)]) (use assms(2) in \<open>simp_all add: unit_chars\<close>)
  then show ?thesis using parse_seconds [OF assms] by simp
qed

lemma parse_hours:
  assumes "is_fraction 9 f fr" "h * (3600 * 10 ^ 9) + m * (60 * 10 ^ 9) + (s * 10 ^ 9 + f) \<le> 2 ^ 63"
  shows "parse_terms orig 0 (dec_nat h @ [] @ ''h'' @ dec_nat m @ [] @ ''m'' @ dec_nat s @ fr @ ''s'' @ []) =
    Inr (h * (3600 * 10 ^ 9) + m * (60 * 10 ^ 9) + (s * 10 ^ 9 + f))"
proof -
  have "parse_terms orig 0 (dec_nat h @ [] @ ''h'' @ dec_nat m @ [] @ ''m'' @ dec_nat s @ fr @ ''s'' @ []) =
      parse_terms orig (0 + (h * (3600 * 10 ^ 9) + 0)) (dec_nat m @ [] @ ''m'' @ dec_nat s @ fr @ ''s'' @ [])"
    by (rule parse_terms_printed [OF no_fraction _ units(6)]) (use assms(2) in \<open>simp_all add: unit_chars\<close>)
  then show ?thesis using parse_minutes [OF assms] by simp
qed

lemma parse_long_magnitude:
  assumes "10 ^ 9 \<le> u" "u \<le> 2 ^ 63"
  shows "parse_terms orig 0 (magnitude_text u) = Inr u"
proof -
  define s where "s = u div 10 ^ 9"
  define h m r where "h = s div 60 div 60" and "m = s div 60 mod 60" and "r = s mod 60"
  obtain fr where fr: "fmtFrac 9 False ''s'' u = (fr @ ''s'', s)" "is_fraction 9 (u mod 10 ^ 9) fr"
    using fmtFrac_fraction s_def by blast
  have "u = s * 10 ^ 9 + u mod 10 ^ 9" by (simp add: s_def)
  also have "s * 10 ^ 9 = h * (3600 * 10 ^ 9) + m * (60 * 10 ^ 9) + r * 10 ^ 9"
    unfolding h_def m_def r_def by (rule hms_scaled [OF hms])
  finally have u: "u = h * (3600 * 10 ^ 9) + m * (60 * 10 ^ 9) + (r * 10 ^ 9 + u mod 10 ^ 9)" by (simp only: add.assoc)
  then have le: "h * (3600 * 10 ^ 9) + m * (60 * 10 ^ 9) + (r * 10 ^ 9 + u mod 10 ^ 9) \<le> 2 ^ 63" using assms(2) by (metis (no_types))
  have shown: "magnitude_text u = (if 0 < s div 60
      then if 0 < h then dec_nat h @ [] @ ''h'' @ dec_nat m @ [] @ ''m'' @ dec_nat r @ fr @ ''s'' @ []
           else dec_nat m @ [] @ ''m'' @ dec_nat r @ fr @ ''s'' @ []
      else dec_nat r @ fr @ ''s'' @ [])"
    using assms(1) fr(1) unfolding h_def m_def r_def by (simp add: magnitude_text_def Let_def del: fmtFrac.simps)
  consider "0 < s div 60" "0 < h" | "0 < s div 60" "h = 0" | "s div 60 = 0" by blast
  then show ?thesis
  proof cases
    case 1
    then show ?thesis using shown parse_hours [OF fr(2) le] u by (metis (no_types))
  next
    case 2
    have "parse_terms orig 0 (dec_nat m @ [] @ ''m'' @ dec_nat r @ fr @ ''s'' @ []) = Inr (0 + m * (60 * 10 ^ 9) + (r * 10 ^ 9 + u mod 10 ^ 9))"
      by (rule parse_minutes [OF fr(2)]) (use le 2 in simp)
    then show ?thesis using shown 2 u by (metis (no_types) add_0 less_irrefl mult_0)
  next
    case 3
    then have z: "h = 0" "m = 0" by (simp_all add: h_def m_def)
    have "parse_terms orig 0 (dec_nat r @ fr @ ''s'' @ []) = Inr (0 + (r * 10 ^ 9 + u mod 10 ^ 9))"
      by (rule parse_seconds [OF fr(2)]) (use le z in simp)
    then show ?thesis using shown 3 z u by (metis (no_types) add_0 less_irrefl mult_0)
  qed
qed

lemma parse_magnitude:
  assumes "u \<le> 2 ^ 63"
  shows "parse_terms orig 0 (magnitude_text u) = Inr u"
proof -
  consider "u = 0" | "0 < u" "u < 10 ^ 3" | "10 ^ 3 \<le> u" "u < 10 ^ 6" | "10 ^ 6 \<le> u" "u < 10 ^ 9" | "10 ^ 9 \<le> u"
    by linarith
  then show ?thesis
  proof cases
    case 1
    have "parse_terms orig 0 (dec_nat 0 @ [] @ ''s'' @ []) = parse_terms orig (0 + (0 * 10 ^ 9 + 0)) []"
      by (rule parse_terms_printed [OF no_fraction _ units(4)]) (simp_all add: unit_chars)
    moreover have "dec_nat 0 = ''0''" by code_simp
    ultimately show ?thesis using 1 by (simp add: magnitude_text_def)
  next
    case 2
    then show ?thesis using parse_unit_printed [of "''ns''" 0 u] assms
      by (simp add: magnitude_text_def units unit_chars)
  next
    case 3
    then show ?thesis using parse_unit_printed [of "[CHR 0xC2, CHR 0xB5, CHR ''s'']" 3 u] assms
      by (simp add: magnitude_text_def units unit_chars del: fmtFrac.simps)
  next
    case 4
    then show ?thesis using parse_unit_printed [of "''ms''" 6 u] assms
      by (simp add: magnitude_text_def units unit_chars del: fmtFrac.simps)
  next
    case 5
    then show ?thesis using parse_long_magnitude assms by blast
  qed
qed

text \<open>Such a text starts with a digit and ends in \<open>s\<close>.\<close>

definition number_text :: "string \<Rightarrow> bool" where
  "number_text t = (t \<noteq> [] \<and> dig (hd t) \<noteq> None \<and> last t = CHR ''s'')"

lemma number_text_if: "number_text x \<Longrightarrow> number_text y \<Longrightarrow> number_text (if b then x else y)"
  by simp

lemma number_text_dec: "t \<noteq> [] \<Longrightarrow> last t = CHR ''s'' \<Longrightarrow> number_text (dec_nat n @ t)"
  using dec_nat_head [of n] by (auto simp: number_text_def)

lemma magnitude_shape: "number_text (magnitude_text u)"
proof -
  have tail: "\<exists>fr v. fmtFrac i False b u = (fr @ b, v)" for i b using fmtFrac_fraction by blast
  obtain f0 v0 where f0: "fmtFrac 0 False ''ns'' u = (f0 @ ''ns'', v0)" using tail by blast
  obtain f3 v3 where f3: "fmtFrac 3 False [CHR 0xC2, CHR 0xB5, CHR ''s''] u = (f3 @ [CHR 0xC2, CHR 0xB5, CHR ''s''], v3)"
    using tail by blast
  obtain f6 v6 where f6: "fmtFrac 6 False ''ms'' u = (f6 @ ''ms'', v6)" using tail by blast
  obtain f9 v9 where f9: "fmtFrac 9 False ''s'' u = (f9 @ ''s'', v9)" using tail by blast
  note f = f0 f3 f6 f9
  have "number_text ''0s''" by (simp add: number_text_def dig_def)
  then show ?thesis
    unfolding magnitude_text_def f prod.case Let_def
    by (intro number_text_if number_text_dec) simp_all
qed

text \<open>Printing a duration and parsing the text gives the duration back.\<close>

lemma ParseDuration_String:
  assumes "- (2 ^ 63) \<le> d" "d < 2 ^ 63"
  shows "ParseDuration (Duration_String d) = Inr d"
proof -
  let ?u = "nat \<bar>d\<bar>"
  have u: "?u \<le> 2 ^ 63" using assms by (simp add: nat_le_iff abs_le_iff)
  have no: "dig CHR ''-'' = None" "dig CHR ''+'' = None" by (simp_all add: dig_def)
  obtain c cs where c: "magnitude_text ?u = c # cs" "dig c \<noteq> None" "last (c # cs) = CHR ''s''"
    using magnitude_shape [of ?u] by (cases "magnitude_text ?u") (auto simp: number_text_def)
  then have m: "magnitude_text ?u = c # cs" "c \<noteq> CHR ''-''" "c \<noteq> CHR ''+''" "c # cs \<noteq> ''0''"
    using no by auto
  have p: "parse_terms orig 0 (magnitude_text ?u) = Inr ?u" for orig by (rule parse_magnitude [OF u])
  show ?thesis
  proof (cases "d < 0")
    case True
    then show ?thesis using m p by (simp add: ParseDuration_def Duration_String_text Let_def)
  next
    case False
    then have "nat d < 2 ^ 63" using assms(2) by (simp add: nat_less_iff)
    then have "\<not> nat d > 2 ^ 63 - 1" by simp
    with False m p show ?thesis by (auto simp: ParseDuration_def Duration_String_text Let_def)
  qed
qed

end
