(* ===== verification/Go_UTF8.thy ===== *)
theory Go_UTF8
  imports Prelude
begin

text \<open>
  Go's view of a string as runes: the decoder behind \<open>for _, r := range s\<close>, the encoder behind
  \<open>WriteRune\<close>, and the folding of letters that \<open>encoding/json\<close> matches field names with.
\<close>

section \<open>Runes\<close>

text \<open>
  \<open>for _, r := range s\<close> decodes UTF-8; a byte that starts no valid sequence is the replacement
  character U+FFFD and takes one byte. \<open>WriteRune\<close> encodes.
\<close>

definition byte_code :: "char \<Rightarrow> nat" where
  "byte_code c = of_char c"

definition utf8_cont :: "nat \<Rightarrow> bool" where
  "utf8_cont b = (0x80 \<le> b \<and> b \<le> 0xBF)"

definition rune_error :: nat where
  "rune_error = 0xFFFD"

text \<open>The rune at the head of the bytes, and its size.\<close>

fun decode_rune :: "nat list \<Rightarrow> nat \<times> nat" where
  "decode_rune [] = (rune_error, 0)"
| "decode_rune (a # r) =
     (if a < 0x80 then (a, 1)
      else if 0xC2 \<le> a \<and> a \<le> 0xDF then
        (case r of
           b # _ \<Rightarrow> if utf8_cont b then ((a - 0xC0) * 64 + (b - 0x80), 2) else (rune_error, 1)
         | _ \<Rightarrow> (rune_error, 1))
      else if 0xE0 \<le> a \<and> a \<le> 0xEF then
        (case r of
           b # c # _ \<Rightarrow>
             if (if a = 0xE0 then 0xA0 else 0x80) \<le> b \<and> b \<le> (if a = 0xED then 0x9F else 0xBF) \<and> utf8_cont c
             then ((a - 0xE0) * 4096 + (b - 0x80) * 64 + (c - 0x80), 3) else (rune_error, 1)
         | _ \<Rightarrow> (rune_error, 1))
      else if 0xF0 \<le> a \<and> a \<le> 0xF4 then
        (case r of
           b # c # d # _ \<Rightarrow>
             if (if a = 0xF0 then 0x90 else 0x80) \<le> b \<and> b \<le> (if a = 0xF4 then 0x8F else 0xBF) \<and>
                utf8_cont c \<and> utf8_cont d
             then ((a - 0xF0) * 262144 + (b - 0x80) * 4096 + (c - 0x80) * 64 + (d - 0x80), 4)
             else (rune_error, 1)
         | _ \<Rightarrow> (rune_error, 1))
      else (rune_error, 1))"

declare decode_rune.simps(2) [simp del]

lemma decode_rune_size: "s \<noteq> [] \<Longrightarrow> 0 < snd (decode_rune s)"
  by (cases s) (auto simp: decode_rune.simps(2) split: list.splits)

function go_runes :: "string \<Rightarrow> nat list" where
  "go_runes s =
     (if s = [] then []
      else (case decode_rune (map byte_code s) of (r, n) \<Rightarrow> r # go_runes (drop n s)))"
  by pat_completeness auto
termination
proof (relation "measure length")
  show "wf (measure length)" by simp
next
  fix s :: string and r n
  assume "s \<noteq> []" "(r, n) = decode_rune (map byte_code s)"
  then have "0 < n" using decode_rune_size [of "map byte_code s"] by (metis snd_conv map_is_Nil_conv)
  with \<open>s \<noteq> []\<close> show "(drop n s, s) \<in> measure length" by simp
qed

declare go_runes.simps [simp del]

definition encode_rune :: "nat \<Rightarrow> string" where
  "encode_rune r =
     map char_of
       (if r < 0x80 then [r]
        else if r < 0x800 then [0xC0 + r div 64, 0x80 + r mod 64]
        else if r < 0x10000 then [0xE0 + r div 4096, 0x80 + r div 64 mod 64, 0x80 + r mod 64]
        else [0xF0 + r div 262144, 0x80 + r div 4096 mod 64, 0x80 + r div 64 mod 64, 0x80 + r mod 64])"

text \<open>The four forms of a valid sequence.\<close>

lemma decode_rune_cases:
  assumes "decode_rune xs = (r, n)" "xs \<noteq> []" "\<not> (r = rune_error \<and> n = 1)"
  obtains (one) a t where "xs = a # t" "a < 128" "r = a" "n = 1"
    | (two) x y t where "xs = (192 + x) # (128 + y) # t" "2 \<le> x" "x < 32" "y < 64" "r = x * 64 + y" "n = 2"
    | (three) x y z t where "xs = (224 + x) # (128 + y) # (128 + z) # t" "x < 16" "y < 64" "z < 64"
        "x = 0 \<longrightarrow> 32 \<le> y" "x = 13 \<longrightarrow> y < 32" "r = x * 4096 + y * 64 + z" "n = 3"
    | (four) x y z u t where "xs = (240 + x) # (128 + y) # (128 + z) # (128 + u) # t" "x \<le> 4" "y < 64" "z < 64" "u < 64"
        "x = 0 \<longrightarrow> 16 \<le> y" "x = 4 \<longrightarrow> y < 16" "r = x * 262144 + y * 4096 + z * 64 + u" "n = 4"
proof -
  obtain a t where xs: "xs = a # t" using assms(2) by (cases xs) auto
  have cont: "\<exists>y. b = 128 + y \<and> y < 64" if "128 \<le> b" "b \<le> 191" for b :: nat
    using that by (intro exI [of _ "b - 128"]) simp
  consider "a < 128" | "192 + 2 \<le> a" "a < 192 + 32" | "224 \<le> a" "a < 224 + 16" | "240 \<le> a" "a \<le> 240 + 4"
    using assms xs by (auto simp: decode_rune.simps(2) split: if_splits)
  then show thesis
  proof cases
    case 1
    then show ?thesis using assms xs one by (auto simp: decode_rune.simps(2))
  next
    case 2
    then obtain b t' where b: "t = b # t'" "128 \<le> b" "b \<le> 191" "r = (a - 192) * 64 + (b - 128)" "n = 2"
      using assms xs by (auto simp: decode_rune.simps(2) utf8_cont_def split: list.splits if_splits)
    then show ?thesis using two [of "a - 192" "b - 128" t'] xs 2 by simp
  next
    case 3
    then obtain b c t' where b: "t = b # c # t'" "utf8_cont c" "r = (a - 224) * 4096 + (b - 128) * 64 + (c - 128)" "n = 3"
      "(if a = 0xE0 then 0xA0 else 0x80) \<le> b" "b \<le> (if a = 0xED then 0x9F else 0xBF)"
      using assms xs by (auto simp: decode_rune.simps(2) split: list.splits if_splits)
    then show ?thesis using three [of "a - 224" "b - 128" "c - 128" t'] xs 3
      by (auto simp: utf8_cont_def split: if_splits)
  next
    case 4
    then obtain b c d t' where b: "t = b # c # d # t'" "utf8_cont c" "utf8_cont d"
      "r = (a - 240) * 262144 + (b - 128) * 4096 + (c - 128) * 64 + (d - 128)" "n = 4"
      "(if a = 0xF0 then 0x90 else 0x80) \<le> b" "b \<le> (if a = 0xF4 then 0x8F else 0xBF)"
      using assms xs by (auto simp: decode_rune.simps(2) split: list.splits if_splits)
    then show ?thesis using four [of "a - 240" "b - 128" "c - 128" "d - 128" t'] xs 4
      by (auto simp: utf8_cont_def split: if_splits)
  qed
qed

text \<open>Encoding a decoded rune gives the bytes back, and only these bytes matter.\<close>

lemma six_bits: "z < 64 \<Longrightarrow> (q * 64 + z) div 64 = q" "z < 64 \<Longrightarrow> (q * 64 + z) mod 64 = z" for q z :: nat
  by simp_all

lemma encode_decode_rune:
  assumes "decode_rune xs = (r, n)" "xs \<noteq> []" "\<not> (r = rune_error \<and> n = 1)"
  shows "encode_rune r = map char_of (take n xs) \<and> n \<le> length xs \<and> decode_rune (take n xs @ ys) = (r, n) \<and>
     r \<le> 0x10FFFF \<and> \<not> (0xD800 \<le> r \<and> r < 0xE000) \<and> (n = 1 \<longleftrightarrow> r < 0x80)"
  using assms
proof (cases rule: decode_rune_cases)
  case (one a t)
  then show ?thesis by (simp add: encode_rune_def decode_rune.simps(2))
next
  case (two x y t)
  then have "(x * 64 + y) div 64 = x" "(x * 64 + y) mod 64 = y" by simp_all
  with two show ?thesis by (simp add: encode_rune_def decode_rune.simps(2) utf8_cont_def)
next
  case (three x y z t)
  then have h: "r = (x * 64 + y) * 64 + z" by simp
  have d: "r div 64 = x * 64 + y" "r mod 64 = z" unfolding h using three(4) by (rule six_bits)+
  have "r div 4096 = r div 64 div 64" by (simp flip: div_mult2_eq)
  with three(3) d have "r div 4096 = x" "r div 64 mod 64 = y" by simp_all
  with d(2) three show ?thesis by (auto simp: encode_rune_def decode_rune.simps(2) utf8_cont_def)
next
  case (four x y z u t)
  then have h: "r = ((x * 64 + y) * 64 + z) * 64 + u" by simp
  have d: "r div 64 = (x * 64 + y) * 64 + z" "r mod 64 = u" unfolding h using four(5) by (rule six_bits)+
  have e: "r div 64 div 64 = x * 64 + y" "r div 64 mod 64 = z" unfolding d using four(4) by (rule six_bits)+
  have "r div 4096 = r div 64 div 64" "r div 262144 = r div 64 div 64 div 64" by (simp_all flip: div_mult2_eq)
  with four(3) e have "r div 262144 = x" "r div 4096 mod 64 = y" "r div 64 mod 64 = z" by simp_all
  moreover have b: "0x10000 \<le> r" "r \<le> 0x10FFFF"
    using four(2-8) by (cases "x = 0"; cases "x = 4"; simp)+
  ultimately have "encode_rune r = map char_of [240 + x, 128 + y, 128 + z, 128 + u]"
    using d(2) by (simp add: encode_rune_def)
  moreover have "decode_rune ((240 + x) # (128 + y) # (128 + z) # (128 + u) # ys) = (r, 4)"
    using four(2-8) by (cases "x = 0"; cases "x = 4"; simp add: decode_rune.simps(2) utf8_cont_def)
  ultimately show ?thesis using b four(1,9) by simp
qed

section \<open>Folding\<close>

text \<open>
  \<open>foldName\<close> of \<open>encoding/json\<close>, for comparison with a name in ASCII: the only runes outside ASCII that fold
  to a letter are the long s (U+017F) and the Kelvin sign (U+212A).
\<close>

definition fold_rune :: "nat \<Rightarrow> nat" where
  "fold_rune r =
     (if 97 \<le> r \<and> r \<le> 122 then r - 32 else if r = 0x17F then 83 else if r = 0x212A then 75 else r)"

definition fold_name :: "string \<Rightarrow> nat list" where
  "fold_name s = map fold_rune (go_runes s)"

end
