(* ===== verification/Go_JSON.thy ===== *)
theory Go_JSON
  imports Go_UTF8 Go_Text
begin

text \<open>
  What the program uses of \<open>encoding/json\<close>: the decoding of a parsed document into Go values, with its
  rules for missing and unknown fields, \<open>null\<close>, letter case, repeated fields and values of the wrong type.
\<close>

section \<open>Documents\<close>

text \<open>A number is kept as its text.\<close>

datatype json =
    JNull
  | JBool bool
  | JNumber string
  | JString string
  | JArray "json list"
  | JObject "(string \<times> json) list"

section \<open>Decoding\<close>

text \<open>
  A decoder takes the value that is there and returns the new one. A value of the wrong type leaves the
  old one, and the first such error is saved and returned at the end; the error of an \<open>UnmarshalJSON\<close>
  method ends the decoding.
\<close>

type_synonym 'a decoder = "json \<Rightarrow> go_error option \<times> 'a \<Rightarrow> (go_error option \<times> 'a) result"

definition type_error :: "string \<Rightarrow> go_error option \<times> 'a \<Rightarrow> (go_error option \<times> 'a) result" where
  "type_error t s =
     Inr (case s of
            (None, x) \<Rightarrow> (Some (ErrNew ''json: cannot unmarshal into Go value of type %s'' [FStr t]), x)
          | (Some e, x) \<Rightarrow> (Some e, x))"

definition decode_string :: "string decoder" where
  "decode_string j s =
     (case j of JNull \<Rightarrow> Inr s | JString t \<Rightarrow> Inr (fst s, t) | _ \<Rightarrow> type_error ''string'' s)"

definition decode_bool :: "bool decoder" where
  "decode_bool j s =
     (case j of JNull \<Rightarrow> Inr s | JBool b \<Rightarrow> Inr (fst s, b) | _ \<Rightarrow> type_error ''bool'' s)"

text \<open>A number must be an integer of 64 bits; \<open>Atoi\<close> is \<open>ParseInt\<close> on the texts of JSON numbers.\<close>

definition decode_int :: "int decoder" where
  "decode_int j s =
     (case j of
        JNull \<Rightarrow> Inr s
      | JNumber t \<Rightarrow> (case Atoi t of Inl e \<Rightarrow> type_error ''int'' s | Inr n \<Rightarrow> Inr (fst s, n))
      | _ \<Rightarrow> type_error ''int'' s)"

definition decode_ptr :: "'a \<Rightarrow> 'a decoder \<Rightarrow> 'a option decoder" where
  "decode_ptr zero dec j s =
     (case j of
        JNull \<Rightarrow> Inr (fst s, None)
      | _ \<Rightarrow> rmap (\<lambda>(e, x). (e, Some x)) (dec j (fst s, case snd s of None \<Rightarrow> zero | Some x \<Rightarrow> x)))"

text \<open>The elements are decoded over those of the slice that is there.\<close>

fun decode_elems :: "'a \<Rightarrow> 'a decoder \<Rightarrow> json list \<Rightarrow> 'a list \<Rightarrow> go_error option \<Rightarrow> (go_error option \<times> 'a list) result"
  where
  "decode_elems zero dec [] old e = Inr (e, [])"
| "decode_elems zero dec (j # js) old e =
     (case dec j (e, case old of [] \<Rightarrow> zero | x # _ \<Rightarrow> x) of
        Inl err \<Rightarrow> Inl err
      | Inr (e, x) \<Rightarrow> rmap (\<lambda>(e, xs). (e, x # xs)) (decode_elems zero dec js (tl old) e))"

definition decode_slice :: "'a \<Rightarrow> 'a decoder \<Rightarrow> 'a list decoder" where
  "decode_slice zero dec j s =
     (case j of
        JNull \<Rightarrow> Inr (fst s, [])
      | JArray js \<Rightarrow> decode_elems zero dec js (snd s) (fst s)
      | _ \<Rightarrow> type_error ''slice'' s)"

text \<open>A field: how to decode it, how to get and to set it.\<close>

definition json_field :: "'f decoder \<Rightarrow> ('a \<Rightarrow> 'f) \<Rightarrow> ('f \<Rightarrow> 'a \<Rightarrow> 'a) \<Rightarrow> 'a decoder" where
  "json_field dec get put j s = rmap (\<lambda>(e, v). (e, put v (snd s))) (dec j (fst s, get (snd s)))"

text \<open>The field of a key: the one of exactly this name, else the one of the same folded name.\<close>

definition find_field :: "(string \<times> 'a) list \<Rightarrow> string \<Rightarrow> 'a option" where
  "find_field fields k =
     (case map_of fields k of
        Some f \<Rightarrow> Some f
      | None \<Rightarrow> map_option snd (find (\<lambda>(n, _). fold_name n = fold_name k) fields))"

fun decode_members :: "(string \<times> 'a decoder) list \<Rightarrow> (string \<times> json) list
     \<Rightarrow> go_error option \<times> 'a \<Rightarrow> (go_error option \<times> 'a) result" where
  "decode_members fields [] s = Inr s"
| "decode_members fields ((k, v) # ms) s =
     (case find_field fields k of
        None \<Rightarrow> decode_members fields ms s
      | Some dec \<Rightarrow> (case dec v s of Inl e \<Rightarrow> Inl e | Inr s \<Rightarrow> decode_members fields ms s))"

definition decode_struct :: "string \<Rightarrow> (string \<times> 'a decoder) list \<Rightarrow> 'a decoder" where
  "decode_struct name fields j s =
     (case j of
        JNull \<Rightarrow> Inr s
      | JObject ms \<Rightarrow> decode_members fields ms s
      | _ \<Rightarrow> type_error name s)"

section \<open>Encoding\<close>

text \<open>The members of an encoded struct; \<open>omitempty\<close> drops a field whose value is empty.\<close>

definition omit_if :: "bool \<Rightarrow> string \<Rightarrow> json \<Rightarrow> (string \<times> json) list" where
  "omit_if absent k j = (if absent then [] else [(k, j)])"

definition int_text :: "int \<Rightarrow> string" where
  "int_text n = (if n < 0 then CHR ''-'' # dec_nat (nat (- n)) else dec_nat (nat n))"

lemma type_error_None [simp]: "type_error t s \<noteq> Inr (None, x)"
  by (auto simp: type_error_def split: prod.splits option.splits)

lemmas decode_defs = decode_string_def decode_bool_def decode_int_def decode_ptr_def decode_slice_def
  json_field_def decode_struct_def

text \<open>An integer that is written is read back.\<close>

lemma digit_val_char: "d < 10 \<Longrightarrow> digit_val (char_of (48 + d)) = Some (int d)" for d :: nat
proof -
  assume d: "d < 10"
  then have "(of_char (char_of (48 + d) :: char) :: nat) = 48 + d" by simp
  then have "(of_char (char_of (48 + d) :: char) :: int) = int (48 + d)" by (metis of_nat_of_char)
  with d show ?thesis by (simp add: digit_val_def)
qed

lemma parse_uint64_digits:
  "\<lbrakk>\<forall>d\<in>set ds. d < 10; 0 \<le> n; n * 10 ^ length ds + int (radix_val 10 ds) < 2 ^ 64\<rbrakk> \<Longrightarrow>
     parse_uint64 n (map (\<lambda>d. char_of (48 + d)) ds) = Inr (n * 10 ^ length ds + int (radix_val 10 ds))"
proof (induction ds arbitrary: n)
  case (Cons d ds)
  have v: "n * 10 ^ length (d # ds) + int (radix_val 10 (d # ds)) = (n * 10 + int d) * 10 ^ length ds + int (radix_val 10 ds)"
    by (simp add: radix_val_Cons algebra_simps)
  have "n * 10 + int d \<le> (n * 10 + int d) * 10 ^ length ds" using Cons.prems(2) by (simp add: mult_le_cancel_left1)
  then have "n * 10 + int d < 2 ^ 64" using Cons.prems(3) v by linarith
  with Cons.IH [of "n * 10 + int d"] Cons.prems v show ?case by (simp add: digit_val_char)
qed simp

lemma Atoi_int_text:
  assumes "- (2 ^ 63) \<le> n" "n < 2 ^ 63"
  shows "Atoi (int_text n) = Inr n"
proof -
  have p: "parse_uint64 0 (dec_nat k) = Inr (int k)" if "k \<le> 2 ^ 63" for k
  proof -
    have "int k \<le> 2 ^ 63" using that by (metis of_nat_le_iff of_nat_numeral of_nat_power)
    then have "int k < 2 ^ 64" by simp
    moreover have "\<forall>d\<in>set (radix 10 k). d < 10" using radix_digits [of 10 _ k] by simp
    ultimately show ?thesis using parse_uint64_digits [of "radix 10 k" 0] by (simp add: dec_nat_def)
  qed
  have h: "dec_nat k = c # cs \<Longrightarrow> c \<noteq> CHR ''-'' \<and> c \<noteq> CHR ''+''" for k c cs
  proof -
    assume "dec_nat k = c # cs"
    then obtain d where "d \<in> set (radix 10 k)" "c = char_of (48 + d)"
      unfolding dec_nat_def by (cases "radix 10 k") auto
    moreover from this(1) have "d < 10" by (rule radix_digits [rotated]) simp
    ultimately have "digit_val c \<noteq> None" by (simp add: digit_val_char)
    then show ?thesis by (auto simp: digit_val_def)
  qed
  show ?thesis
  proof (cases "n < 0")
    case True
    then show ?thesis using assms p [of "nat (- n)"] by (auto simp: Atoi_def int_text_def dec_nat_def)
  next
    case False
    obtain c cs where c: "dec_nat (nat n) = c # cs" by (cases "dec_nat (nat n)") (auto simp: dec_nat_def)
    show ?thesis using False assms p [of "nat n"] h [OF c] c by (simp add: Atoi_def int_text_def)
  qed
qed

section \<open>Fields one by one\<close>

text \<open>
  A field that is written, or dropped because it has the value that is there already, is set to what its
  text decodes to.
\<close>

lemma decode_member:
  assumes "find_field fields k = Some (json_field dec get put)" "dec j (e, get s) = Inr (e, v)"
  shows "decode_members fields ((k, j) # ms) (e, s) = decode_members fields ms (e, put v s)"
  using assms by (simp add: json_field_def)

lemma decode_omitted:
  assumes "find_field fields k = Some (json_field dec get put)"
    "\<not> absent \<Longrightarrow> dec j (e, get s) = Inr (e, v)" "absent \<Longrightarrow> put v s = s"
  shows "decode_members fields (omit_if absent k j @ ms) (e, s) = decode_members fields ms (e, put v s)"
  using assms by (simp add: omit_if_def json_field_def)

lemma decode_last_omitted:
  assumes "find_field fields k = Some (json_field dec get put)"
    "\<not> absent \<Longrightarrow> dec j (e, get s) = Inr (e, v)" "absent \<Longrightarrow> put v s = s"
  shows "decode_members fields (omit_if absent k j) (e, s) = Inr (e, put v s)"
  using assms by (simp add: omit_if_def json_field_def)

lemma decode_elems_written:
  "(\<And>x e. x \<in> set xs \<Longrightarrow> dec (enc x) (e, zero) = Inr (e, x)) \<Longrightarrow> decode_elems zero dec (map enc xs) [] e = Inr (e, xs)"
  by (induction xs) simp_all

lemma decode_slice_written:
  "(\<And>x e. x \<in> set xs \<Longrightarrow> dec (enc x) (e, zero) = Inr (e, x)) \<Longrightarrow>
     decode_slice zero dec (JArray (map enc xs)) (e, []) = Inr (e, xs)"
  by (simp add: decode_slice_def decode_elems_written)

end
