(* ===== verification/Go_JSON_Text.thy ===== *)
theory Go_JSON_Text
  imports Go_JSON
begin

text \<open>
  The text of JSON documents as \<open>encoding/json\<close> reads and writes it: the scanner with its limit on nesting, the
  unquoting of strings (escapes, surrogates, bytes that are no UTF-8), and the compact form of \<open>Marshal\<close> with its
  escapes for HTML. The lemmas show that a written document is read back and that reading always ends.
\<close>

section \<open>Reading\<close>

definition json_space :: "char \<Rightarrow> bool" where
  "json_space c = (c = CHR '' '' \<or> c = CHR 0x09 \<or> c = CHR 0x0D \<or> c = CHR 0x0A)"

abbreviation skip_space :: "string \<Rightarrow> string" where
  "skip_space s \<equiv> dropWhile json_space s"

text \<open>A string literal after its opening quote: the raw text up to the closing quote, and what follows.\<close>

definition simple_escape :: "char \<Rightarrow> bool" where
  "simple_escape c = (c \<in> set [CHR ''b'', CHR ''f'', CHR ''n'', CHR ''r'', CHR ''t'', CHR 0x5C, CHR ''/'', CHR 0x22])"

fun scan_string :: "string \<Rightarrow> (string \<times> string) option" where
  "scan_string [] = None"
| "scan_string (c # s) =
     (if c = CHR 0x22 then Some ([], s)
      else if c = CHR 0x5C then
        (case s of
           [] \<Rightarrow> None
         | e # s1 \<Rightarrow>
             if simple_escape e then map_option (\<lambda>(raw, r). (c # e # raw, r)) (scan_string s1)
             else if e = CHR ''u'' then
               (case s1 of
                  h1 # h2 # h3 # h4 # s2 \<Rightarrow>
                    if list_all (\<lambda>h. hex_val h \<noteq> None) [h1, h2, h3, h4]
                    then map_option (\<lambda>(raw, r). (c # e # h1 # h2 # h3 # h4 # raw, r)) (scan_string s2)
                    else None
                | _ \<Rightarrow> None)
             else None)
      else if byte_code c < 0x20 then None
      else map_option (\<lambda>(raw, r). (c # raw, r)) (scan_string s))"

text \<open>\<open>getu4\<close>: a \<open>\uXXXX\<close> escape at the head.\<close>

definition getu4 :: "string \<Rightarrow> nat option" where
  "getu4 s =
     (case s of
        b # u # h1 # h2 # h3 # h4 # _ \<Rightarrow>
          if b = CHR 0x5C \<and> u = CHR ''u'' then
            (case (hex_val h1, hex_val h2, hex_val h3, hex_val h4) of
               (Some v1, Some v2, Some v3, Some v4) \<Rightarrow> Some (v1 * 4096 + v2 * 256 + v3 * 16 + v4)
             | _ \<Rightarrow> None)
          else None
      | _ \<Rightarrow> None)"

definition surrogate :: "nat \<Rightarrow> bool" where
  "surrogate r = (0xD800 \<le> r \<and> r < 0xE000)"

text \<open>\<open>utf16.DecodeRune\<close>.\<close>

definition utf16_rune :: "nat \<Rightarrow> nat \<Rightarrow> nat option" where
  "utf16_rune r1 r2 =
     (if 0xD800 \<le> r1 \<and> r1 < 0xDC00 \<and> 0xDC00 \<le> r2 \<and> r2 < 0xE000
      then Some ((r1 - 0xD800) * 1024 + (r2 - 0xDC00) + 0x10000) else None)"

definition unescape :: "char \<Rightarrow> char" where
  "unescape e =
     (if e = CHR ''b'' then CHR 0x08 else if e = CHR ''f'' then CHR 0x0C else if e = CHR ''n'' then CHR 0x0A
      else if e = CHR ''r'' then CHR 0x0D else if e = CHR ''t'' then CHR 0x09 else e)"

text \<open>What the head of a raw string stands for, and how long it is.\<close>

definition unquote_step :: "string \<Rightarrow> string \<times> nat" where
  "unquote_step s =
     (if hd s = CHR 0x5C then
        (case getu4 s of
           Some rr \<Rightarrow>
             if surrogate rr then
               (case getu4 (drop 6 s) of
                  None \<Rightarrow> (encode_rune rune_error, 6)
                | Some rr1 \<Rightarrow>
                    (case utf16_rune rr rr1 of
                       Some d \<Rightarrow> (encode_rune d, 12)
                     | None \<Rightarrow> (encode_rune rune_error, 6)))
             else (encode_rune rr, 6)
         | None \<Rightarrow> (case tl s of [] \<Rightarrow> ([], 1) | e # _ \<Rightarrow> ([unescape e], 2)))
      else if byte_code (hd s) < 0x80 then ([hd s], 1)
      else (case decode_rune (map byte_code s) of (r, n) \<Rightarrow> (encode_rune r, n)))"

lemma unquote_step_pos: "s \<noteq> [] \<Longrightarrow> 0 < snd (unquote_step s)"
  using decode_rune_size [of "map byte_code s"]
  by (auto simp: unquote_step_def split: option.splits list.splits prod.splits)

function unquote :: "string \<Rightarrow> string" where
  "unquote s =
     (if s = [] then [] else (case unquote_step s of (x, n) \<Rightarrow> x @ unquote (drop n s)))"
  by pat_completeness auto
termination
proof (relation "measure length")
  show "wf (measure length)" by simp
next
  fix s :: string and x n
  assume "s \<noteq> []" "(x, n) = unquote_step s"
  then have "0 < n" using unquote_step_pos [of s] by (metis snd_conv)
  with \<open>s \<noteq> []\<close> show "(drop n s, s) \<in> measure length" by simp
qed

declare unquote.simps [simp del]

text \<open>Numbers: sign, integer part without a leading zero, fraction, exponent.\<close>

definition json_digit :: "char \<Rightarrow> bool" where
  "json_digit c = (digit_val c \<noteq> None)"

definition scan_digits :: "string \<Rightarrow> (string \<times> string) option" where
  "scan_digits s = (if takeWhile json_digit s = [] then None else Some (takeWhile json_digit s, dropWhile json_digit s))"

definition scan_int :: "string \<Rightarrow> (string \<times> string) option" where
  "scan_int s = (case s of c # r \<Rightarrow> if c = CHR ''0'' then Some ([c], r) else scan_digits s | [] \<Rightarrow> None)"

definition scan_frac :: "string \<Rightarrow> (string \<times> string) option" where
  "scan_frac s =
     (case s of
        c # r \<Rightarrow> if c = CHR ''.'' then map_option (\<lambda>(ds, t). (c # ds, t)) (scan_digits r) else Some ([], s)
      | [] \<Rightarrow> Some ([], s))"

definition scan_exp :: "string \<Rightarrow> (string \<times> string) option" where
  "scan_exp s =
     (case s of
        c # r \<Rightarrow>
          if c = CHR ''e'' \<or> c = CHR ''E'' then
            (case r of
               g # r1 \<Rightarrow>
                 if g = CHR ''+'' \<or> g = CHR ''-'' then map_option (\<lambda>(ds, t). (c # g # ds, t)) (scan_digits r1)
                 else map_option (\<lambda>(ds, t). (c # ds, t)) (scan_digits r)
             | [] \<Rightarrow> None)
          else Some ([], s)
      | [] \<Rightarrow> Some ([], s))"

definition scan_number :: "string \<Rightarrow> (string \<times> string) option" where
  "scan_number s =
     (let (sign, s) = (if s \<noteq> [] \<and> hd s = CHR ''-'' then ([CHR ''-''], tl s) else ([], s)) in
      case scan_int s of
        None \<Rightarrow> None
      | Some (i, s) \<Rightarrow>
          (case scan_frac s of
             None \<Rightarrow> None
           | Some (f, s) \<Rightarrow>
               (case scan_exp s of None \<Rightarrow> None | Some (e, s) \<Rightarrow> Some (sign @ i @ f @ e, s))))"

definition scan_word :: "string \<Rightarrow> json \<Rightarrow> string \<Rightarrow> (json \<times> string) option" where
  "scan_word t j s = (if take (length t) s = t then Some (j, drop (length t) s) else None)"

text \<open>
  The elements of an array and the members of an object, after the opening bracket, for a given parser of values. The
  test of the lengths never fails for a parser that consumes its value.
\<close>

type_synonym json_parser = "string \<Rightarrow> (json \<times> string) option"

function parse_elems :: "json_parser \<Rightarrow> string \<Rightarrow> (json list \<times> string) option" where
  "parse_elems p s =
     (case p s of
        None \<Rightarrow> None
      | Some (j, r) \<Rightarrow>
          (case skip_space r of
             [] \<Rightarrow> None
           | c # r1 \<Rightarrow>
               if c = CHR '']'' then Some ([j], r1)
               else if c = CHR '','' \<and> length r1 < length s
               then map_option (\<lambda>(js, t). (j # js, t)) (parse_elems p r1)
               else None))"
  by pat_completeness auto
termination by (relation "measure (\<lambda>(p, s). length s)") auto

declare parse_elems.simps [simp del]

function parse_members :: "json_parser \<Rightarrow> string \<Rightarrow> ((string \<times> json) list \<times> string) option" where
  "parse_members p s =
     (case skip_space s of
        [] \<Rightarrow> None
      | q # s1 \<Rightarrow>
     if q \<noteq> CHR 0x22 then None
     else
     (case scan_string s1 of
        None \<Rightarrow> None
      | Some (raw, s2) \<Rightarrow>
     (case skip_space s2 of
        [] \<Rightarrow> None
      | k # s3 \<Rightarrow>
     if k \<noteq> CHR '':'' then None
     else
     (case p s3 of
        None \<Rightarrow> None
      | Some (j, r) \<Rightarrow>
          (case skip_space r of
             [] \<Rightarrow> None
           | c # r1 \<Rightarrow>
               if c = CHR ''}'' then Some ([(unquote raw, j)], r1)
               else if c = CHR '','' \<and> length r1 < length s
               then map_option (\<lambda>(ms, t). ((unquote raw, j) # ms, t)) (parse_members p r1)
               else None)))))"
  by pat_completeness auto
termination by (relation "measure (\<lambda>(p, s). length s)") auto

declare parse_members.simps [simp del]

text \<open>A value; \<open>d\<close> is how many more brackets may be open.\<close>

function parse_value :: "int \<Rightarrow> json_parser" where
  "parse_value d s =
     (case skip_space s of
        [] \<Rightarrow> None
      | c # r \<Rightarrow>
          if c = CHR 0x22 then map_option (\<lambda>(raw, t). (JString (unquote raw), t)) (scan_string r)
          else if c = CHR ''['' then
            (if d \<le> 0 then None
             else
               (case skip_space r of
                  [] \<Rightarrow> None
                | e # r1 \<Rightarrow>
                    if e = CHR '']'' then Some (JArray [], r1)
                    else map_option (\<lambda>(js, t). (JArray js, t)) (parse_elems (\<lambda>u. parse_value (d - 1) u) r)))
          else if c = CHR ''{'' then
            (if d \<le> 0 then None
             else
               (case skip_space r of
                  [] \<Rightarrow> None
                | e # r1 \<Rightarrow>
                    if e = CHR ''}'' then Some (JObject [], r1)
                    else map_option (\<lambda>(ms, t). (JObject ms, t)) (parse_members (\<lambda>u. parse_value (d - 1) u) r)))
          else if c = CHR ''t'' then scan_word ''true'' (JBool True) (c # r)
          else if c = CHR ''f'' then scan_word ''false'' (JBool False) (c # r)
          else if c = CHR ''n'' then scan_word ''null'' JNull (c # r)
          else map_option (\<lambda>(n, t). (JNumber n, t)) (scan_number (c # r)))"
  by pat_completeness auto
termination by (relation "measure (\<lambda>(d, s). nat d)") auto

declare parse_value.simps [simp del]

definition json_parse :: "bytes \<Rightarrow> json result" where
  "json_parse b =
     (case parse_value 10000 (string_of b) of
        Some (j, r) \<Rightarrow> if skip_space r = [] then Inr j else Inl (ErrVar ''json.SyntaxError'')
      | None \<Rightarrow> Inl (ErrVar ''json.SyntaxError''))"

section \<open>Writing\<close>

text \<open>\<open>Marshal\<close> escapes for HTML; bytes that are no UTF-8 become the replacement character.\<close>

definition quote_char :: "char \<Rightarrow> string" where
  "quote_char c =
     (let b = byte_code c in
      if c = CHR 0x5C \<or> c = CHR 0x22 then [CHR 0x5C, c]
      else if b = 0x08 then [CHR 0x5C, CHR ''b''] else if b = 0x0C then [CHR 0x5C, CHR ''f'']
      else if b = 0x0A then [CHR 0x5C, CHR ''n''] else if b = 0x0D then [CHR 0x5C, CHR ''r'']
      else if b = 0x09 then [CHR 0x5C, CHR ''t'']
      else if b < 0x20 \<or> c = CHR ''<'' \<or> c = CHR ''>'' \<or> c = CHR ''&''
      then [CHR 0x5C, CHR ''u'', CHR ''0'', CHR ''0'', hex_digit (b div 16), hex_digit (b mod 16)]
      else [c])"

definition quote_step :: "string \<Rightarrow> string \<times> nat" where
  "quote_step s =
     (if byte_code (hd s) < 0x80 then (quote_char (hd s), 1)
      else (case decode_rune (map byte_code s) of
        (r, n) \<Rightarrow>
          if r = rune_error \<and> n = 1 then (CHR 0x5C # ''ufffd'', 1)
          else if r = 0x2028 then (CHR 0x5C # ''u2028'', n)
          else if r = 0x2029 then (CHR 0x5C # ''u2029'', n)
          else (take n s, n)))"

lemma quote_step_pos: "s \<noteq> [] \<Longrightarrow> 0 < snd (quote_step s)"
  using decode_rune_size [of "map byte_code s"] by (auto simp: quote_step_def split: prod.splits)

function quote_body :: "string \<Rightarrow> string" where
  "quote_body s = (if s = [] then [] else (case quote_step s of (x, n) \<Rightarrow> x @ quote_body (drop n s)))"
  by pat_completeness auto
termination
proof (relation "measure length")
  show "wf (measure length)" by simp
next
  fix s :: string and x n
  assume "s \<noteq> []" "(x, n) = quote_step s"
  then have "0 < n" using quote_step_pos [of s] by (metis snd_conv)
  with \<open>s \<noteq> []\<close> show "(drop n s, s) \<in> measure length" by simp
qed

declare quote_body.simps [simp del]

definition quoted :: "string \<Rightarrow> string" where
  "quoted s = CHR 0x22 # quote_body s @ [CHR 0x22]"

definition commas :: "string list \<Rightarrow> string" where
  "commas ts = join_with (CHR '','') ts"

fun json_text :: "json \<Rightarrow> string" where
  "json_text JNull = ''null''"
| "json_text (JBool b) = (if b then ''true'' else ''false'')"
| "json_text (JNumber t) = t"
| "json_text (JString s) = quoted s"
| "json_text (JArray js) = CHR ''['' # commas (map json_text js) @ '']''"
| "json_text (JObject ms) = CHR ''{'' # commas (map (\<lambda>(k, j). quoted k @ CHR '':'' # json_text j) ms) @ ''}''"

text \<open>
  \<open>MarshalIndent\<close> without a prefix puts every element and every closing bracket on a line of its own. A layout has
  the gap before an element at a given depth and the gap after a colon; the compact form has none.
\<close>

fun json_layout :: "(nat \<Rightarrow> string) \<Rightarrow> string \<Rightarrow> nat \<Rightarrow> json \<Rightarrow> string" where
  "json_layout gap colon d (JArray js) =
     (if js = [] then ''[]''
      else CHR ''['' # commas (map (\<lambda>j. gap (Suc d) @ json_layout gap colon (Suc d) j) js) @ gap d @ '']'')"
| "json_layout gap colon d (JObject ms) =
     (if ms = [] then ''{}''
      else CHR ''{'' # commas (map (\<lambda>(k, j). gap (Suc d) @ quoted k @ CHR '':'' # colon @ json_layout gap colon (Suc d) j) ms) @
        gap d @ ''}'')"
| "json_layout gap colon d j = json_text j"

definition json_indented :: "string \<Rightarrow> json \<Rightarrow> string" where
  "json_indented indent = json_layout (\<lambda>d. CHR 0x0A # concat (replicate d indent)) '' '' 0"

text \<open>Both directions together; a document made of strings, integers and truth values can always be written.\<close>

definition json_Unmarshal :: "'a decoder \<Rightarrow> 'a \<Rightarrow> bytes \<Rightarrow> 'a result" where
  "json_Unmarshal dec x d =
     rbind (json_parse d) (\<lambda>j.
     rbind (dec j (None, x)) (\<lambda>(e, x).
     case e of None \<Rightarrow> Inr x | Some err \<Rightarrow> Inl err))"

definition json_Marshal :: "json \<Rightarrow> bytes result" where
  "json_Marshal j = Inr (bytes_of (json_text j))"

definition json_MarshalIndent :: "string \<Rightarrow> json \<Rightarrow> bytes result" where
  "json_MarshalIndent indent j = Inr (bytes_of (json_indented indent j))"

section \<open>Strings are read back\<close>

function utf8_valid :: "string \<Rightarrow> bool" where
  "utf8_valid s =
     (if s = [] then True
      else (case decode_rune (map byte_code s) of (r, n) \<Rightarrow> \<not> (r = rune_error \<and> n = 1) \<and> utf8_valid (drop n s)))"
  by pat_completeness auto
termination
proof (relation "measure length")
  show "wf (measure length)" by simp
next
  fix s :: string and r n
  assume "s \<noteq> []" "(r, n) = decode_rune (map byte_code s)"
  then have "0 < n" using decode_rune_size [of "map byte_code s"] by (metis snd_conv map_is_Nil_conv)
  with \<open>s \<noteq> []\<close> show "(drop n s, s) \<in> measure length" by simp
qed

declare utf8_valid.simps [simp del]

lemma char_of_byte_code [simp]: "char_of (byte_code c) = c"
  by (simp add: byte_code_def)

lemma byte_code_less: "byte_code c < 256"
  by (simp add: byte_code_def)

lemma byte_code_eq: "byte_code c = n \<Longrightarrow> c = char_of n"
  by (metis char_of_byte_code)

lemma map_char_of_codes [simp]: "map char_of (map byte_code s) = s"
  by (induction s) simp_all

lemma map_char_of_comp [simp]: "map (char_of \<circ> byte_code) s = s"
  by (induction s) simp_all

text \<open>A valid sequence of more than one byte.\<close>

lemma multi_bytes:
  assumes "decode_rune (map byte_code s) = (r, n)" "\<not> (r = rune_error \<and> n = 1)" "s \<noteq> []" "\<not> byte_code (hd s) < 0x80"
  shows "encode_rune r = take n s" "1 < n" "n \<le> length s" "\<forall>c\<in>set (take n s). 0x80 \<le> byte_code c"
    "decode_rune (map byte_code (take n s @ t)) = (r, n)"
proof -
  have ne: "map byte_code s \<noteq> []" using assms(3) by simp
  note e = encode_decode_rune [OF assms(1) ne assms(2)]
  show "encode_rune r = take n s" using e by (simp add: take_map)
  show "n \<le> length s" using e by simp
  show "decode_rune (map byte_code (take n s @ t)) = (r, n)"
    using e [of "map byte_code t"] by (simp add: take_map)
  show "1 < n" "\<forall>c\<in>set (take n s). 0x80 \<le> byte_code c"
  proof -
    have h: "hd (map byte_code s) = byte_code (hd s)" using assms(3) by (simp add: hd_map)
    have "1 < n \<and> (\<forall>b\<in>set (take n (map byte_code s)). 0x80 \<le> b)"
      using assms(1) ne assms(2) by (cases rule: decode_rune_cases) (use h assms(4) in auto)
    then show "1 < n" "\<forall>c\<in>set (take n s). 0x80 \<le> byte_code c" by (auto simp: take_map)
  qed
qed

lemma hex_pair: "b < 256 \<Longrightarrow> hex_val (hex_digit (b div 16)) = Some (b div 16) \<and> hex_val (hex_digit (b mod 16)) = Some (b mod 16)"
  by simp

lemma getu4_pair: "b < 256 \<Longrightarrow> getu4 (CHR 0x5C # CHR ''u'' # CHR ''0'' # CHR ''0'' # hex_digit (b div 16) # hex_digit (b mod 16) # t) = Some b"
proof -
  assume b: "b < 256"
  have z: "hex_val CHR ''0'' = Some 0" by code_simp
  show ?thesis using hex_pair [OF b] by (simp add: getu4_def z)
qed

lemma control_chars:
  "char_of (8 :: nat) = CHR 0x08" "char_of (12 :: nat) = CHR 0x0C" "char_of (10 :: nat) = CHR 0x0A"
  "char_of (13 :: nat) = CHR 0x0D" "char_of (9 :: nat) = CHR 0x09"
  by code_simp+

lemma unquote_char:
  assumes "byte_code c < 0x80"
  shows "unquote_step (quote_char c @ t) = ([c], length (quote_char c))"
proof -
  let ?b = "byte_code c"
  have "(c = CHR 0x5C \<or> c = CHR 0x22) \<or> ?b = 0x08 \<or> ?b = 0x0C \<or> ?b = 0x0A \<or> ?b = 0x0D \<or> ?b = 0x09
    \<or> quote_char c = [CHR 0x5C, CHR ''u'', CHR ''0'', CHR ''0'', hex_digit (?b div 16), hex_digit (?b mod 16)]
    \<or> quote_char c = [c] \<and> c \<noteq> CHR 0x5C"
    unfolding quote_char_def Let_def by simp
  then consider "c = CHR 0x5C \<or> c = CHR 0x22" | "?b = 0x08" | "?b = 0x0C" | "?b = 0x0A" | "?b = 0x0D" | "?b = 0x09"
    | "quote_char c = [CHR 0x5C, CHR ''u'', CHR ''0'', CHR ''0'', hex_digit (?b div 16), hex_digit (?b mod 16)]"
    | "quote_char c = [c]" "c \<noteq> CHR 0x5C"
    by blast
  then show ?thesis
  proof cases
    case 7
    have "encode_rune ?b = [c]" using assms by (simp add: encode_rune_def)
    moreover have "\<not> surrogate ?b" using assms by (simp add: surrogate_def)
    ultimately show ?thesis unfolding 7 using getu4_pair [of ?b t] byte_code_less [of c] by (simp add: unquote_step_def)
  next
    case 8
    then show ?thesis using assms by (simp add: unquote_step_def)
  qed (auto simp: quote_char_def unquote_step_def getu4_def unescape_def Let_def control_chars dest!: byte_code_eq
        split: list.splits)
qed

lemma unquote_quote:
  assumes "s \<noteq> []" "quote_step s = (x, n)" "decode_rune (map byte_code s) = (r, m)" "\<not> (r = rune_error \<and> m = 1)"
  shows "unquote_step (x @ t) = (take n s, length x) \<and> n = m"
proof (cases "byte_code (hd s) < 0x80")
  case True
  obtain c u where s: "s = c # u" using assms(1) by (cases s) auto
  have "m = 1" using assms(3) True s by (simp add: decode_rune.simps(2))
  then show ?thesis using True assms(2) s unquote_char [of c t] by (auto simp: quote_step_def)
next
  case False
  note mb = multi_bytes [OF assms(3,4,1) False]
  have u: "getu4 (CHR 0x5C # ''u2028'' @ t) = Some 0x2028" "getu4 (CHR 0x5C # ''u2029'' @ t) = Some 0x2029"
    by (simp_all add: getu4_def hex_val_def Let_def)
  have x: "x = (if r = 0x2028 then CHR 0x5C # ''u2028'' else if r = 0x2029 then CHR 0x5C # ''u2029'' else take n s)" "n = m"
    using assms(2-4) False by (auto simp: quote_step_def split: if_splits)
  show ?thesis
  proof (cases "r = 0x2028 \<or> r = 0x2029")
    case True
    then show ?thesis using x mb(1) u by (auto simp: unquote_step_def surrogate_def)
  next
    case False
    then have xt: "x = take n s" using x by simp
    obtain c v where c: "take n s = c # v" using mb(2) x(2) assms(1) by (cases "take n s") auto
    then have "0x80 \<le> byte_code c" using mb(4) x(2) by simp
    then have "\<not> byte_code c < 0x80" "c \<noteq> CHR 0x5C" by (auto simp: byte_code_def)
    moreover have "hd (x @ t) = c" using xt c by simp
    moreover have "length x = n" using xt mb(3) x(2) by simp
    ultimately show ?thesis using mb(1) mb(5) [of t] xt x(2) by (simp add: unquote_step_def)
  qed
qed

lemma quote_nonempty: "s \<noteq> [] \<Longrightarrow> quote_step s = (x, n) \<Longrightarrow> x \<noteq> []"
  using quote_step_pos [of s] by (auto simp: quote_step_def quote_char_def Let_def split: if_splits prod.splits)

lemma unquote_quote_body: "utf8_valid s \<Longrightarrow> unquote (quote_body s) = s"
proof (induction s rule: quote_body.induct)
  case (1 s)
  show ?case
  proof (cases "s = []")
    case True
    then show ?thesis by (simp add: quote_body.simps unquote.simps)
  next
    case False
    obtain x n where q: "quote_step s = (x, n)" by fastforce
    obtain r m where d: "decode_rune (map byte_code s) = (r, m)" by fastforce
    have v: "\<not> (r = rune_error \<and> m = 1)" "utf8_valid (drop m s)"
      using 1(2) False d by (simp_all add: utf8_valid.simps [of s])
    have u: "unquote_step (x @ quote_body (drop n s)) = (take n s, length x)" "n = m"
      using unquote_quote [OF False q d v(1)] by auto
    have "x \<noteq> []" using quote_nonempty [OF False q] .
    moreover have "unquote (quote_body (drop n s)) = drop n s" using 1(1) [OF False q [symmetric]] v(2) u(2) by simp
    ultimately show ?thesis using False q u(1) by (simp add: quote_body.simps [of s] unquote.simps [of "x @ _"])
  qed
qed

text \<open>The scanner passes over what the writer quotes.\<close>

definition scan_add :: "string \<Rightarrow> (string \<times> string) option \<Rightarrow> (string \<times> string) option" where
  "scan_add x r = map_option (\<lambda>(raw, t). (x @ raw, t)) r"

lemma scan_add_simps [simp]: "scan_add [] r = r" "scan_add x (Some (raw, t)) = Some (x @ raw, t)"
  "scan_add x None = None"
  by (cases r) (simp_all add: scan_add_def)

declare scan_string.simps [simp del]

lemma scan_plain: "\<forall>c\<in>set x. 0x20 \<le> byte_code c \<and> c \<noteq> CHR 0x5C \<and> c \<noteq> CHR 0x22 \<Longrightarrow> scan_string (x @ t) = scan_add x (scan_string t)"
proof (induction x)
  case (Cons c x)
  then have ih: "scan_string (x @ t) = scan_add x (scan_string t)" by simp
  have c: "\<not> byte_code c < 0x20" "c \<noteq> CHR 0x5C" "c \<noteq> CHR 0x22" using Cons.prems by auto
  have "scan_string (c # x @ t) = scan_add [c] (scan_string (x @ t))"
    unfolding scan_string.simps(2) if_not_P [OF c(1)] if_not_P [OF c(2)] if_not_P [OF c(3)] by (simp add: scan_add_def)
  also have "\<dots> = scan_add (c # x) (scan_string t)" unfolding ih by (cases "scan_string t") auto
  finally show ?case by simp
qed simp

lemma scan_unicode:
  "list_all (\<lambda>h. hex_val h \<noteq> None) [h1, h2, h3, h4] \<Longrightarrow>
     scan_string (CHR 0x5C # CHR ''u'' # h1 # h2 # h3 # h4 # t) = scan_add [CHR 0x5C, CHR ''u'', h1, h2, h3, h4] (scan_string t)"
  by (cases "scan_string t") (auto simp: scan_string.simps(2) simple_escape_def)

lemma scan_simple: "simple_escape e \<Longrightarrow> scan_string (CHR 0x5C # e # t) = scan_add [CHR 0x5C, e] (scan_string t)"
  by (cases "scan_string t") (auto simp: scan_string.simps(2))

lemma hex_zero: "hex_val CHR ''0'' = Some 0" "hex_val CHR ''2'' = Some 2" "hex_val CHR ''8'' = Some 8"
  "hex_val CHR ''9'' = Some 9" "hex_val CHR ''f'' = Some 15" "hex_val CHR ''d'' = Some 13"
  by code_simp+

lemma scan_quote_char: "byte_code c < 0x80 \<Longrightarrow> scan_string (quote_char c @ t) = scan_add (quote_char c) (scan_string t)"
proof -
  assume c: "byte_code c < 0x80"
  let ?b = "byte_code c"
  have simple: "simple_escape CHR ''b''" "simple_escape CHR ''f''" "simple_escape CHR ''n''" "simple_escape CHR ''r''"
    "simple_escape CHR ''t''" "simple_escape CHR 0x5C" "simple_escape CHR 0x22"
    by (simp_all add: simple_escape_def)
  have "(\<exists>e. quote_char c = [CHR 0x5C, e] \<and> simple_escape e)
    \<or> quote_char c = [CHR 0x5C, CHR ''u'', CHR ''0'', CHR ''0'', hex_digit (?b div 16), hex_digit (?b mod 16)]
    \<or> quote_char c = [c] \<and> c \<noteq> CHR 0x5C \<and> c \<noteq> CHR 0x22 \<and> 0x20 \<le> ?b"
    unfolding quote_char_def Let_def using simple by auto
  then consider e where "quote_char c = [CHR 0x5C, e]" "simple_escape e"
    | "quote_char c = [CHR 0x5C, CHR ''u'', CHR ''0'', CHR ''0'', hex_digit (?b div 16), hex_digit (?b mod 16)]"
    | "quote_char c = [c]" "c \<noteq> CHR 0x5C" "c \<noteq> CHR 0x22" "0x20 \<le> ?b"
    by blast
  then show ?thesis
  proof cases
    case 1
    then show ?thesis by (simp only: append_Cons append_Nil scan_simple)
  next
    case 2
    have "list_all (\<lambda>h. hex_val h \<noteq> None) [CHR ''0'', CHR ''0'', hex_digit (?b div 16), hex_digit (?b mod 16)]"
      using hex_pair [OF byte_code_less [of c]] by (simp add: hex_zero)
    then show ?thesis unfolding 2 append_Cons append_Nil by (rule scan_unicode)
  next
    case 3
    then show ?thesis using scan_plain [of "[c]" t] by simp
  qed
qed

lemma scan_quote_step:
  assumes "s \<noteq> []" "quote_step s = (x, n)"
  shows "scan_string (x @ t) = scan_add x (scan_string t)"
proof (cases "byte_code (hd s) < 0x80")
  case True
  then show ?thesis using assms(2) scan_quote_char by (auto simp: quote_step_def)
next
  case False
  obtain r m where d: "decode_rune (map byte_code s) = (r, m)" by fastforce
  have u: "scan_string ((CHR 0x5C # ''ufffd'') @ t) = scan_add (CHR 0x5C # ''ufffd'') (scan_string t)"
    "scan_string ((CHR 0x5C # ''u2028'') @ t) = scan_add (CHR 0x5C # ''u2028'') (scan_string t)"
    "scan_string ((CHR 0x5C # ''u2029'') @ t) = scan_add (CHR 0x5C # ''u2029'') (scan_string t)"
    unfolding append_Cons append_Nil by (rule scan_unicode, simp add: hex_zero)+
  show ?thesis
  proof (cases "r = rune_error \<and> m = 1")
    case True
    then show ?thesis using assms(2) False d u by (auto simp: quote_step_def)
  next
    case valid: False
    have "scan_string (take m s @ t) = scan_add (take m s) (scan_string t)"
    proof (rule scan_plain, rule ballI)
      fix c assume "c \<in> set (take m s)"
      then have "0x80 \<le> byte_code c" using multi_bytes(4) [OF d valid assms(1) False] by blast
      then show "0x20 \<le> byte_code c \<and> c \<noteq> CHR 0x5C \<and> c \<noteq> CHR 0x22" by (auto simp: byte_code_def)
    qed
    then show ?thesis using assms(2) False valid d u by (auto simp: quote_step_def split: if_splits)
  qed
qed

lemma scan_quoted: "scan_string (quote_body s @ CHR 0x22 # t) = Some (quote_body s, t)"
proof (induction s rule: quote_body.induct)
  case (1 s)
  show ?case
  proof (cases "s = []")
    case True
    then show ?thesis by (simp add: quote_body.simps scan_string.simps(2))
  next
    case False
    obtain x n where q: "quote_step s = (x, n)" by fastforce
    have "scan_string (quote_body (drop n s) @ CHR 0x22 # t) = Some (quote_body (drop n s), t)"
      using 1 [OF False q [symmetric]] .
    with scan_quote_step [OF False q, of "quote_body (drop n s) @ CHR 0x22 # t"] show ?thesis
      using False q by (simp add: quote_body.simps [of s])
  qed
qed

text \<open>Texts of seven bits are UTF-8.\<close>

abbreviation ascii :: "string \<Rightarrow> bool" where
  "ascii \<equiv> list_all (\<lambda>c. byte_code c < 0x80)"

lemma utf8_ascii: "ascii t \<Longrightarrow> utf8_valid (t @ s) = utf8_valid s"
  by (induction t) (simp_all add: utf8_valid.simps [of "_ # _"] decode_rune.simps(2) rune_error_def)

lemma utf8_literal: "ascii t \<Longrightarrow> utf8_valid t"
  using utf8_ascii [of t "[]"] by (simp add: utf8_valid.simps)

lemma ascii_digit: "d < 10 \<Longrightarrow> byte_code (char_of (48 + d)) < 0x80" for d :: nat
  by (simp add: byte_code_def)

lemma ascii_dec: "ascii (dec_nat n)"
  using radix_digits [of 10 _ n] by (auto simp: dec_nat_def list_all_iff intro!: ascii_digit)

section \<open>Documents are read back\<close>

text \<open>What follows a value inside a document.\<close>

definition value_end :: "string \<Rightarrow> bool" where
  "value_end r = (r = [] \<or> hd r \<in> set '',]}'' \<or> json_space (hd r))"

text \<open>What a program writes: strings of UTF-8, integers, and no more than \<open>d\<close> brackets inside each other.\<close>

fun json_fits :: "int \<Rightarrow> json \<Rightarrow> bool" where
  "json_fits d (JString s) = utf8_valid s"
| "json_fits d (JNumber t) = (\<exists>n. t = int_text n)"
| "json_fits d (JArray js) = (0 < d \<and> (\<forall>j\<in>set js. json_fits (d - 1) j))"
| "json_fits d (JObject ms) = (0 < d \<and> (\<forall>m\<in>set ms. utf8_valid (fst m) \<and> json_fits (d - 1) (snd m)))"
| "json_fits d _ = True"

lemma dec_nat_digits: "\<forall>c\<in>set (dec_nat n). json_digit c"
  using radix_digits [of 10 _ n] by (auto simp: dec_nat_def json_digit_def digit_val_char)

lemma dec_nat_first: "\<exists>c cs. dec_nat n = c # cs \<and> json_digit c \<and> (c = CHR ''0'' \<longrightarrow> n = 0)"
proof -
  obtain d ds where r: "radix 10 n = d # ds" by (cases "radix 10 n") auto
  have d: "d < 10" using radix_digits [of 10 d n] r by simp
  have "n = 0" if "char_of (48 + d) = CHR ''0''"
  proof -
    have "digit_val CHR ''0'' = Some 0" by code_simp
    then have "digit_val (char_of (48 + d)) = Some 0" using that by simp
    then have "hd (radix 10 n) = 0" using digit_val_char [OF d] r by simp
    then show ?thesis using radix_hd_pos [of 10 n] by (cases n) auto
  qed
  moreover have "json_digit (char_of (48 + d))" using digit_val_char [OF d] by (simp add: json_digit_def)
  ultimately show ?thesis using r by (auto simp: dec_nat_def)
qed

lemma value_end_chars:
  "value_end r \<Longrightarrow> r = [] \<or> (\<exists>c t. r = c # t \<and> \<not> json_digit c \<and> c \<noteq> CHR ''.'' \<and> c \<noteq> CHR ''e'' \<and> c \<noteq> CHR ''E'')"
  by (cases r) (auto simp: value_end_def json_digit_def digit_val_def json_space_def)

lemma scan_nat: "value_end r \<Longrightarrow> scan_int (dec_nat n @ r) = Some (dec_nat n, r) \<and> scan_frac r = Some ([], r) \<and> scan_exp r = Some ([], r)"
proof -
  assume e: "value_end r"
  note r = value_end_chars [OF e]
  obtain c cs where c: "dec_nat n = c # cs" "json_digit c" "c = CHR ''0'' \<longrightarrow> n = 0" using dec_nat_first by blast
  have "takeWhile json_digit (dec_nat n @ r) = dec_nat n \<and> dropWhile json_digit (dec_nat n @ r) = r"
    using dec_nat_digits [of n] r by (auto simp: takeWhile_append dropWhile_append)
  moreover have "dec_nat 0 = ''0''" by code_simp
  ultimately have "scan_int (dec_nat n @ r) = Some (dec_nat n, r)"
    using c by (cases "c = CHR ''0''") (auto simp: scan_int_def scan_digits_def)
  then show ?thesis using r by (auto simp: scan_frac_def scan_exp_def)
qed

lemma scan_int_text: "value_end r \<Longrightarrow> scan_number (int_text n @ r) = Some (int_text n, r)"
proof -
  assume e: "value_end r"
  obtain c cs where c: "dec_nat (nat n) = c # cs" "json_digit c" using dec_nat_first by blast
  have "c \<noteq> CHR ''-''" using c(2) by (auto simp: json_digit_def digit_val_def)
  moreover have "scan_int (c # cs @ r) = Some (c # cs, r)" using scan_nat [OF e, of "nat n"] c(1) by simp
  ultimately show ?thesis using scan_nat [OF e] c by (auto simp: scan_number_def int_text_def)
qed

text \<open>How a text begins.\<close>

lemma json_text_head:
  "json_fits d j \<Longrightarrow> \<exists>c t. json_text j = c # t \<and> \<not> json_space c \<and> c \<noteq> CHR '']'' \<and> c \<noteq> CHR ''}''"
proof (cases j)
  case (JNumber t)
  moreover assume "json_fits d j"
  ultimately obtain n where t: "t = int_text n" by auto
  obtain c cs where "dec_nat (nat n) = c # cs" "json_digit c" using dec_nat_first by blast
  moreover have "json_digit c \<Longrightarrow> \<not> json_space c \<and> c \<noteq> CHR '']'' \<and> c \<noteq> CHR ''}''" for c
    by (auto simp: json_digit_def digit_val_def json_space_def)
  ultimately show ?thesis using JNumber t by (auto simp: int_text_def json_space_def)
qed (auto simp: quoted_def json_space_def)

lemma skip_head: "\<not> json_space c \<Longrightarrow> skip_space (c # t) = c # t"
  by simp

lemma number_text_head:
  "\<exists>c t. int_text n = c # t \<and> (json_digit c \<or> c = CHR ''-'')"
  using dec_nat_first [of "nat n"] by (auto simp: int_text_def)

text \<open>The loops, for a parser that reads back the elements.\<close>

lemma commas_Cons: "ts \<noteq> [] \<Longrightarrow> commas (t # ts) = t @ CHR '','' # commas ts"
  by (cases ts) (simp_all add: commas_def join_with_Cons)

lemma spaces_end: "list_all json_space h \<Longrightarrow> c \<in> set '',]}'' \<Longrightarrow> value_end (h @ c # r)"
  by (cases h) (auto simp: value_end_def)

lemma skip_spaces: "list_all json_space h \<Longrightarrow> skip_space (h @ t) = skip_space t"
  by (induction h) simp_all

lemma skip_closing: "list_all json_space h \<Longrightarrow> c \<in> set '',]}'' \<Longrightarrow> skip_space (h @ c # r) = c # r"
  by (auto simp: skip_spaces json_space_def)

lemma parse_elems_text:
  assumes "js \<noteq> []" "list_all json_space h"
    and "\<And>j r. j \<in> set js \<Longrightarrow> value_end r \<Longrightarrow> p (txt j @ r) = Some (j, r)"
  shows "parse_elems p (commas (map txt js) @ h @ CHR '']'' # rest) = Some (js, rest)"
  using assms(1,3)
proof (induction js)
  case (Cons j js)
  show ?case
  proof (cases "js = []")
    case True
    have "p (txt j @ h @ CHR '']'' # rest) = Some (j, h @ CHR '']'' # rest)"
      by (rule Cons.prems) (simp_all add: spaces_end assms(2))
    then show ?thesis using True skip_closing [OF assms(2), of "CHR '']''" rest]
      by (subst parse_elems.simps) (simp add: commas_def)
  next
    case False
    let ?r = "commas (map txt js) @ h @ CHR '']'' # rest"
    have "parse_elems p ?r = Some (js, rest)"
      by (rule Cons.IH [OF False]) (rule Cons.prems(2), simp_all)
    moreover have "p (txt j @ CHR '','' # ?r) = Some (j, CHR '','' # ?r)"
      by (rule Cons.prems) (simp_all add: value_end_def)
    moreover have "commas (map txt (j # js)) @ h @ CHR '']'' # rest = txt j @ CHR '','' # ?r"
      using False by (simp add: commas_Cons)
    ultimately show ?thesis by (subst parse_elems.simps) (simp add: json_space_def)
  qed
qed simp

abbreviation member_text :: "string \<Rightarrow> (json \<Rightarrow> string) \<Rightarrow> string \<times> json \<Rightarrow> string" where
  "member_text g txt \<equiv> \<lambda>(k, j). g @ quoted k @ CHR '':'' # txt j"

lemma parse_members_text:
  assumes "ms \<noteq> []" "list_all json_space g" "list_all json_space h"
    and "\<And>k j r. (k, j) \<in> set ms \<Longrightarrow> value_end r \<Longrightarrow> utf8_valid k \<and> p (txt j @ r) = Some (j, r)"
  shows "parse_members p (commas (map (member_text g txt) ms) @ h @ CHR ''}'' # rest) = Some (ms, rest)"
  using assms(1,4)
proof (induction ms)
  case (Cons m ms)
  obtain k j where m: "m = (k, j)" by fastforce
  have k: "unquote (quote_body k) = k" using Cons.prems(2) [of k j "[]"] m by (simp add: value_end_def unquote_quote_body)
  have body: "parse_members p (member_text g txt m @ x @ c # r) =
      (if c = CHR ''}'' then Some ([(k, j)], r)
       else if c = CHR '','' then map_option (\<lambda>(ms, t). ((k, j) # ms, t)) (parse_members p r) else None)"
    if "c \<in> set '',}''" "list_all json_space x" for c r x
  proof -
    have "p (txt j @ x @ c # r) = Some (j, x @ c # r)"
      using Cons.prems(2) [of k j "x @ c # r"] m that spaces_end [of x c r] by auto
    moreover have "scan_string (quote_body k @ CHR 0x22 # CHR '':'' # txt j @ x @ c # r)
        = Some (quote_body k, CHR '':'' # txt j @ x @ c # r)" by (rule scan_quoted)
    moreover have "skip_space (x @ c # r) = c # r" using that by (intro skip_closing) auto
    moreover have "skip_space (g @ CHR 0x22 # t) = CHR 0x22 # t" for t
      using assms(2) by (simp add: skip_spaces json_space_def)
    ultimately show ?thesis using that m k
      by (subst parse_members.simps) (auto simp: quoted_def json_space_def)
  qed
  show ?case
  proof (cases "ms = []")
    case True
    then show ?thesis using body [of "CHR ''}''" h rest] assms(3) m by (simp add: commas_def)
  next
    case False
    let ?r = "commas (map (member_text g txt) ms) @ h @ CHR ''}'' # rest"
    have "parse_members p ?r = Some (ms, rest)"
      by (rule Cons.IH [OF False]) (rule Cons.prems(2), simp_all)
    moreover have "commas (map (member_text g txt) (m # ms)) @ h @ CHR ''}'' # rest = member_text g txt m @ [] @ CHR '','' # ?r"
      using False by (simp add: commas_Cons del: split_paired_All)
    ultimately show ?thesis using body [of "CHR '',''" "[]" ?r] m by simp
  qed
qed simp

text \<open>Values, in any layout; \<open>x\<close> stands for the gap in front.\<close>

lemma parse_value_space: "list_all json_space x \<Longrightarrow> parse_value d (x @ s) = parse_value d s"
  by (simp add: parse_value.simps [of d "x @ s"] parse_value.simps [of d s] skip_spaces)

lemma parse_scalar:
  assumes "json_fits d j" "value_end r" "\<forall>js. j \<noteq> JArray js" "\<forall>ms. j \<noteq> JObject ms"
  shows "parse_value d (json_text j @ r) = Some (j, r)"
proof (cases j)
  case JNull
  then show ?thesis by (subst parse_value.simps) (simp add: json_space_def scan_word_def)
next
  case (JBool b)
  then show ?thesis by (subst parse_value.simps) (simp add: json_space_def scan_word_def)
next
  case (JNumber t)
  then obtain n where t: "t = int_text n" using assms(1) by auto
  obtain c cs where c: "int_text n = c # cs" "json_digit c \<or> c = CHR ''-''" using number_text_head by blast
  have h: "\<not> json_space c" "c \<noteq> CHR 0x22" "c \<noteq> CHR ''[''" "c \<noteq> CHR ''{''" "c \<noteq> CHR ''t''" "c \<noteq> CHR ''f''" "c \<noteq> CHR ''n''"
    using c(2) by (auto simp: json_digit_def digit_val_def json_space_def)
  have "scan_number (c # cs @ r) = Some (c # cs, r)" using scan_int_text [OF assms(2), of n] c(1) by simp
  then show ?thesis using JNumber h t c(1) by (subst parse_value.simps) simp
next
  case (JString s)
  then show ?thesis using assms(1)
    by (subst parse_value.simps) (simp add: quoted_def json_space_def scan_quoted unquote_quote_body)
qed (use assms in auto)

lemma layout_head:
  "json_fits d j \<Longrightarrow> \<exists>c t. json_layout gap colon e j = c # t \<and> \<not> json_space c \<and> c \<noteq> CHR '']'' \<and> c \<noteq> CHR ''}''"
  using json_text_head [of d j] by (cases j) (simp_all add: json_space_def)

lemma parse_layout:
  assumes "\<And>e. list_all json_space (gap e)" "list_all json_space colon"
  shows "json_fits d j \<Longrightarrow> value_end r \<Longrightarrow> parse_value d (json_layout gap colon e j @ r) = Some (j, r)"
proof (induction j arbitrary: d e r)
  case (JArray js)
  have d: "0 < d" using JArray.prems(1) by simp
  let ?txt = "\<lambda>j. gap (Suc e) @ json_layout gap colon (Suc e) j"
  show ?case
  proof (cases "js = []")
    case True
    then show ?thesis using d by (subst parse_value.simps) (simp add: json_space_def)
  next
    case False
    then obtain j js' where js: "js = j # js'" by (cases js) auto
    have "json_fits (d - 1) j" using JArray.prems(1) js by simp
    then obtain c t where c: "json_layout gap colon (Suc e) j = c # t" "\<not> json_space c" "c \<noteq> CHR '']''"
      using layout_head by blast
    have h: "\<exists>u. skip_space (commas (map ?txt js) @ gap e @ CHR '']'' # r) = c # u"
      using js c(1,2) by (cases js') (simp_all add: commas_def join_with_Cons skip_spaces [OF assms(1)])
    have "parse_elems (\<lambda>u. parse_value (d - 1) u) (commas (map ?txt js) @ gap e @ CHR '']'' # r) = Some (js, r)"
      by (rule parse_elems_text [OF False assms(1)]) (use JArray in \<open>auto simp: parse_value_space [OF assms(1)]\<close>)
    moreover have "json_layout gap colon e (JArray js) @ r = CHR ''['' # commas (map ?txt js) @ gap e @ CHR '']'' # r"
      using False by simp
    ultimately show ?thesis using h c(3) d by (subst parse_value.simps) (auto simp: json_space_def)
  qed
next
  case (JObject ms)
  have d: "0 < d" using JObject.prems(1) by simp
  let ?txt = "\<lambda>j. colon @ json_layout gap colon (Suc e) j"
  show ?case
  proof (cases "ms = []")
    case True
    then show ?thesis using d by (subst parse_value.simps) (simp add: json_space_def)
  next
    case False
    then obtain k j ms' where ms: "ms = (k, j) # ms'" by (cases ms) auto
    have h: "\<exists>u. skip_space (commas (map (member_text (gap (Suc e)) ?txt) ms) @ gap e @ CHR ''}'' # r) = CHR 0x22 # u"
      using ms by (cases ms') (auto simp: commas_def join_with_Cons quoted_def skip_spaces [OF assms(1)] json_space_def)
    have p: "parse_members (\<lambda>u. parse_value (d - 1) u)
        (commas (map (member_text (gap (Suc e)) ?txt) ms) @ gap e @ CHR ''}'' # r) = Some (ms, r)"
    proof (rule parse_members_text [OF False assms(1,1)])
      fix k j r assume m: "(k, j) \<in> set ms" "value_end r"
      then have "utf8_valid k" "json_fits (d - 1) j" using JObject.prems(1) by auto
      with JObject.IH [OF m(1), of j] m(2) show "utf8_valid k \<and> parse_value (d - 1) (?txt j @ r) = Some (j, r)"
        by (simp add: parse_value_space [OF assms(2)])
    qed
    have "json_layout gap colon e (JObject ms) @ r =
        CHR ''{'' # commas (map (member_text (gap (Suc e)) ?txt) ms) @ gap e @ CHR ''}'' # r"
      using False by simp
    with h p d show ?thesis by (subst parse_value.simps) (auto simp: json_space_def)
  qed
next
  case JNull
  from parse_scalar [OF JNull.prems] show ?case by simp
next
  case (JBool b)
  from parse_scalar [OF JBool.prems] show ?case by simp
next
  case (JNumber t)
  from parse_scalar [OF JNumber.prems] show ?case by simp
next
  case (JString t)
  from parse_scalar [OF JString.prems] show ?case by simp
qed

lemma compact_layout: "json_layout (\<lambda>_. []) [] e j = json_text j"
proof (induction j arbitrary: e)
  case (JArray js)
  then have m: "map (\<lambda>j. json_layout (\<lambda>_. []) [] (Suc e) j) js = map json_text js" by simp
  show ?case unfolding json_layout.simps append_Nil m by (simp add: commas_def)
next
  case (JObject ms)
  then have m: "map (\<lambda>(k, j). quoted k @ CHR '':'' # json_layout (\<lambda>_. []) [] (Suc e) j) ms =
      map (\<lambda>(k, j). quoted k @ CHR '':'' # json_text j) ms" by fastforce
  show ?case unfolding json_layout.simps append_Nil m by (simp add: commas_def)
qed simp_all

lemma parse_value_text: "json_fits d j \<Longrightarrow> value_end r \<Longrightarrow> parse_value d (json_text j @ r) = Some (j, r)"
  using parse_layout [of "\<lambda>_. []" "[]" d j r 0] by (simp add: compact_layout)

text \<open>A document that is written is read back, in its compact and in its indented form.\<close>

theorem json_parse_text: "json_fits 10000 j \<Longrightarrow> json_parse (bytes_of (json_text j)) = Inr j"
  using parse_value_text [of 10000 j "[]"] by (simp add: json_parse_def value_end_def)

theorem json_parse_indented:
  "list_all json_space indent \<Longrightarrow> json_fits 10000 j \<Longrightarrow> json_parse (bytes_of (json_indented indent j)) = Inr j"
  using parse_layout [of "\<lambda>d. CHR 0x0A # concat (replicate d indent)" "'' ''" 10000 j "[]" 0]
  by (simp add: json_parse_def value_end_def json_indented_def json_space_def list_all_iff)

section \<open>Reading consumes\<close>

text \<open>So the tests of the lengths in the two loops only make their termination evident.\<close>

definition consumes :: "json_parser \<Rightarrow> bool" where
  "consumes p \<longleftrightarrow> (\<forall>s j r. p s = Some (j, r) \<longrightarrow> length r < length s)"

lemma skip_space_length: "skip_space s = c # r \<Longrightarrow> length r < length s"
  using length_dropWhile_le [of json_space s] by simp

lemma scan_string_length: "scan_string s = Some (raw, r) \<Longrightarrow> length r < length s"
proof (induction s arbitrary: raw r rule: scan_string.induct)
  case 1
  then show ?case by (simp add: scan_string.simps)
next
  case (2 c s)
  have "length r \<le> length s"
  proof (cases "c = CHR 0x22 \<or> c \<noteq> CHR 0x5C")
    case True
    then show ?thesis using 2(3,4) by (fastforce simp: scan_string.simps split: if_splits)
  next
    case False
    then obtain e s1 where s: "s = e # s1" "c = CHR 0x5C" using 2(4) by (auto simp: scan_string.simps split: list.splits)
    show ?thesis
    proof (cases "simple_escape e")
      case True
      then show ?thesis using 2(1) [OF _ _ s(1) True] 2(4) s by (fastforce simp: scan_string.simps)
    next
      case F: False
      then obtain h1 h2 h3 h4 s2 raw' where t: "e = CHR ''u''" "s1 = h1 # h2 # h3 # h4 # s2"
          "list_all (\<lambda>h. hex_val h \<noteq> None) [h1, h2, h3, h4]" "scan_string s2 = Some (raw', r)"
        using 2(4) s by (auto simp: scan_string.simps split: if_splits list.splits)
      then have "length r < length s2" using 2(2) s F by fastforce
      then show ?thesis using s t by simp
    qed
  qed
  then show ?case by simp
qed

lemma parse_elems_length: "consumes p \<Longrightarrow> parse_elems p s = Some (js, r) \<Longrightarrow> length r < length s"
proof (induction p s arbitrary: js r rule: parse_elems.induct)
  case (1 p s)
  from 1(3) obtain j t c r1 where p: "p s = Some (j, t)" "skip_space t = c # r1"
    "(if c = CHR '']'' then Some ([j], r1)
      else if c = CHR '','' \<and> length r1 < length s then map_option (\<lambda>(js, t). (j # js, t)) (parse_elems p r1) else None)
      = Some (js, r)"
    by (subst (asm) parse_elems.simps) (auto split: option.splits list.splits)
  have "length r1 < length s" using p(1) skip_space_length [OF p(2)] 1(2) unfolding consumes_def by fastforce
  then show ?case using p(3) 1(1) [OF p(1) refl p(2)] 1(2) by (auto split: if_splits)
qed

lemma parse_members_length: "consumes p \<Longrightarrow> parse_members p s = Some (ms, r) \<Longrightarrow> length r < length s"
proof (induction p s arbitrary: ms r rule: parse_members.induct)
  case (1 p s)
  from 1(3) obtain q s1 raw s2 k s3 j t c r1 where p: "skip_space s = q # s1" "q = CHR 0x22" "scan_string s1 = Some (raw, s2)"
    "skip_space s2 = k # s3" "k = CHR '':''" "p s3 = Some (j, t)" "skip_space t = c # r1"
    "(if c = CHR ''}'' then Some ([(unquote raw, j)], r1)
      else if c = CHR '','' \<and> length r1 < length s then map_option (\<lambda>(ms, t). ((unquote raw, j) # ms, t)) (parse_members p r1)
      else None) = Some (ms, r)"
    by (subst (asm) parse_members.simps) (auto split: option.splits list.splits if_splits)
  have "length s3 < length s"
    using skip_space_length [OF p(1)] scan_string_length [OF p(3)] skip_space_length [OF p(4)] by simp
  moreover have "length r1 < length s3" using p(6) skip_space_length [OF p(7)] 1(2) unfolding consumes_def by fastforce
  ultimately have "length r1 < length s" by simp
  then show ?case
    using p(8) 1(1) [OF p(1) _ p(3) refl p(4) _ p(6) refl p(7)] p(2,5) 1(2) by (auto split: if_splits)
qed

end
