(* ===== verification/Go_Calendar.thy ===== *)
theory Go_Calendar
  imports Go_Time Go_JSON_Text
begin

text \<open>
  What the program uses of \<open>package time\<close> to write an instant into a JSON document: the proleptic Gregorian
  calendar and the RFC 3339 text of \<open>Time.MarshalJSON\<close>. An instant is a number of nanoseconds since 1970; the
  offset of the local time zone at an instant, in seconds, is an argument. The lemmas show that dates and texts
  determine the instant.
\<close>

section \<open>Dates\<close>

text \<open>
  Days are counted from 1970-01-01. Years begin in March here, so that the leap day is the last day of a year, of a
  cycle of four years, and of a cycle of 400 years.
\<close>

definition civil_of_days :: "int \<Rightarrow> int \<times> int \<times> int" where
  "civil_of_days days =
     (let z = days + 719468;
          era = z div 146097; doe = z mod 146097;
          c = min 3 (doe div 36524); r = doe - 36524 * c;
          q = r div 1461; s = r mod 1461;
          a = min 3 (s div 365); doy = s - 365 * a;
          mp = (5 * doy + 2) div 153;
          d = doy - (153 * mp + 2) div 5 + 1;
          m = (if mp < 10 then mp + 3 else mp - 9)
      in (400 * era + 100 * c + 4 * q + a + (if m \<le> 2 then 1 else 0), m, d))"

definition days_of_civil :: "int \<times> int \<times> int \<Rightarrow> int" where
  "days_of_civil = (\<lambda>(y, m, d).
     let y = (if m \<le> 2 then y - 1 else y);
         mp = (if m > 2 then m - 3 else m + 9);
         yoe = y mod 400
     in y div 400 * 146097 + yoe * 365 + yoe div 4 - yoe div 100 + (153 * mp + 2) div 5 + d - 1 - 719468)"

definition leap_year :: "int \<Rightarrow> bool" where
  "leap_year y = (y mod 4 = 0 \<and> (y mod 100 \<noteq> 0 \<or> y mod 400 = 0))"

definition month_days :: "int \<Rightarrow> int \<Rightarrow> int" where
  "month_days y m = (if m = 2 then (if leap_year y then 29 else 28) else if m \<in> {4, 6, 9, 11} then 30 else 31)"

lemma cycle_parts:
  fixes doe :: int
  assumes "0 \<le> doe" "doe < 146097"
    "c = min 3 (doe div 36524)" "r = doe - 36524 * c" "q = r div 1461" "s = r mod 1461" "a = min 3 (s div 365)"
    "doy = s - 365 * a"
  shows "0 \<le> c" "c \<le> 3" "0 \<le> q" "q \<le> 24" "0 \<le> a" "a \<le> 3" "0 \<le> doy" "doy \<le> 365"
    "doe = 36524 * c + 1461 * q + 365 * a + doy" "doy = 365 \<Longrightarrow> a = 3 \<and> (q = 24 \<longrightarrow> c = 3)"
proof -
  show c: "0 \<le> c" "c \<le> 3" using assms(1,3) by auto
  have r: "0 \<le> r" "r \<le> 36524" "c < 3 \<Longrightarrow> r < 36524"
    using assms(1-4) by (auto simp: min_def split: if_splits)
  show q: "0 \<le> q" "q \<le> 24" using r assms(5) by auto
  have s: "0 \<le> s" "s < 1461" "r = 1461 * q + s" using assms(5,6) by auto
  show a: "0 \<le> a" "a \<le> 3" using s assms(7) by auto
  show d: "0 \<le> doy" "doy \<le> 365" using s assms(7,8) by (auto simp: min_def split: if_splits)
  show "doe = 36524 * c + 1461 * q + 365 * a + doy" using assms(4,8) s(3) by simp
  show "a = 3 \<and> (q = 24 \<longrightarrow> c = 3)" if "doy = 365"
  proof -
    have "a = 3" using that s assms(7,8) by (auto simp: min_def split: if_splits)
    moreover have "c = 3" if "q = 24"
    proof (rule ccontr)
      assume "c \<noteq> 3"
      then have "r < 36524" using c r(3) by simp
      moreover have "r = 1461 * 24 + 365 * 3 + 365" using s(3) that \<open>a = 3\<close> \<open>doy = 365\<close> assms(8) by simp
      ultimately show False by simp
    qed
    ultimately show ?thesis by blast
  qed
qed

text \<open>The month and its day from the day of the year.\<close>

lemma month_parts:
  fixes doy :: int
  assumes "0 \<le> doy" "doy \<le> 365" "mp = (5 * doy + 2) div 153"
  shows "0 \<le> mp" "mp \<le> 11" "(153 * mp + 2) div 5 \<le> doy" "doy < (153 * (mp + 1) + 2) div 5"
proof -
  have b: "153 * mp \<le> 5 * doy + 2" "5 * doy + 2 < 153 * mp + 153" using assms(3) by auto
  show "0 \<le> mp" "mp \<le> 11" using assms(1,2) b by linarith+
  have h: "x \<le> 5 * k + 4 \<Longrightarrow> x div 5 \<le> k" "5 * k + 5 \<le> x \<Longrightarrow> k < x div 5" for x k :: int by presburger+
  show "(153 * mp + 2) div 5 \<le> doy" by (rule h(1)) (use b(1) in simp)
  show "doy < (153 * (mp + 1) + 2) div 5" by (rule h(2)) (use b(2) in simp)
qed

lemma month_lengths:
  fixes mp :: int
  assumes "0 \<le> mp" "mp < 11" "m = (if mp < 10 then mp + 3 else mp - 9)"
  shows "(153 * (mp + 1) + 2) div 5 - (153 * mp + 2) div 5 = (if m \<in> {4, 6, 9, 11} then 30 else 31)" "m \<noteq> 2"
proof -
  have "mp = 0 \<or> mp = 1 \<or> mp = 2 \<or> mp = 3 \<or> mp = 4 \<or> mp = 5 \<or> mp = 6 \<or> mp = 7 \<or> mp = 8 \<or> mp = 9 \<or> mp = 10"
    using assms(1,2) by presburger
  then show "(153 * (mp + 1) + 2) div 5 - (153 * mp + 2) div 5 = (if m \<in> {4, 6, 9, 11} then 30 else 31)"
    unfolding assms(3) by (elim disjE) simp_all
  show "m \<noteq> 2" using assms by (auto split: if_splits)
qed

lemma whole_part: "0 \<le> j \<Longrightarrow> j < k \<Longrightarrow> (k * n + j) div k = n" "0 \<le> j \<Longrightarrow> j < k \<Longrightarrow> (k * n + j) mod k = j" for j k n :: int
  by simp_all

lemma days_of_civil_of_days: "days_of_civil (civil_of_days z) = z"
proof -
  obtain doe era where e: "era = (z + 719468) div 146097" "doe = (z + 719468) mod 146097" by blast
  then have z: "z + 719468 = era * 146097 + doe" "0 \<le> doe" "doe < 146097" "era = (z + 719468) div 146097"
    "doe = (z + 719468) mod 146097" by simp_all
  obtain c r q s a doy where p: "c = min 3 (doe div 36524)" "r = doe - 36524 * c" "q = r div 1461" "s = r mod 1461"
    "a = min 3 (s div 365)" "doy = s - 365 * a" by blast
  note b = cycle_parts [OF z(2,3) p]
  obtain mp m where m: "mp = (5 * doy + 2) div 153" "m = (if mp < 10 then mp + 3 else mp - 9)" by blast
  note t = month_parts [OF b(7,8) m(1)]
  have e: "civil_of_days z = (400 * era + 100 * c + 4 * q + a + (if m \<le> 2 then 1 else 0), m, doy - (153 * mp + 2) div 5 + 1)"
    unfolding civil_of_days_def Let_def z(4,5) [symmetric] p [symmetric] m [symmetric] by simp
  obtain y where y: "y = 400 * era + 100 * c + 4 * q + a" by blast
  have mp: "(if m > 2 then m - 3 else m + 9) = mp" using m(2) t(1,2) by auto
  have "y = 400 * era + (100 * c + (4 * q + a))" using y by simp
  then have 400: "y div 400 = era" "y mod 400 = 100 * c + (4 * q + a)"
    using b(1-6) by (simp_all only:) (intro whole_part; linarith)+
  have 100: "(100 * c + (4 * q + a)) div 100 = c" using b(3-6) by (intro whole_part) linarith+
  have "100 * c + (4 * q + a) = 4 * (25 * c + q) + a" by simp
  then have 4: "(100 * c + (4 * q + a)) div 4 = 25 * c + q" using whole_part(1) [of a 4 "25 * c + q"] b(5,6) by simp
  have "(if m \<le> 2 then y + (if m \<le> 2 then 1 else 0) - 1 else y + (if m \<le> 2 then 1 else 0)) = y" by simp
  then have "days_of_civil (civil_of_days z) = y div 400 * 146097 + y mod 400 * 365 + y mod 400 div 4 - y mod 400 div 100 +
      (153 * mp + 2) div 5 + (doy - (153 * mp + 2) div 5 + 1) - 1 - 719468"
    unfolding e days_of_civil_def Let_def prod.case y [symmetric] mp by (simp only:)
  with b(9) z(1) show ?thesis unfolding 400 100 4 by simp
qed

lemma civil_valid:
  assumes "civil_of_days z = (y, m, d)"
  shows "1 \<le> m \<and> m \<le> 12 \<and> 1 \<le> d \<and> d \<le> month_days y m"
proof -
  obtain doe era where "era = (z + 719468) div 146097" "doe = (z + 719468) mod 146097" by blast
  then have z: "0 \<le> doe" "doe < 146097" "era = (z + 719468) div 146097" "doe = (z + 719468) mod 146097" by simp_all
  obtain c r q s a doy where p: "c = min 3 (doe div 36524)" "r = doe - 36524 * c" "q = r div 1461" "s = r mod 1461"
    "a = min 3 (s div 365)" "doy = s - 365 * a" by blast
  note b = cycle_parts [OF z(1,2) p]
  obtain mp where mp: "mp = (5 * doy + 2) div 153" by blast
  note t = month_parts [OF b(7,8) mp]
  have e: "m = (if mp < 10 then mp + 3 else mp - 9)" "d = doy - (153 * mp + 2) div 5 + 1"
    "y = 400 * era + 100 * c + 4 * q + a + (if m \<le> 2 then 1 else 0)"
    using assms unfolding civil_of_days_def Let_def z(3,4) [symmetric] p [symmetric] mp [symmetric] by auto
  have "leap_year y" if "mp = 11" "doy = 365"
  proof -
    have "y = 400 * era + 100 * c + 4 * q + 4" "q = 24 \<longrightarrow> c = 3" using b(10) [OF that(2)] e(1,3) that(1) by auto
    then have y: "y = 4 * (100 * era + 25 * c + q + 1)" "y = 100 * (4 * era + c) + 4 * (q + 1)" by simp_all
    show ?thesis
    proof (cases "q = 24")
      case True
      then have "y = 400 * (era + 1)" using \<open>q = 24 \<longrightarrow> c = 3\<close> y(1) by simp
      then show ?thesis by (simp add: leap_year_def)
    next
      case False
      then have "q < 24" using b(4) by simp
      then have "y mod 100 = 4 * (q + 1)" unfolding y(2) using b(3) by (intro whole_part(2)) simp_all
      moreover have "y mod 4 = 0" unfolding y(1) by simp
      ultimately show ?thesis using b(3) by (simp add: leap_year_def)
    qed
  qed
  moreover have "d \<le> 29 \<and> m = 2" if "mp = 11" using that t(4) b(8) unfolding e(1,2) by simp
  moreover have "doy \<noteq> 365 \<Longrightarrow> mp = 11 \<Longrightarrow> d \<le> 28" using b(8) unfolding e(2) by simp
  moreover have "d \<le> month_days y m" if "mp \<noteq> 11"
    using month_lengths [OF t(1) _ e(1)] t(2,4) that unfolding e(2) month_days_def by simp
  ultimately show ?thesis using t(1-3) unfolding e(1,2) by (cases "mp = 11"; cases "doy = 365") (auto simp: month_days_def)
qed

section \<open>The text of an instant\<close>

text \<open>\<open>appendInt\<close> for numbers that are not negative.\<close>

definition pad :: "nat \<Rightarrow> int \<Rightarrow> string" where
  "pad w n = replicate (w - length (dec_nat (nat n))) CHR ''0'' @ dec_nat (nat n)"

text \<open>\<open>appendFormatRFC3339\<close> with nanoseconds, for an offset in seconds; a fraction that is zero is left out.\<close>

definition zone_text :: "int \<Rightarrow> string" where
  "zone_text offset =
     (if offset = 0 then ''Z''
      else (let zone = sgn offset * (\<bar>offset\<bar> div 60)
            in (if zone < 0 then CHR ''-'' else CHR ''+'') # pad 2 (\<bar>zone\<bar> div 60) @ '':'' @ pad 2 (\<bar>zone\<bar> mod 60)))"

definition clock_text :: "int \<Rightarrow> string" where
  "clock_text s = pad 2 (s div 3600) @ '':'' @ pad 2 (s div 60 mod 60) @ '':'' @ pad 2 (s mod 60)"

definition rfc3339_text :: "int \<Rightarrow> int \<Rightarrow> string" where
  "rfc3339_text offset t =
     (let s = t div 10 ^ 9 + offset in
      case civil_of_days (s div 86400) of
        (y, m, d) \<Rightarrow>
          pad 4 y @ ''-'' @ pad 2 m @ ''-'' @ pad 2 d @ ''T'' @ clock_text (s mod 86400) @
          fst (fmtFrac 9 False [] (nat (t mod 10 ^ 9))) @ zone_text offset)"

text \<open>\<open>Time.MarshalJSON\<close>: years of four digits and offsets of less than a day only.\<close>

definition Time_MarshalJSON :: "(int \<Rightarrow> int) \<Rightarrow> int \<Rightarrow> json result" where
  "Time_MarshalJSON zone t =
     (let offset = zone t; (y, m, d) = civil_of_days ((t div 10 ^ 9 + offset) div 86400) in
      if y < 0 \<or> 9999 < y
      then Inl (ErrWrap ''Time.MarshalJSON: %w'' [] (ErrNew ''year outside of range [0,9999]'' []))
      else if 24 \<le> \<bar>offset\<bar> div 3600
      then Inl (ErrWrap ''Time.MarshalJSON: %w'' [] (ErrNew ''timezone hour outside of range [0,23]'' []))
      else Inr (JString (rfc3339_text offset t)))"

text \<open>Fields of a fixed width can be taken apart again.\<close>

lemma pad_parts:
  assumes "0 \<le> n" "n < 10 ^ w" "0 < w"
  shows "length (pad w n) = w" "radix_val 10 (map (the \<circ> dig) (pad w n)) = nat n"
proof -
  have "nat n < 10 ^ w" using assms(1,2) by (simp add: nat_less_iff)
  then have "length (radix 10 (nat n)) \<le> w" using radix_length_iff [of 10 w "nat n"] assms(3) by simp
  then show "length (pad w n) = w" by (simp add: pad_def dec_nat_def)
  have d: "\<And>d. d \<in> set (radix 10 (nat n)) \<Longrightarrow> d < 10" using radix_digits [of 10 _ "nat n"] by simp
  have "map (the \<circ> dig) (dec_nat (nat n)) = radix 10 (nat n)"
    unfolding dec_nat_def map_map by (rule map_idI) (simp add: d)
  moreover have "(the \<circ> dig) CHR ''0'' = 0" by (simp add: dig_def)
  ultimately show "radix_val 10 (map (the \<circ> dig) (pad w n)) = nat n"
    by (simp add: pad_def)
qed

lemma pad_inj:
  assumes "pad w n @ r = pad w k @ t" "0 \<le> n" "n < 10 ^ w" "0 \<le> k" "k < 10 ^ w" "0 < w"
  shows "n = k \<and> r = t"
proof -
  have "pad w n = pad w k \<and> r = t"
    using assms(1) pad_parts(1) [OF assms(2,3,6)] pad_parts(1) [OF assms(4,5,6)] by simp
  then show ?thesis using pad_parts(2) [OF assms(2,3,6)] pad_parts(2) [OF assms(4,5,6)] assms(2,4) by (metis eq_nat_nat_iff)
qed

lemma pad2_inj: "pad 2 n @ r = pad 2 k @ t \<Longrightarrow> 0 \<le> n \<Longrightarrow> n < 100 \<Longrightarrow> 0 \<le> k \<Longrightarrow> k < 100 \<Longrightarrow> n = k \<and> r = t"
  by (rule pad_inj [of 2]) simp_all

lemma clock_inj:
  assumes "clock_text s @ r = clock_text u @ t" "0 \<le> s" "s < 86400" "0 \<le> u" "u < 86400"
  shows "s = u \<and> r = t"
proof -
  have b: "0 \<le> x div 3600" "x div 3600 < 100" "0 \<le> x div 60 mod 60" "x div 60 mod 60 < 100" "0 \<le> x mod 60" "x mod 60 < 100"
    if "0 \<le> x" "x < 86400" for x :: int
    using that by auto
  note s = b [OF assms(2,3)] and u = b [OF assms(4,5)]
  from assms(1) have 1: "pad 2 (s div 3600) @ '':'' @ pad 2 (s div 60 mod 60) @ '':'' @ pad 2 (s mod 60) @ r =
      pad 2 (u div 3600) @ '':'' @ pad 2 (u div 60 mod 60) @ '':'' @ pad 2 (u mod 60) @ t"
    by (simp add: clock_text_def)
  note 2 = pad2_inj [OF 1 s(1,2) u(1,2)]
  then have 3: "pad 2 (s div 60 mod 60) @ '':'' @ pad 2 (s mod 60) @ r = pad 2 (u div 60 mod 60) @ '':'' @ pad 2 (u mod 60) @ t"
    by simp
  note 4 = pad2_inj [OF 3 s(3,4) u(3,4)]
  then have 5: "pad 2 (s mod 60) @ r = pad 2 (u mod 60) @ t" by simp
  note 6 = pad2_inj [OF 5 s(5,6) u(5,6)]
  have split: "x = x div 3600 * 3600 + x div 60 mod 60 * 60 + x mod 60" for x :: int
  proof -
    have 1: "x = p * 60 + m \<Longrightarrow> p = q * 60 + n \<Longrightarrow> x = q * 3600 + n * 60 + m" for p q m n :: int by simp
    have 2: "x div 3600 = x div 60 div 60" using zdiv_zmult2_eq [of 60 x 60] by simp
    show ?thesis unfolding 2 by (rule 1 [of "x div 60"]) (rule div_mult_mod_eq [symmetric])+
  qed
  have "s = u" using split [of s] split [of u] 2 4 6 by metis
  with 6 show ?thesis by blast
qed

lemma zone_inj:
  assumes "zone_text m = zone_text n" "m mod 60 = 0" "n mod 60 = 0" "\<bar>m\<bar> < 86400" "\<bar>n\<bar> < 86400"
  shows "m = n"
proof -
  have w: "\<exists>k. x = 60 * k \<and> \<bar>k\<bar> < 1440 \<and> zone_text x =
      (if k = 0 then ''Z'' else (if k < 0 then CHR ''-'' else CHR ''+'') # pad 2 (\<bar>k\<bar> div 60) @ '':'' @ pad 2 (\<bar>k\<bar> mod 60))"
    if "x mod 60 = 0" "\<bar>x\<bar> < 86400" for x :: int
  proof -
    obtain k where k: "x = 60 * k" using \<open>x mod 60 = 0\<close> by (metis mod_0_imp_dvd dvd_def)
    then have a: "\<bar>x\<bar> = 60 * \<bar>k\<bar>" by simp
    then have "sgn x * (\<bar>x\<bar> div 60) = k" using k by (simp add: sgn_mult mult_sgn_abs)
    moreover have "\<bar>k\<bar> < 1440" using that(2) a by linarith
    ultimately show ?thesis using k by (intro exI [of _ k]) (simp add: zone_text_def Let_def)
  qed
  from w [OF assms(2,4)] w [OF assms(3,5)] obtain k l where k: "m = 60 * k" "\<bar>k\<bar> < 1440" "n = 60 * l" "\<bar>l\<bar> < 1440" and
    t: "(if k = 0 then ''Z'' else (if k < 0 then CHR ''-'' else CHR ''+'') # pad 2 (\<bar>k\<bar> div 60) @ '':'' @ pad 2 (\<bar>k\<bar> mod 60)) =
      (if l = 0 then ''Z'' else (if l < 0 then CHR ''-'' else CHR ''+'') # pad 2 (\<bar>l\<bar> div 60) @ '':'' @ pad 2 (\<bar>l\<bar> mod 60))"
    using assms(1) by metis
  have "k = l" if kl: "k \<noteq> 0" "l \<noteq> 0"
  proof -
    have sg: "k < 0 \<longleftrightarrow> l < 0" using t kl by (simp split: if_splits)
    have 1: "pad 2 (\<bar>k\<bar> div 60) @ '':'' @ pad 2 (\<bar>k\<bar> mod 60) = pad 2 (\<bar>l\<bar> div 60) @ '':'' @ pad 2 (\<bar>l\<bar> mod 60)"
      using t kl by simp
    have b: "0 \<le> \<bar>x\<bar> div 60" "\<bar>x\<bar> div 60 < 100" "0 \<le> \<bar>x\<bar> mod 60" "\<bar>x\<bar> mod 60 < 100" if "\<bar>x\<bar> < 1440" for x :: int
    proof -
      show "0 \<le> \<bar>x\<bar> div 60" by simp
      show "\<bar>x\<bar> div 60 < 100" using that by linarith
      show "0 \<le> \<bar>x\<bar> mod 60" by simp
      show "\<bar>x\<bar> mod 60 < 100" using pos_mod_bound [of 60 "\<bar>x\<bar>"] by linarith
    qed
    note 2 = pad2_inj [OF 1 b(1,2) [OF k(2)] b(1,2) [OF k(4)]]
    then have 3: "pad 2 (\<bar>k\<bar> mod 60) @ [] = pad 2 (\<bar>l\<bar> mod 60) @ []" by simp
    note 4 = pad2_inj [OF 3 b(3,4) [OF k(2)] b(3,4) [OF k(4)]]
    have "\<bar>k\<bar> = \<bar>l\<bar>" using 2 4 div_mult_mod_eq [of "\<bar>k\<bar>" 60] div_mult_mod_eq [of "\<bar>l\<bar>" 60] by metis
    with sg show ?thesis by linarith
  qed
  moreover have "k = 0 \<longleftrightarrow> l = 0" using t by (auto split: if_splits)
  ultimately show ?thesis using k(1,3) by auto
qed

text \<open>What can stand in a fraction, and what a zone begins with.\<close>

definition fraction_char :: "char \<Rightarrow> bool" where
  "fraction_char c = (c = CHR ''.'' \<or> dig c \<noteq> None)"

lemma fraction_chars: "is_fraction i m fr \<Longrightarrow> c \<in> set fr \<Longrightarrow> fraction_char c"
  unfolding is_fraction_def fraction_char_def by auto

lemma fraction_value: "is_fraction i m fr \<Longrightarrow> is_fraction i k fr \<Longrightarrow> m = k"
proof -
  have v: "map (the \<circ> dig) (map dchar ds) = ds" if "\<forall>d\<in>set ds. d < 10" for ds
    unfolding map_map by (rule map_idI) (use that in simp)
  assume "is_fraction i m fr" "is_fraction i k fr"
  then show ?thesis
  proof (cases fr)
    case (Cons c cs)
    with \<open>is_fraction i m fr\<close> obtain ds where d: "cs = map dchar ds" "\<forall>d\<in>set ds. d < 10" "radix_val 10 ds * 10 ^ (i - length ds) = m"
      unfolding is_fraction_def by auto
    moreover from Cons \<open>is_fraction i k fr\<close> obtain es where e: "cs = map dchar es" "\<forall>d\<in>set es. d < 10"
      "radix_val 10 es * 10 ^ (i - length es) = k"
      unfolding is_fraction_def by auto
    moreover have "ds = es" using v [OF d(2)] v [OF e(2)] d(1) e(1) by metis
    ultimately show ?thesis by simp
  qed (auto simp: is_fraction_def)
qed

lemma zone_head: "\<exists>c r. zone_text n = c # r \<and> \<not> fraction_char c"
  by (simp add: zone_text_def Let_def fraction_char_def dig_def)

lemma fraction_inj:
  assumes "fr @ zone_text m = gr @ zone_text n" "is_fraction i k fr" "is_fraction i l gr"
  shows "fr = gr \<and> zone_text m = zone_text n"
proof -
  have t: "takeWhile fraction_char (f @ zone_text x) = f" if "is_fraction i j f" for f j x
    using fraction_chars [OF that] zone_head [of x] by (auto simp: takeWhile_append2)
  from t [OF assms(2), of m] t [OF assms(3), of n] assms(1) have "fr = gr" by simp
  with assms(1) show ?thesis by simp
qed

text \<open>The text is ASCII.\<close>

lemma ascii_pad: "ascii (pad w n)"
proof -
  have "byte_code CHR ''0'' < 0x80" by (simp add: byte_code_def)
  then show ?thesis using ascii_dec [of "nat n"] by (auto simp: pad_def list_all_iff)
qed

lemma ascii_fractions: "is_fraction i m fr \<Longrightarrow> ascii fr"
  unfolding is_fraction_def using ascii_digit by (auto simp: list_all_iff) (simp add: byte_code_def)

lemma ascii_rfc3339: "ascii (rfc3339_text offset t)"
proof -
  obtain y m d where c: "civil_of_days ((t div 10 ^ 9 + offset) div 86400) = (y, m, d)" by (metis prod_cases3)
  have "ascii (fst (fmtFrac 9 False [] (nat (t mod 10 ^ 9))))"
    using fmtFrac_fraction [of 9 "[]" "nat (t mod 10 ^ 9)"] ascii_fractions by fastforce
  moreover have s: "ascii ''Z''" "byte_code CHR '':'' < 0x80" "byte_code CHR ''-'' < 0x80" "byte_code CHR ''+'' < 0x80"
    "byte_code CHR ''T'' < 0x80" by (simp_all add: byte_code_def)
  moreover have "ascii (zone_text offset)" "ascii (clock_text s)" for s
    using s ascii_pad by (simp_all add: zone_text_def clock_text_def Let_def)
  ultimately show ?thesis using ascii_pad unfolding rfc3339_text_def Let_def c by simp
qed

lemma Time_MarshalJSON_ok:
  assumes "Time_MarshalJSON zone t = Inr j" "civil_of_days ((t div 10 ^ 9 + zone t) div 86400) = (y, m, d)"
  shows "0 \<le> y" "y < 10 ^ 4" "\<bar>zone t\<bar> < 86400" "j = JString (rfc3339_text (zone t) t)"
proof -
  have r: "\<not> (y < 0 \<or> 9999 < y)" "\<not> 24 \<le> \<bar>zone t\<bar> div 3600" "JString (rfc3339_text (zone t) t) = j"
    using assms(1) unfolding Time_MarshalJSON_def Let_def assms(2) prod.case by (metis sum.distinct(1) sum.inject(2))+
  then show "0 \<le> y" "y < 10 ^ 4" "j = JString (rfc3339_text (zone t) t)" by auto
  show "\<bar>zone t\<bar> < 86400" using r(2) by linarith
qed

lemma Time_MarshalJSON_text:
  "Time_MarshalJSON zone t = Inr j \<Longrightarrow> \<exists>s. j = JString s \<and> utf8_valid s"
  using ascii_rfc3339 Time_MarshalJSON_ok(4) by (metis prod_cases3 utf8_literal)

text \<open>The text determines the instant, if it is within the bounds and the offsets are whole minutes.\<close>

lemma rfc3339_inj:
  assumes "Time_MarshalJSON zone t = Inr j" "Time_MarshalJSON zone u = Inr j" "zone t mod 60 = 0" "zone u mod 60 = 0"
  shows "t = u"
proof -
  obtain a y m d where 1: "a = t div 10 ^ 9 + zone t" "civil_of_days (a div 86400) = (y, m, d)" by (metis prod_cases3)
  obtain b y' m' d' where 2: "b = u div 10 ^ 9 + zone u" "civil_of_days (b div 86400) = (y', m', d')" by (metis prod_cases3)
  note m1 = Time_MarshalJSON_ok [OF assms(1) 1(2) [unfolded 1(1)]] and m2 = Time_MarshalJSON_ok [OF assms(2) 2(2) [unfolded 2(1)]]
  have y: "0 \<le> y" "y < 10 ^ 4" "0 \<le> y'" "y' < 10 ^ 4" and o: "\<bar>zone t\<bar> < 86400" "\<bar>zone u\<bar> < 86400"
    and j: "rfc3339_text (zone t) t = rfc3339_text (zone u) u"
    using m1 m2 by simp_all
  obtain f where f: "fst (fmtFrac 9 False [] (nat (t mod 10 ^ 9))) = f" "is_fraction 9 (nat (t mod 10 ^ 9)) f"
    using fmtFrac_fraction [of 9 "[]" "nat (t mod 10 ^ 9)"] by (auto simp: nat_less_iff)
  obtain g where g: "fst (fmtFrac 9 False [] (nat (u mod 10 ^ 9))) = g" "is_fraction 9 (nat (u mod 10 ^ 9)) g"
    using fmtFrac_fraction [of 9 "[]" "nat (u mod 10 ^ 9)"] by (auto simp: nat_less_iff)
  have v: "0 \<le> m" "m < 100" "0 \<le> d" "d < 100" "0 \<le> m'" "m' < 100" "0 \<le> d'" "d' < 100"
    using civil_valid [OF 1(2)] civil_valid [OF 2(2)] by (auto simp: month_days_def split: if_splits)
  have s: "0 \<le> a mod 86400" "a mod 86400 < 86400" "0 \<le> b mod 86400" "b mod 86400 < 86400" by simp_all
  have t1: "pad 4 y @ ''-'' @ pad 2 m @ ''-'' @ pad 2 d @ ''T'' @ clock_text (a mod 86400) @ f @ zone_text (zone t) =
      pad 4 y' @ ''-'' @ pad 2 m' @ ''-'' @ pad 2 d' @ ''T'' @ clock_text (b mod 86400) @ g @ zone_text (zone u)"
    using j unfolding rfc3339_text_def Let_def 1(1) [symmetric] 2(1) [symmetric] 1(2) 2(2) prod.case f(1) g(1) .
  note e1 = pad_inj [OF t1 y, simplified]
  then have t2: "pad 2 m @ ''-'' @ pad 2 d @ ''T'' @ clock_text (a mod 86400) @ f @ zone_text (zone t) =
      pad 2 m' @ ''-'' @ pad 2 d' @ ''T'' @ clock_text (b mod 86400) @ g @ zone_text (zone u)" by simp
  note e2 = pad2_inj [OF t2 v(1,2,5,6)]
  then have t3: "pad 2 d @ ''T'' @ clock_text (a mod 86400) @ f @ zone_text (zone t) =
      pad 2 d' @ ''T'' @ clock_text (b mod 86400) @ g @ zone_text (zone u)" by simp
  note e3 = pad2_inj [OF t3 v(3,4,7,8)]
  then have t4: "clock_text (a mod 86400) @ f @ zone_text (zone t) = clock_text (b mod 86400) @ g @ zone_text (zone u)" by simp
  note e4 = clock_inj [OF t4 s]
  note e5 = fraction_inj [OF conjunct2 [OF e4] f(2) g(2)]
  have "a div 86400 = b div 86400"
    using days_of_civil_of_days [of "a div 86400"] days_of_civil_of_days [of "b div 86400"] 1(2) 2(2) e1 e2 e3 by simp
  then have "a = b" using e4 div_mult_mod_eq [of a 86400] div_mult_mod_eq [of b 86400] by metis
  moreover have "zone t = zone u" using zone_inj [OF conjunct2 [OF e5] assms(3,4) o] .
  ultimately have "t div 10 ^ 9 = u div 10 ^ 9" using 1(1) 2(1) by simp
  moreover have "nat (t mod 10 ^ 9) = nat (u mod 10 ^ 9)" using fraction_value f(2) g(2) e5 by metis
  then have "t mod 10 ^ 9 = u mod 10 ^ 9" by (simp add: eq_nat_nat_iff)
  ultimately show ?thesis using div_mult_mod_eq [of t "10 ^ 9"] div_mult_mod_eq [of u "10 ^ 9"] by metis
qed

end
