(* ===== verification/FileStore.thy ===== *)
theory FileStore
  imports Go_OS X509 Go_Calendar
begin

text \<open>
  \<open>internal/store\<close>: the \<open>Store\<close> interface and its implementation over the local filesystem. The
  interface is a record of operations over some state and its contract the locale \<open>cert_store\<close>,
  which speaks of three finite maps from serial numbers: requests, certificates, metadata. The
  operations of \<open>FileStore\<close> are functions on the operating system's state, and the locale is
  interpreted on them: whatever calls fail, a serial's file is the old one or the complete new one.
\<close>

section \<open>The interface\<close>

record metadata =
  md_Requester :: string
  md_RemoteAddr :: string
  md_ReceivedAt :: int

record 'w store_ops =
  st_PutCSR :: "int \<Rightarrow> bytes \<Rightarrow> metadata \<Rightarrow> 'w \<Rightarrow> go_error option \<times> 'w"
  st_PutCertificate :: "int \<Rightarrow> bytes \<Rightarrow> metadata \<Rightarrow> 'w \<Rightarrow> go_error option \<times> 'w"
  st_GetCertificate :: "int \<Rightarrow> 'w \<Rightarrow> x509_cert result \<times> 'w"

text \<open>
  What a client may rely on. A failed \<open>PutCertificate\<close> may have stored the certificate already (its
  metadata is written second); no other failure leaves a trace.
\<close>

locale cert_store =
  fixes S :: "'w store_ops"
    and marshal :: "metadata \<Rightarrow> bytes result"
    and csrs certs metas :: "'w \<Rightarrow> int \<Rightarrow> bytes option"
    and parse :: "bytes \<Rightarrow> x509_cert result"
  assumes PutCSR_ok: "st_PutCSR S n d m w = (None, w') \<Longrightarrow>
      csrs w' = (csrs w)(n \<mapsto> d) \<and> certs w' = certs w \<and> metas w' = metas w"
    and PutCSR_error: "st_PutCSR S n d m w = (Some e, w') \<Longrightarrow>
      csrs w' = csrs w \<and> certs w' = certs w \<and> metas w' = metas w"
    and PutCertificate_ok: "st_PutCertificate S n d m w = (None, w') \<Longrightarrow>
      csrs w' = csrs w \<and> certs w' = (certs w)(n \<mapsto> d) \<and> (\<exists>j. marshal m = Inr j \<and> metas w' = (metas w)(n \<mapsto> j))"
    and PutCertificate_error: "st_PutCertificate S n d m w = (Some e, w') \<Longrightarrow>
      csrs w' = csrs w \<and> (certs w' = certs w \<or> certs w' = (certs w)(n \<mapsto> d)) \<and> metas w' = metas w"
    and GetCertificate_frame: "st_GetCertificate S n w = (r, w') \<Longrightarrow>
      csrs w' = csrs w \<and> certs w' = certs w \<and> metas w' = metas w"
    and GetCertificate_ok: "st_GetCertificate S n w = (Inr c, w') \<Longrightarrow>
      \<exists>d. certs w n = Some d \<and> parse d = Inr c"
begin

lemma get_missing: "certs w n = None \<Longrightarrow> \<exists>e w'. st_GetCertificate S n w = (Inl e, w')"
  using GetCertificate_ok by (cases "st_GetCertificate S n w"; cases "fst (st_GetCertificate S n w)") fastforce+

lemma put_get:
  assumes "st_PutCertificate S n d m w = (None, w')" "st_GetCertificate S n w' = (Inr c, w'')"
  shows "parse d = Inr c"
  using GetCertificate_ok [OF assms(2)] PutCertificate_ok [OF assms(1)] by auto

lemma put_get_other:
  assumes "st_PutCertificate S n d m w = (r, w')" "k \<noteq> n" "st_GetCertificate S k w' = (Inr c, w'')"
  shows "\<exists>d'. certs w k = Some d' \<and> parse d' = Inr c"
proof -
  have "certs w' k = certs w k"
    using assms(1,2) PutCertificate_ok [of n d m w w'] PutCertificate_error [of n d m w _ w']
    by (cases r) auto
  with GetCertificate_ok [OF assms(3)] show ?thesis by simp
qed

text \<open>A put never changes what is stored under another serial number, nor requests and certificates of each other.\<close>

lemma put_csr_frame:
  "st_PutCSR S n d m w = (r, w') \<Longrightarrow> k \<noteq> n \<Longrightarrow> csrs w' k = csrs w k \<and> certs w' = certs w"
  using PutCSR_ok [of n d m w w'] PutCSR_error [of n d m w _ w'] by (cases r) auto

lemma put_cert_frame:
  "st_PutCertificate S n d m w = (r, w') \<Longrightarrow> k \<noteq> n \<Longrightarrow> certs w' k = certs w k \<and> csrs w' = csrs w"
  using PutCertificate_ok [of n d m w w'] PutCertificate_error [of n d m w _ w'] by (cases r) auto

end

section \<open>The file store\<close>

definition NewFileStore :: "string \<Rightarrow> (string result, 'z) os_call" where
  "NewFileStore dir w =
     (case os_MkdirAll dir perm_750 w of
        (Some e, w) \<Rightarrow> (Inl (ErrWrap ''store: create %s: %w'' [FStr dir] e), w)
      | (None, w) \<Rightarrow> (Inr dir, w))"

definition serialHex :: "int \<Rightarrow> string" where
  "serialHex serial = sprintf_040x serial"

definition csrPath :: "string \<Rightarrow> int \<Rightarrow> string" where
  "csrPath dir serial = path_Join [dir, ''csrs'', serialHex serial @ ''.der'']"

definition certPath :: "string \<Rightarrow> int \<Rightarrow> string" where
  "certPath dir serial = path_Join [dir, ''certs'', serialHex serial @ ''.der'']"

definition certMetaPath :: "string \<Rightarrow> int \<Rightarrow> string" where
  "certMetaPath dir serial = path_Join [dir, ''certs'', serialHex serial @ ''.json'']"

text \<open>The part of \<open>writeFileAtomic\<close> that works on the open temporary file.\<close>

definition fill_and_rename :: "string \<Rightarrow> string \<Rightarrow> bytes \<Rightarrow> nat \<Rightarrow> (go_error option, 'z) os_call" where
  "fill_and_rename tmpPath path d perm w =
     (case os_Write tmpPath d w of
        (Some e, w) \<Rightarrow>
          (let (_, w) = os_Close tmpPath w in (Some (ErrWrap ''write %s: %w'' [FStr tmpPath] e), w))
      | (None, w) \<Rightarrow>
     (case os_Close tmpPath w of
        (Some e, w) \<Rightarrow> (Some (ErrWrap ''close %s: %w'' [FStr tmpPath] e), w)
      | (None, w) \<Rightarrow>
     (case os_Chmod tmpPath perm w of
        (Some e, w) \<Rightarrow> (Some (ErrWrap ''chmod %s: %w'' [FStr tmpPath] e), w)
      | (None, w) \<Rightarrow>
     (case os_Rename tmpPath path w of
        (Some e, w) \<Rightarrow> (Some (ErrWrap ''rename %s to %s: %w'' [FStr tmpPath, FStr path] e), w)
      | (None, w) \<Rightarrow> (None, w)))))"

text \<open>The deferred \<open>os.Remove\<close> runs whatever the outcome, and its error is ignored.\<close>

definition writeFileAtomic :: "string \<Rightarrow> bytes \<Rightarrow> nat \<Rightarrow> (go_error option, 'z) os_call" where
  "writeFileAtomic path d perm w =
     (let dir = path_Dir path in
      case os_MkdirAll dir perm_750 w of
        (Some e, w) \<Rightarrow> (Some (ErrWrap ''create %s: %w'' [FStr dir] e), w)
      | (None, w) \<Rightarrow>
     (case os_CreateTemp dir (path_Base path @ ''.tmp-*'') w of
        (Inl e, w) \<Rightarrow> (Some (ErrWrap ''create temp file: %w'' [] e), w)
      | (Inr tmpPath, w) \<Rightarrow>
          (let (r, w) = fill_and_rename tmpPath path d perm w;
               (_, w) = os_Remove tmpPath w
           in (r, w))))"

definition PutCSR :: "string \<Rightarrow> int \<Rightarrow> bytes \<Rightarrow> metadata \<Rightarrow> (go_error option, 'z) os_call" where
  "PutCSR dir serial csrDER meta w = writeFileAtomic (csrPath dir serial) csrDER perm_640 w"

text \<open>
  The document of the metadata; the time is written in the local zone, whose offset from UTC at an instant is the
  argument \<open>zone\<close>.
\<close>

definition metadata_json :: "string \<Rightarrow> string \<Rightarrow> json \<Rightarrow> json" where
  "metadata_json requester address time =
     JObject [(''Requester'', JString requester), (''RemoteAddr'', JString address), (''ReceivedAt'', time)]"

definition marshal_metadata :: "(int \<Rightarrow> int) \<Rightarrow> metadata \<Rightarrow> bytes result" where
  "marshal_metadata zone meta =
     (case Time_MarshalJSON zone (md_ReceivedAt meta) of
        Inl e \<Rightarrow> Inl (ErrWrap ''json: error calling MarshalJSON for type %s: %w'' [FStr ''time.Time''] e)
      | Inr t \<Rightarrow> json_MarshalIndent ''  '' (metadata_json (md_Requester meta) (md_RemoteAddr meta) t))"

definition PutCertificate ::
  "(int \<Rightarrow> int) \<Rightarrow> string \<Rightarrow> int \<Rightarrow> bytes \<Rightarrow> metadata \<Rightarrow> (go_error option, 'z) os_call" where
  "PutCertificate zone dir serial certDER meta w =
     (case writeFileAtomic (certPath dir serial) certDER perm_640 w of
        (Some e, w) \<Rightarrow> (Some e, w)
      | (None, w) \<Rightarrow>
     (case marshal_metadata zone meta of
        Inl e \<Rightarrow> (Some (ErrWrap ''marshal metadata: %w'' [] e), w)
      | Inr metaJSON \<Rightarrow> writeFileAtomic (certMetaPath dir serial) metaJSON perm_640 w))"

definition GetCertificate ::
  "(bytes \<Rightarrow> x509_cert result) \<Rightarrow> string \<Rightarrow> int \<Rightarrow> (x509_cert result, 'z) os_call" where
  "GetCertificate parse dir serial w =
     (case os_ReadFile (certPath dir serial) w of
        (Inl e, w) \<Rightarrow> (Inl (ErrWrap ''read certificate: %w'' [] e), w)
      | (Inr d, w) \<Rightarrow> (wrap_err ''parse certificate: %w'' [] (parse d), w))"

definition file_store ::
  "(int \<Rightarrow> int) \<Rightarrow> (bytes \<Rightarrow> x509_cert result) \<Rightarrow> string \<Rightarrow> 'z os_world_scheme store_ops" where
  "file_store zone parse dir = \<lparr>
     st_PutCSR = PutCSR dir,
     st_PutCertificate = PutCertificate zone dir,
     st_GetCertificate = GetCertificate parse dir \<rparr>"

section \<open>Names\<close>

text \<open>The digits of a serial number, with the zeros in front.\<close>

definition serial_digits :: "nat \<Rightarrow> nat \<Rightarrow> nat list" where
  "serial_digits k n = replicate (k - length (radix 16 n)) 0 @ radix 16 n"

lemma serial_digits_small: "d \<in> set (serial_digits k n) \<Longrightarrow> d < 16"
  using radix_digits [of 16 d n] by (auto simp: serial_digits_def split: if_splits)

lemma serial_digits_value [simp]: "radix_val 16 (serial_digits k n) = n"
  by (simp add: serial_digits_def)

lemma hex_digit_zero: "hex_digit 0 = CHR ''0''"
  by code_simp

lemma serialHex_digits:
  "serialHex n = (if n < 0 then CHR ''-'' # map hex_digit (serial_digits 39 (nat (- n)))
                  else map hex_digit (serial_digits 40 (nat n)))"
  by (simp add: serialHex_def sprintf_040x_def Let_def hex_nat_def serial_digits_def hex_digit_zero)

lemma serialHex_nonempty [simp]: "serialHex n \<noteq> []"
  by (simp add: serialHex_digits serial_digits_def)

lemma hex_digit_code: "d < 16 \<Longrightarrow> 48 \<le> (of_char (hex_digit d) :: nat)"
  by (simp add: of_char_hex_digit)

lemma serialHex_chars: "c \<in> set (serialHex n) \<Longrightarrow> c = CHR ''-'' \<or> 48 \<le> (of_char c :: nat)"
  using hex_digit_code serial_digits_small by (auto simp: serialHex_digits split: if_splits)

lemma serialHex_no: "CHR ''/'' \<notin> set (serialHex n)" "CHR ''.'' \<notin> set (serialHex n)"
  using serialHex_chars [of "CHR ''/''" n] serialHex_chars [of "CHR ''.''" n] by auto

lemma map_hex_digit_inj:
  assumes "map hex_digit ds = map hex_digit es" "\<forall>d\<in>set ds. d < 16" "\<forall>d\<in>set es. d < 16"
  shows "ds = es"
proof -
  have "map (the \<circ> hex_val) (map hex_digit xs) = xs" if "\<forall>d\<in>set xs. d < 16" for xs
    using that by (simp add: map_idI)
  then show ?thesis using assms by metis
qed

lemma serialHex_inj: "serialHex m = serialHex n \<longleftrightarrow> m = n"
proof
  assume eq: "serialHex m = serialHex n"
  have small: "\<forall>d\<in>set (serial_digits k j). d < 16" for k j using serial_digits_small by blast
  have same: "map hex_digit (serial_digits k i) = map hex_digit (serial_digits k j) \<Longrightarrow> i = j" for k i j
    using map_hex_digit_inj [OF _ small small] by (metis serial_digits_value)
  have no: "map hex_digit (serial_digits k j) \<noteq> CHR ''-'' # cs" for k j cs
  proof
    assume "map hex_digit (serial_digits k j) = CHR ''-'' # cs"
    then obtain d where "d \<in> set (serial_digits k j)" "hex_digit d = CHR ''-''"
      by (metis imageE list.set_intros(1) list.set_map)
    with serial_digits_small hex_digit_code [of d] show False by auto
  qed
  show "m = n"
  proof (cases "m < 0"; cases "n < 0")
    assume "m < 0" "n < 0"
    with eq same [of 39 "nat (- m)" "nat (- n)"] show ?thesis by (simp add: serialHex_digits)
  next
    assume "\<not> m < 0" "\<not> n < 0"
    with eq same [of 40 "nat m" "nat n"] show ?thesis by (simp add: serialHex_digits)
  next
    assume "m < 0" "\<not> n < 0"
    with eq no show ?thesis by (metis serialHex_digits)
  next
    assume "\<not> m < 0" "n < 0"
    with eq no show ?thesis by (metis serialHex_digits)
  qed
qed simp

lemma digits_order:
  "length ds = length es \<Longrightarrow> \<forall>d\<in>set ds. d < 16 \<Longrightarrow> \<forall>d\<in>set es. d < 16 \<Longrightarrow>
     map hex_digit ds < map hex_digit es \<longleftrightarrow> radix_val 16 ds < radix_val 16 es"
proof (induction ds es rule: list_induct2)
  case (Cons d ds e es)
  have "radix_val 16 ds < 16 ^ length es" "radix_val 16 es < 16 ^ length es"
    using Cons radix_val_less [of ds 16] radix_val_less [of es 16] by auto
  moreover have "d * P + a < e * P + b \<longleftrightarrow> d < e \<or> d = e \<and> a < b" if "a < P" "b < P" for a b P :: nat
  proof -
    have "d * P + a < e * P + b" if "d < e"
    proof -
      have "Suc d * P \<le> e * P" using that by (intro mult_le_mono1) simp
      with \<open>a < P\<close> show ?thesis by simp
    qed
    moreover have "e * P + b < d * P + a" if "e < d"
    proof -
      have "Suc e * P \<le> d * P" using that by (intro mult_le_mono1) simp
      with \<open>b < P\<close> show ?thesis by simp
    qed
    ultimately show ?thesis by (cases d e rule: linorder_cases) auto
  qed
  ultimately show ?case
    using Cons by (simp add: radix_val_Cons hex_digit_less hex_digit_inj)
qed simp

lemma serial_digits_length: "0 < k \<Longrightarrow> n < 16 ^ k \<Longrightarrow> length (serial_digits k n) = k"
  using radix_length_iff [of 16 k n] by (simp add: serial_digits_def)

lemma serialHex_length: "0 \<le> n \<Longrightarrow> length (serialHex n) = 40 \<longleftrightarrow> n < 2 ^ 160"
proof -
  assume n: "0 \<le> n"
  have "length (serial_digits 40 (nat n)) = 40 \<longleftrightarrow> length (radix 16 (nat n)) \<le> 40"
    by (auto simp: serial_digits_def)
  also have "\<dots> \<longleftrightarrow> nat n < 16 ^ 40" by (rule radix_length_iff) simp_all
  also have "\<dots> \<longleftrightarrow> n < 2 ^ 160" using n by (simp add: nat_less_iff)
  finally show ?thesis using n by (simp add: serialHex_digits)
qed

lemma serialHex_order:
  assumes "0 \<le> m" "m < 2 ^ 160" "0 \<le> n" "n < 2 ^ 160"
  shows "serialHex m < serialHex n \<longleftrightarrow> m < n"
proof -
  have "nat m < 16 ^ 40" "nat n < 16 ^ 40" using assms by (simp_all add: nat_less_iff)
  then have l: "map hex_digit (serial_digits 40 (nat m)) < map hex_digit (serial_digits 40 (nat n)) \<longleftrightarrow>
      nat m < nat n"
    using digits_order [of "serial_digits 40 (nat m)" "serial_digits 40 (nat n)"] serial_digits_small
    by (simp add: serial_digits_length)
  note l
  also have "\<dots> \<longleftrightarrow> m < n" using assms by (intro nat_less_eq_zless)
  finally show ?thesis using assms by (simp only: serialHex_digits not_less [symmetric] if_False)
qed

text \<open>The paths of a store.\<close>

lemma plain_file: "plain_element (serialHex n @ CHR ''.'' # a # b)"
  if "CHR ''/'' \<notin> set (a # b)"
proof -
  have "hd (serialHex n) \<noteq> CHR ''.''"
    using serialHex_no(2) [of n] serialHex_nonempty [of n] by (metis hd_in_set)
  then show ?thesis using that serialHex_no(1) [of n]
    by (cases "serialHex n") (auto simp: plain_element_def)
qed

lemma store_paths:
  "csrPath dir n = path_prefix dir @ ''csrs/'' @ serialHex n @ ''.der''"
  "certPath dir n = path_prefix dir @ ''certs/'' @ serialHex n @ ''.der''"
  "certMetaPath dir n = path_prefix dir @ ''certs/'' @ serialHex n @ ''.json''"
  using plain_file [of "CHR ''d''" "''er''" n] plain_file [of "CHR ''j''" "''son''" n]
  by (simp_all add: csrPath_def certPath_def certMetaPath_def path_Join_three plain_element_def del: path_Join.simps)

lemma certPath_inj: "certPath dir m = certPath dir n \<longleftrightarrow> m = n"
  by (simp add: store_paths serialHex_inj)

lemma csrPath_inj: "csrPath dir m = csrPath dir n \<longleftrightarrow> m = n"
  by (simp add: store_paths serialHex_inj)

lemma certMetaPath_inj: "certMetaPath dir m = certMetaPath dir n \<longleftrightarrow> m = n"
  by (simp add: store_paths serialHex_inj)

lemma paths_differ:
  "csrPath dir m \<noteq> certPath dir n" "csrPath dir m \<noteq> certMetaPath dir n"
  "certPath dir m \<noteq> certMetaPath dir n"
proof -
  have "last (certPath dir m) \<noteq> last (certMetaPath dir n)" by (simp add: store_paths)
  then show "certPath dir m \<noteq> certMetaPath dir n" by metis
qed (simp_all add: store_paths)

lemmas path_facts = certPath_inj csrPath_inj certMetaPath_inj paths_differ paths_differ [symmetric]

text \<open>A temporary file is never one of these: its name ends in a digit.\<close>

definition ends_in_digit :: "string \<Rightarrow> bool" where
  "ends_in_digit p = (p \<noteq> [] \<and> digit_val (last p) \<noteq> None)"

lemma dec_nat_last: "dec_nat k \<noteq> [] \<and> digit_val (last (dec_nat k)) \<noteq> None"
proof -
  have d: "last (radix 10 k) < 10" using radix_digits [of 10 "last (radix 10 k)" k] by simp
  have "(of_char (char_of (48 + d) :: char) :: int) = int (48 + d)" if "d < 10" for d :: nat
  proof -
    have "(of_char (char_of (48 + d) :: char) :: nat) = 48 + d" using that by simp
    then show ?thesis by (metis of_nat_of_char)
  qed
  with d show ?thesis
    by (simp add: dec_nat_def last_map digit_val_def Let_def)
qed

lemma temp_name_digit: "ends_in_digit (temp_join dir (pre @ dec_nat k))"
  using dec_nat_last [of k] by (auto simp: ends_in_digit_def temp_join_def)

lemma store_path_no_digit:
  "\<not> ends_in_digit (csrPath dir n)" "\<not> ends_in_digit (certPath dir n)"
  "\<not> ends_in_digit (certMetaPath dir n)"
  by (simp_all add: store_paths ends_in_digit_def digit_val_def)

section \<open>Atomic replacement\<close>

lemma fill_and_rename_result:
  assumes r: "fill_and_rename tmp path d perm w = (r, w')"
    and f: "w_files w tmp = Some f" "f_data f = []" and ne: "tmp \<noteq> path"
  shows "w_env w' = w_env w \<and>
    (if r = None then w_files w' = (w_files w)(tmp := None, path \<mapsto> \<lparr> f_data = d, f_perm = perm \<rparr>)
     else \<exists>x. w_files w' = (w_files w)(tmp \<mapsto> x))"
proof -
  obtain r1 w1 where 1: "os_Write tmp d w = (r1, w1)" by (cases "os_Write tmp d w")
  obtain r2 w2 where 2: "os_Close tmp w1 = (r2, w2)" by (cases "os_Close tmp w1")
  obtain r3 w3 where 3: "os_Chmod tmp perm w2 = (r3, w3)" by (cases "os_Chmod tmp perm w2")
  obtain r4 w4 where 4: "os_Rename tmp path w3 = (r4, w4)" by (cases "os_Rename tmp path w3")
  from os_Write_file [OF 1 f(1)] obtain d' where
    w1: "w_files w1 = (w_files w)(tmp \<mapsto> f \<lparr> f_data := d' \<rparr>)" "w_env w1 = w_env w"
    and d': "r1 = None \<longrightarrow> d' = d" using f(2) by auto
  have w2: "w_files w2 = (w_files w)(tmp \<mapsto> f \<lparr> f_data := d' \<rparr>)" "w_env w2 = w_env w"
    using os_Close_frame [OF 2] w1 by simp_all
  have w3: "w_files w3 = (w_files w)(tmp \<mapsto> (if r3 = None then f \<lparr> f_data := d', f_perm := perm \<rparr>
      else f \<lparr> f_data := d' \<rparr>))" "w_env w3 = w_env w"
    using os_Chmod_file [OF 3, of "f \<lparr> f_data := d' \<rparr>"] w2 by auto
  have w4: "w_files w4 = (if r4 = None then (w_files w)(tmp := None, path \<mapsto>
        (if r3 = None then f \<lparr> f_data := d', f_perm := perm \<rparr> else f \<lparr> f_data := d' \<rparr>)) else w_files w3)"
    "w_env w4 = w_env w"
    using os_Rename_file [OF 4, of "if r3 = None then f \<lparr> f_data := d', f_perm := perm \<rparr>
        else f \<lparr> f_data := d' \<rparr>"] w3 by auto
  have full: "f \<lparr> f_data := d, f_perm := perm \<rparr> = \<lparr> f_data = d, f_perm = perm \<rparr>" by simp
  show ?thesis
  proof (cases "r1 = None \<and> r2 = None \<and> r3 = None \<and> r4 = None")
    case True
    then have "r = None" "w' = w4" using r 1 2 3 4 by (simp_all add: fill_and_rename_def)
    then show ?thesis using w4 d' True full by simp
  next
    case False
    then have "r \<noteq> None \<and> (w' = w2 \<or> w' = w3 \<or> w' = w4 \<and> r4 \<noteq> None)"
      using r 1 2 3 4 by (auto simp: fill_and_rename_def split: option.splits)
    then show ?thesis using w2 w3 w4 by auto
  qed
qed

lemma os_CreateTemp_result:
  assumes "os_CreateTemp dir (base @ ''.tmp-*'') w = (r, w')"
  shows "w_env w' = w_env w \<and>
     (case r of
        Inl e \<Rightarrow> w_files w' = w_files w
      | Inr p \<Rightarrow> w_files w p = None \<and> ends_in_digit p \<and>
                 w_files w' = (w_files w)(p \<mapsto> \<lparr> f_data = [], f_perm = perm_600 \<rparr>))"
proof -
  have "temp_parts (base @ ''.tmp-*'') = (base @ ''.tmp-'', [])" by (simp add: temp_parts_def)
  with assms temp_name_digit [of dir "base @ ''.tmp-''"] show ?thesis
    by (cases r) (auto simp: os_CreateTemp_def split: if_splits dest!: create_temp_result)
qed

text \<open>
  What \<open>writeFileAtomic\<close> does to the files, whatever the environment: all or nothing on the target,
  nothing on any other file but a temporary one.
\<close>

lemma writeFileAtomic_result:
  assumes r: "writeFileAtomic path d perm w = (r, w')" and p: "\<not> ends_in_digit path"
  shows "w_env w' = w_env w \<and>
    (if r = None then w_files w' = (w_files w)(path \<mapsto> \<lparr> f_data = d, f_perm = perm \<rparr>)
     else w_files w' = w_files w \<or>
       (\<exists>tmp x. ends_in_digit tmp \<and> w_files w tmp = None \<and> w_files w' = (w_files w)(tmp := x)))"
proof -
  obtain r1 w1 where 1: "os_MkdirAll (path_Dir path) perm_750 w = (r1, w1)"
    by (cases "os_MkdirAll (path_Dir path) perm_750 w")
  have w1: "w_files w1 = w_files w" "w_env w1 = w_env w" using os_MkdirAll_frame [OF 1] by simp_all
  obtain r2 w2 where 2: "os_CreateTemp (path_Dir path) (path_Base path @ ''.tmp-*'') w1 = (r2, w2)"
    by (cases "os_CreateTemp (path_Dir path) (path_Base path @ ''.tmp-*'') w1")
  show ?thesis
  proof (cases "r1 = None \<and> (\<exists>tmp. r2 = Inr tmp)")
    case False
    then have "r \<noteq> None" "w' = w1 \<or> w' = w2 \<and> (\<exists>e. r2 = Inl e)"
      using r 1 2 by (auto simp: writeFileAtomic_def Let_def split: option.splits sum.splits)
    moreover have "w_files w2 = w_files w \<and> w_env w2 = w_env w" if "r2 = Inl e" for e
      using os_CreateTemp_result [OF 2] that w1 by simp
    ultimately have "w_files w' = w_files w" "w_env w' = w_env w" using w1 by auto
    then show ?thesis using \<open>r \<noteq> None\<close> by auto
  next
    case True
    then obtain tmp where tmp: "r1 = None" "r2 = Inr tmp" by blast
    from os_CreateTemp_result [OF 2] tmp w1 have t: "w_env w2 = w_env w \<and> w_files w tmp = None \<and>
        w_files w2 = (w_files w)(tmp \<mapsto> \<lparr> f_data = [], f_perm = perm_600 \<rparr>) \<and> ends_in_digit tmp"
      by simp
    then have ne: "tmp \<noteq> path" using p by blast
    obtain r3 w3 where 3: "fill_and_rename tmp path d perm w2 = (r3, w3)"
      by (cases "fill_and_rename tmp path d perm w2")
    have f: "w_files w2 tmp = Some \<lparr> f_data = [], f_perm = perm_600 \<rparr>" using t by simp
    note w3 = fill_and_rename_result [OF 3 f _ ne, simplified]
    obtain r4 w4 where 4: "os_Remove tmp w3 = (r4, w4)" by (cases "os_Remove tmp w3")
    have "r = r3" "w' = w4" using r 1 2 3 4 tmp by (auto simp: writeFileAtomic_def Let_def)
    moreover have "w_files w4 = w_files w3 \<or> w_files w4 = (w_files w3)(tmp := None)" "w_env w4 = w_env w3"
      using os_Remove_file [OF 4] by auto
    moreover have "(w_files w)(tmp := None) = w_files w" using t by auto
    moreover have "\<exists>x. w_files w4 = (w_files w)(tmp := x)" if "r3 \<noteq> None"
    proof -
      from that w3 t obtain x where "w_files w3 = (w_files w)(tmp := x)" by auto
      with calculation(3) have "w_files w4 = (w_files w)(tmp := x) \<or> w_files w4 = (w_files w)(tmp := None)"
        by auto
      then show ?thesis by blast
    qed
    ultimately show ?thesis using w3 t ne by (cases "r3 = None") (auto simp: fun_upd_twist)
  qed
qed

section \<open>The store's contract\<close>

text \<open>What is stored under a serial number.\<close>

definition stored :: "(int \<Rightarrow> string) \<Rightarrow> 'z os_world_scheme \<Rightarrow> int \<Rightarrow> bytes option" where
  "stored path w n = map_option f_data (w_files w (path n))"

definition store_name :: "string \<Rightarrow> string \<Rightarrow> bool" where
  "store_name dir p = (\<exists>n. p \<in> {csrPath dir n, certPath dir n, certMetaPath dir n})"

lemma store_name_no_digit: "store_name dir p \<Longrightarrow> \<not> ends_in_digit p"
  by (auto simp: store_name_def store_path_no_digit)

lemma store_names [simp]:
  "store_name dir (csrPath dir n)" "store_name dir (certPath dir n)" "store_name dir (certMetaPath dir n)"
  by (auto simp: store_name_def)

lemma write_ok:
  "writeFileAtomic p d perm w = (None, w') \<Longrightarrow> store_name dir p \<Longrightarrow>
     w_files w' = (w_files w)(p \<mapsto> \<lparr> f_data = d, f_perm = perm \<rparr>)"
  using writeFileAtomic_result [of p d perm w None w'] store_name_no_digit by simp

lemma write_error:
  "writeFileAtomic p d perm w = (Some e, w') \<Longrightarrow> store_name dir p \<Longrightarrow> store_name dir q \<Longrightarrow>
     w_files w' q = w_files w q"
  using writeFileAtomic_result [of p d perm w "Some e" w'] store_name_no_digit by fastforce

lemma stored_error:
  "writeFileAtomic p d perm w = (Some e, w') \<Longrightarrow> store_name dir p \<Longrightarrow>
     stored (csrPath dir) w' = stored (csrPath dir) w \<and>
     stored (certPath dir) w' = stored (certPath dir) w \<and>
     stored (certMetaPath dir) w' = stored (certMetaPath dir) w"
  by (auto simp: stored_def fun_eq_iff write_error)

lemma stored_ok:
  assumes "writeFileAtomic p d perm w = (None, w')"
  shows "p = csrPath dir n \<Longrightarrow> stored (csrPath dir) w' = (stored (csrPath dir) w)(n \<mapsto> d) \<and>
      stored (certPath dir) w' = stored (certPath dir) w \<and>
      stored (certMetaPath dir) w' = stored (certMetaPath dir) w"
    and "p = certPath dir n \<Longrightarrow> stored (csrPath dir) w' = stored (csrPath dir) w \<and>
      stored (certPath dir) w' = (stored (certPath dir) w)(n \<mapsto> d) \<and>
      stored (certMetaPath dir) w' = stored (certMetaPath dir) w"
    and "p = certMetaPath dir n \<Longrightarrow> stored (csrPath dir) w' = stored (csrPath dir) w \<and>
      stored (certPath dir) w' = stored (certPath dir) w \<and>
      stored (certMetaPath dir) w' = (stored (certMetaPath dir) w)(n \<mapsto> d)"
  using assms by (auto simp: stored_def fun_eq_iff path_facts dest!: write_ok [of _ _ _ _ _ dir])

interpretation fs: cert_store "file_store zone parse dir" "marshal_metadata zone" "stored (csrPath dir)" "stored (certPath dir)"
  "stored (certMetaPath dir)" parse
proof
  fix n d m w w' e
  show "st_PutCSR (file_store zone parse dir) n d m w = (None, w') \<Longrightarrow>
      stored (csrPath dir) w' = (stored (csrPath dir) w)(n \<mapsto> d) \<and>
      stored (certPath dir) w' = stored (certPath dir) w \<and>
      stored (certMetaPath dir) w' = stored (certMetaPath dir) w"
    by (simp add: file_store_def PutCSR_def stored_ok(1))
  show "st_PutCSR (file_store zone parse dir) n d m w = (Some e, w') \<Longrightarrow>
      stored (csrPath dir) w' = stored (csrPath dir) w \<and>
      stored (certPath dir) w' = stored (certPath dir) w \<and>
      stored (certMetaPath dir) w' = stored (certMetaPath dir) w"
    by (rule stored_error [of "csrPath dir n" d perm_640]) (simp_all add: file_store_def PutCSR_def)
  show "st_PutCertificate (file_store zone parse dir) n d m w = (None, w') \<Longrightarrow>
      stored (csrPath dir) w' = stored (csrPath dir) w \<and>
      stored (certPath dir) w' = (stored (certPath dir) w)(n \<mapsto> d) \<and>
      (\<exists>j. marshal_metadata zone m = Inr j \<and> stored (certMetaPath dir) w' = (stored (certMetaPath dir) w)(n \<mapsto> j))"
    by (auto simp: file_store_def PutCertificate_def split: prod.splits option.splits sum.splits
        dest!: stored_ok(2) [OF _ refl] stored_ok(3) [OF _ refl])
  show "st_PutCertificate (file_store zone parse dir) n d m w = (Some e, w') \<Longrightarrow>
      stored (csrPath dir) w' = stored (csrPath dir) w \<and>
      (stored (certPath dir) w' = stored (certPath dir) w \<or>
       stored (certPath dir) w' = (stored (certPath dir) w)(n \<mapsto> d)) \<and>
      stored (certMetaPath dir) w' = stored (certMetaPath dir) w"
    by (auto simp: file_store_def PutCertificate_def split: prod.splits option.splits sum.splits
        dest!: stored_ok(2) [OF _ refl] stored_error [where dir = dir])
next
  fix n w w' r c
  show "st_GetCertificate (file_store zone parse dir) n w = (r, w') \<Longrightarrow>
      stored (csrPath dir) w' = stored (csrPath dir) w \<and>
      stored (certPath dir) w' = stored (certPath dir) w \<and>
      stored (certMetaPath dir) w' = stored (certMetaPath dir) w"
    by (auto simp: file_store_def GetCertificate_def stored_def fun_eq_iff split: prod.splits sum.splits
        dest!: os_ReadFile_frame)
  show "st_GetCertificate (file_store zone parse dir) n w = (Inr c, w') \<Longrightarrow>
      \<exists>d. stored (certPath dir) w n = Some d \<and> parse d = Inr c"
    by (auto simp: file_store_def GetCertificate_def stored_def os_ReadFile_def
        split: prod.splits sum.splits option.splits)
qed

section \<open>The metadata\<close>

text \<open>The JSON reader reads the document back; so it says all that the metadata says.\<close>

lemma metadata_read:
  assumes "marshal_metadata zone m = Inr d" "utf8_valid (md_Requester m)" "utf8_valid (md_RemoteAddr m)"
  shows "\<exists>t. Time_MarshalJSON zone (md_ReceivedAt m) = Inr t \<and>
     json_parse d = Inr (metadata_json (md_Requester m) (md_RemoteAddr m) t)"
proof -
  from assms(1) obtain t where t: "Time_MarshalJSON zone (md_ReceivedAt m) = Inr t"
    "d = bytes_of (json_indented ''  '' (metadata_json (md_Requester m) (md_RemoteAddr m) t))"
    by (auto simp: marshal_metadata_def json_MarshalIndent_def split: sum.splits)
  obtain s where s: "t = JString s" "utf8_valid s" using Time_MarshalJSON_text [OF t(1)] by blast
  have "json_fits 10000 (metadata_json (md_Requester m) (md_RemoteAddr m) t)"
    using assms(2,3) s by (simp add: metadata_json_def utf8_literal byte_code_def)
  with t show ?thesis by (simp add: json_parse_indented json_space_def)
qed

lemma marshal_at_epoch: "md_ReceivedAt m = 0 \<Longrightarrow> \<exists>d. marshal_metadata (\<lambda>_. 0) m = Inr d"
proof -
  have "civil_of_days 0 = (1970, 1, 1)" by code_simp
  then show "md_ReceivedAt m = 0 \<Longrightarrow> ?thesis"
    by (simp add: marshal_metadata_def Time_MarshalJSON_def json_MarshalIndent_def)
qed

section \<open>Properties\<close>

text \<open>A disk on which the rename of the first file written fails.\<close>

definition failing_world :: os_world where
  "failing_world = empty_world \<lparr> w_env := quiet_env \<lparr>
     ev_fault := (\<lambda>t. if t = 5 then Some (ErrVar ''syscall.EIO'') else None) \<rparr> \<rparr>"

lemma example_paths:
  "csrPath ''db'' 1 = ''db/csrs/0000000000000000000000000000000000000001.der''"
  "path_Dir ''db/csrs/0000000000000000000000000000000000000001.der'' = ''db/csrs''"
  "path_Base ''db/csrs/0000000000000000000000000000000000000001.der'' =
     ''0000000000000000000000000000000000000001.der''"
  "path_prefixes ''db/csrs'' = [''db'', ''db/csrs'']"
  "dec_nat 1 = ''1''"
  by code_simp+

text \<open>
  C10: \<open>writeFileAtomic\<close> on a store file is all or nothing, whichever system calls fail and however far
  they got: when it returns no error the file holds exactly the data with the given mode and every
  other file is untouched (the temporary file is gone); when it returns an error, no store file has
  changed.
\<close>

theorem writeFileAtomic_all_or_nothing:
  assumes "writeFileAtomic p d perm w = (r, w')" and "store_name dir p"
  shows "case r of
      None \<Rightarrow> w_files w' = (w_files w)(p \<mapsto> \<lparr> f_data = d, f_perm = perm \<rparr>)
    | Some e \<Rightarrow> \<forall>q. store_name dir q \<longrightarrow> w_files w' q = w_files w q"
  using assms write_ok write_error by (auto split: option.splits)

lemma writeFileAtomic_all_or_nothing_witness:
  "w_files (snd (writeFileAtomic (csrPath ''db'' 1) [1, 2] perm_640 failing_world)) (csrPath ''db'' 1) = None"
proof -
  have e: "\<exists>e. fst (writeFileAtomic (csrPath ''db'' 1) [1, 2] perm_640 failing_world) = Some e"
    by (simp add: example_paths writeFileAtomic_def fill_and_rename_def os_MkdirAll_def os_CreateTemp_def
        create_temp.simps temp_parts_def temp_join_def os_Write_def os_Close_def os_Chmod_def os_Rename_def
        os_Remove_def os_fault_def failing_world_def empty_world_def quiet_env_def Let_def)
  show ?thesis
    using writeFileAtomic_all_or_nothing [of "csrPath ''db'' 1" "[1, 2]" perm_640 failing_world _ _ "''db''",
        OF surjective_pairing] e
    by (auto simp: failing_world_def empty_world_def)
qed


lemma example_cert_paths:
  "certPath ''db'' 1 = ''db/certs/0000000000000000000000000000000000000001.der''"
  "certPath ''db'' 2 = ''db/certs/0000000000000000000000000000000000000002.der''"
  "path_Dir ''db/certs/0000000000000000000000000000000000000001.der'' = ''db/certs''"
  "path_Dir ''db/certs/0000000000000000000000000000000000000002.der'' = ''db/certs''"
  "path_Base ''db/certs/0000000000000000000000000000000000000001.der'' =
     ''0000000000000000000000000000000000000001.der''"
  "path_Base ''db/certs/0000000000000000000000000000000000000002.der'' =
     ''0000000000000000000000000000000000000002.der''"
  "certMetaPath ''db'' 1 = ''db/certs/0000000000000000000000000000000000000001.json''"
  "path_Dir ''db/certs/0000000000000000000000000000000000000001.json'' = ''db/certs''"
  "path_Base ''db/certs/0000000000000000000000000000000000000001.json'' =
     ''0000000000000000000000000000000000000001.json''"
  "path_prefixes ''db/certs'' = [''db'', ''db/certs'']"
  "dec_nat 8 = ''8''"
  by code_simp+

text \<open>The second write fails at once, because its directory cannot be made.\<close>

definition second_fails :: os_world where
  "second_fails = empty_world \<lparr> w_env := quiet_env \<lparr>
     ev_fault := (\<lambda>t. if t = 14 then Some (ErrVar ''syscall.EIO'') else None) \<rparr> \<rparr>"

definition demo_meta :: metadata where
  "demo_meta = \<lparr> md_Requester = ''a'', md_RemoteAddr = ''127.0.0.1:9'', md_ReceivedAt = 0 \<rparr>"


text \<open>
  File names identify certificates: \<open>serialHex\<close> is injective on all integers, has 40 characters for
  exactly the non-negative serial numbers below \<open>2 ^ 160\<close>, and orders those as numbers, so that a
  directory listing is sorted by serial number.
\<close>

lemma serial_names:
  assumes "0 \<le> m" "m < 2 ^ 160" "0 \<le> n"
  shows "(serialHex a = serialHex b \<longleftrightarrow> a = b) \<and> (length (serialHex n) = 40 \<longleftrightarrow> n < 2 ^ 160) \<and>
     (n < 2 ^ 160 \<longrightarrow> (serialHex m < serialHex n \<longleftrightarrow> m < n))"
  using serialHex_inj serialHex_length [OF assms(3)] serialHex_order [OF assms] by blast

text \<open>
  C27: The metadata file of a certificate says who asked for it, from where and when, and nothing of that is lost: the
  JSON reader reads back the requester and the address, and two metadata with the same file contents are the same
  metadata, to the nanosecond, as long as the names are UTF-8 and the offset of the local zone is in whole minutes.
\<close>

theorem metadata_kept:
  assumes "marshal_metadata zone m = Inr d" "utf8_valid (md_Requester m)" "utf8_valid (md_RemoteAddr m)"
  shows "(\<exists>t. json_parse d = Inr (metadata_json (md_Requester m) (md_RemoteAddr m) (JString t))) \<and>
     (marshal_metadata zone m' = Inr d \<and> utf8_valid (md_Requester m') \<and> utf8_valid (md_RemoteAddr m') \<and>
        (\<forall>i. zone i mod 60 = 0) \<longrightarrow> m' = m)"
proof -
  from metadata_read [OF assms] obtain t where t: "Time_MarshalJSON zone (md_ReceivedAt m) = Inr t"
    "json_parse d = Inr (metadata_json (md_Requester m) (md_RemoteAddr m) t)" by blast
  moreover have "m' = m" if "marshal_metadata zone m' = Inr d" "utf8_valid (md_Requester m')" "utf8_valid (md_RemoteAddr m')"
    "\<forall>i. zone i mod 60 = 0"
  proof -
    from metadata_read [OF that(1-3)] t have "md_Requester m' = md_Requester m" "md_RemoteAddr m' = md_RemoteAddr m"
      "Time_MarshalJSON zone (md_ReceivedAt m') = Inr t" by (auto simp: metadata_json_def)
    then show ?thesis using rfc3339_inj [OF _ t(1)] that(4) by simp
  qed
  ultimately show ?thesis using Time_MarshalJSON_text by blast
qed

lemma metadata_kept_witness:
  "\<exists>d t. marshal_metadata (\<lambda>_. 0) demo_meta = Inr d \<and>
     json_parse d = Inr (metadata_json ''a'' ''127.0.0.1:9'' (JString t)) \<and>
     marshal_metadata (\<lambda>_. 0) (demo_meta \<lparr> md_ReceivedAt := 1 \<rparr>) \<noteq> Inr d"
proof -
  obtain d where d: "marshal_metadata (\<lambda>_. 0) demo_meta = Inr d" using marshal_at_epoch [of demo_meta] by (auto simp: demo_meta_def)
  have u: "utf8_valid (md_Requester demo_meta)" "utf8_valid (md_RemoteAddr demo_meta)"
    by (simp_all add: demo_meta_def utf8_literal byte_code_def)
  let ?m = "demo_meta \<lparr> md_ReceivedAt := 1 \<rparr>"
  from metadata_kept [OF d u, of ?m] d u show ?thesis by (auto simp: demo_meta_def)
qed

end
