(* ===== verification/Store_Steps.thy ===== *)
theory Store_Steps
  imports FileStore
begin

text \<open>
  Concurrent writers. The server handles requests in parallel, so calls of \<open>writeFileAtomic\<close> overlap,
  readers look at the files in between, and the process may die at any point. This theory gives the
  function's body as a transition system, one step per system call, for any number of callers; a
  caller may fail at any call and may stop for ever at any point (a crash). \<open>CreateTemp\<close> draws names at
  random; here a name is never drawn twice, which is the one idealisation. The invariant says that a
  store file is at every moment the initial one or the complete data of one of the calls, and the
  sequential model is shown to be a run of a single caller.
\<close>

section \<open>The transition system\<close>

text \<open>Where a caller stands in the body of \<open>writeFileAtomic\<close>; \<open>Returned ok\<close> after the deferred removal.\<close>

datatype phase =
    Starting
  | Writing string "bytes"
  | Written string
  | Removing string bool
  | Returned bool

record fs_state =
  fs_files :: "string \<Rightarrow> bytes option"
  fs_used :: "string set"
  fs_phase :: "nat \<Rightarrow> phase"

text \<open>\<open>req i\<close> is the path and the data caller \<open>i\<close> was given; \<open>Writing t rest\<close> has \<open>rest\<close> still to write.\<close>

inductive fs_step :: "(nat \<Rightarrow> string \<times> bytes) \<Rightarrow> fs_state \<Rightarrow> fs_state \<Rightarrow> bool"
  for req :: "nat \<Rightarrow> string \<times> bytes" where
  give_up: "fs_phase s i = Starting \<Longrightarrow>
    fs_step req s (s \<lparr> fs_phase := (fs_phase s)(i := Returned False) \<rparr>)"
| create_temp: "fs_phase s i = Starting \<Longrightarrow> ends_in_digit t \<Longrightarrow> t \<notin> fs_used s \<Longrightarrow> fs_files s t = None \<Longrightarrow>
    fs_step req s (s \<lparr> fs_files := (fs_files s)(t \<mapsto> []), fs_used := insert t (fs_used s),
                       fs_phase := (fs_phase s)(i := Writing t (snd (req i))) \<rparr>)"
| write_some: "fs_phase s i = Writing t rest \<Longrightarrow> fs_files s t = Some c \<Longrightarrow> k \<le> length rest \<Longrightarrow>
    fs_step req s (s \<lparr> fs_files := (fs_files s)(t \<mapsto> c @ take k rest),
                       fs_phase := (fs_phase s)(i := Writing t (drop k rest)) \<rparr>)"
| close_chmod: "fs_phase s i = Writing t [] \<Longrightarrow>
    fs_step req s (s \<lparr> fs_phase := (fs_phase s)(i := Written t) \<rparr>)"
| rename: "fs_phase s i = Written t \<Longrightarrow> fs_files s t = Some c \<Longrightarrow>
    fs_step req s (s \<lparr> fs_files := (fs_files s)(t := None, fst (req i) \<mapsto> c),
                       fs_phase := (fs_phase s)(i := Removing t True) \<rparr>)"
| call_fails: "fs_phase s i = Writing t rest \<or> fs_phase s i = Written t \<Longrightarrow>
    fs_step req s (s \<lparr> fs_phase := (fs_phase s)(i := Removing t False) \<rparr>)"
| remove: "fs_phase s i = Removing t ok \<Longrightarrow>
    fs_step req s (s \<lparr> fs_files := (fs_files s)(t := None),
                       fs_phase := (fs_phase s)(i := Returned ok) \<rparr>)"
| remove_fails: "fs_phase s i = Removing t ok \<Longrightarrow>
    fs_step req s (s \<lparr> fs_phase := (fs_phase s)(i := Returned ok) \<rparr>)"

inductive fs_reach :: "(nat \<Rightarrow> string \<times> bytes) \<Rightarrow> fs_state \<Rightarrow> fs_state \<Rightarrow> bool"
  for req :: "nat \<Rightarrow> string \<times> bytes" and s0 :: fs_state where
  start: "fs_reach req s0 s0"
| step: "fs_reach req s0 s \<Longrightarrow> fs_step req s s' \<Longrightarrow> fs_reach req s0 s'"

definition fs_init :: "(string \<Rightarrow> bytes option) \<Rightarrow> fs_state" where
  "fs_init files = \<lparr> fs_files = files, fs_used = {}, fs_phase = (\<lambda>_. Starting) \<rparr>"

lemma fs_reach_trans: "fs_reach req t u \<Longrightarrow> fs_reach req s t \<Longrightarrow> fs_reach req s u"
  by (induction rule: fs_reach.induct) (auto intro: fs_reach.step)

section \<open>The invariant\<close>

text \<open>The temporary file a caller holds.\<close>

fun holds :: "phase \<Rightarrow> string \<Rightarrow> bool" where
  "holds (Writing t rest) u = (u = t)"
| "holds (Written t) u = (u = t)"
| "holds (Removing t ok) u = (u = t)"
| "holds _ u = False"

text \<open>
  Held names are used names that end in a digit and no two callers hold the same; a caller's
  temporary file holds what it has written of its data; a store file is the initial one or the
  complete data of a caller for that path.
\<close>

definition fs_inv :: "(nat \<Rightarrow> string \<times> bytes) \<Rightarrow> (string \<Rightarrow> bytes option) \<Rightarrow> fs_state \<Rightarrow> bool" where
  "fs_inv req files s \<longleftrightarrow>
     (\<forall>i u. holds (fs_phase s i) u \<longrightarrow> u \<in> fs_used s \<and> ends_in_digit u) \<and>
     (\<forall>i j u. holds (fs_phase s i) u \<longrightarrow> holds (fs_phase s j) u \<longrightarrow> i = j) \<and>
     (\<forall>i t rest. fs_phase s i = Writing t rest \<longrightarrow> (\<exists>c. fs_files s t = Some c \<and> c @ rest = snd (req i))) \<and>
     (\<forall>i t. fs_phase s i = Written t \<longrightarrow> fs_files s t = Some (snd (req i))) \<and>
     (\<forall>p. \<not> ends_in_digit p \<longrightarrow>
        fs_files s p = files p \<or> (\<exists>i. fst (req i) = p \<and> fs_files s p = Some (snd (req i))))"

lemma fs_inv_init: "fs_inv req files (fs_init files)"
  by (simp add: fs_inv_def fs_init_def)

lemma fs_inv_step:
  assumes "fs_step req s s'" "fs_inv req files s" and paths: "\<forall>i. \<not> ends_in_digit (fst (req i))"
  shows "fs_inv req files s'"
  using assms(1,2)
proof (cases rule: fs_step.cases)
  case (create_temp i t)
  then show ?thesis using assms(2) paths
    unfolding fs_inv_def by (auto split: if_splits) (metis holds.simps(1))
next
  case (write_some i t rest c k)
  have "c @ rest = snd (req i)" using write_some assms(2) unfolding fs_inv_def by fastforce
  then have "(c @ take k rest) @ drop k rest = snd (req i)" by simp
  with write_some assms(2) show ?thesis unfolding fs_inv_def
    by (auto split: if_splits) (metis holds.simps)+
next
  case (rename i t c)
  have "c = snd (req i)" using rename assms(2) unfolding fs_inv_def by fastforce
  with rename assms(2) paths show ?thesis unfolding fs_inv_def
    by (auto split: if_splits) (metis holds.simps)+
next
  case (remove i t ok)
  with assms(2) show ?thesis unfolding fs_inv_def
    by (auto split: if_splits) (metis holds.simps)+
next
  case (close_chmod i t)
  have "fs_files s t = Some (snd (req i))" using close_chmod assms(2) unfolding fs_inv_def by fastforce
  with close_chmod assms(2) show ?thesis unfolding fs_inv_def
    by (auto split: if_splits) (metis holds.simps)+
next
  case (call_fails i t rest)
  then have "holds (fs_phase s i) t" by auto
  with call_fails(1) assms(2) show ?thesis unfolding fs_inv_def
    by (auto split: if_splits)
next
  case (remove_fails i t ok)
  with assms(2) show ?thesis unfolding fs_inv_def
    by (auto split: if_splits)
next
  case (give_up i)
  with assms(2) show ?thesis unfolding fs_inv_def
    by (auto split: if_splits) 
qed

lemma fs_inv_reach:
  "fs_reach req (fs_init files) s \<Longrightarrow> \<forall>i. \<not> ends_in_digit (fst (req i)) \<Longrightarrow> fs_inv req files s"
  by (induction rule: fs_reach.induct) (auto intro: fs_inv_init fs_inv_step)

text \<open>Once a caller's rename has succeeded, its path holds the complete data of some caller for it.\<close>

fun renamed :: "phase \<Rightarrow> bool" where
  "renamed (Removing t ok) = ok"
| "renamed (Returned ok) = ok"
| "renamed _ = False"

definition fs_done :: "(nat \<Rightarrow> string \<times> bytes) \<Rightarrow> fs_state \<Rightarrow> bool" where
  "fs_done req s \<longleftrightarrow> (\<forall>i. renamed (fs_phase s i) \<longrightarrow>
     (\<exists>j. fst (req j) = fst (req i) \<and> fs_files s (fst (req i)) = Some (snd (req j))))"

lemma fs_done_step:
  assumes "fs_step req s s'" "fs_inv req files s" "fs_done req s"
    and paths: "\<forall>i. \<not> ends_in_digit (fst (req i))"
  shows "fs_done req s'"
proof -
  have t: "u \<noteq> fst (req j)" if "holds (fs_phase s i) u" for i j u
    using that assms(2) paths unfolding fs_inv_def by blast
  from assms(1) show ?thesis
  proof (cases rule: fs_step.cases)
    case (create_temp i u)
    then have "u \<noteq> fst (req j)" for j using paths by blast
    with create_temp assms(3) show ?thesis by (auto simp: fs_done_def)
  next
    case (rename i u c)
    then have "c = snd (req i)" using assms(2) by (auto simp: fs_inv_def)
    with rename t [of i u] assms(3) show ?thesis by (auto simp: fs_done_def)
  next
    case (write_some i u rest c k)
    with t [of i u] assms(3) show ?thesis by (auto simp: fs_done_def)
  next
    case (remove i u ok)
    with t [of i u] assms(3) show ?thesis by (auto simp: fs_done_def)
  next
    case (remove_fails i u ok)
    with assms(3) show ?thesis by (auto simp: fs_done_def)
  qed (use assms(3) in \<open>auto simp: fs_done_def\<close>)
qed

lemma fs_done_reach:
  assumes "fs_reach req (fs_init files) s" "\<forall>i. \<not> ends_in_digit (fst (req i))"
  shows "fs_done req s"
  using assms
proof (induction rule: fs_reach.induct)
  case start
  then show ?case by (simp add: fs_done_def fs_init_def)
next
  case (step s s')
  then show ?case using fs_done_step fs_inv_reach by blast
qed

section \<open>The sequential model is a run\<close>

definition data_of :: "'z os_world_scheme \<Rightarrow> string \<Rightarrow> bytes option" where
  "data_of w p = map_option f_data (w_files w p)"

lemma data_of_cong: "w_files w = w_files v \<Longrightarrow> data_of w = data_of v"
  by (simp add: data_of_def fun_eq_iff)

text \<open>The system calls on the data alone.\<close>

lemma Write_data:
  assumes "os_Write tmp d w = (r, w')" "w_files w tmp = Some f" "f_data f = []"
  shows "\<exists>k \<le> length d. data_of w' = (data_of w)(tmp \<mapsto> take k d) \<and> (r = None \<longrightarrow> k = length d)"
proof (cases "os_fault w")
  case None
  with assms show ?thesis
    by (intro exI [of _ "length d"]) (auto simp: os_Write_def Let_def data_of_def fun_eq_iff)
next
  case (Some e)
  let ?n = "ev_partial (w_env w) (w_tick w)"
  have "take (min ?n (length d)) d = take ?n d" by (simp add: min_def)
  with Some assms show ?thesis
    by (intro exI [of _ "min ?n (length d)"]) (auto simp: os_Write_def Let_def data_of_def fun_eq_iff)
qed

lemma Close_data: "os_Close tmp w = (r, w') \<Longrightarrow> data_of w' = data_of w"
  by (auto dest: os_Close_frame intro: data_of_cong)

lemma Chmod_data: "os_Chmod tmp perm w = (r, w') \<Longrightarrow> data_of w tmp = Some c \<Longrightarrow> data_of w' = data_of w"
  by (auto simp: data_of_def fun_eq_iff dest: os_Chmod_file)

lemma Rename_data:
  "os_Rename tmp path w = (r, w') \<Longrightarrow> data_of w tmp = Some c \<Longrightarrow>
     data_of w' = (if r = None then (data_of w)(tmp := None, path \<mapsto> c) else data_of w)"
  by (auto simp: data_of_def fun_eq_iff dest: os_Rename_file)

text \<open>What \<open>fill_and_rename\<close> comes to: a part of the data written, and on success all of it under its name.\<close>

lemma fill_and_rename_data:
  assumes run: "fill_and_rename tmp path d perm w = (r, w')" and f: "w_files w tmp = Some f" "f_data f = []"
  shows "\<exists>k \<le> length d. if r = None then k = length d \<and> data_of w' = (data_of w)(tmp := None, path \<mapsto> d)
     else data_of w' = (data_of w)(tmp \<mapsto> take k d)"
proof -
  obtain r1 w1 where 1: "os_Write tmp d w = (r1, w1)" by fastforce
  obtain r2 w2 where 2: "os_Close tmp w1 = (r2, w2)" by fastforce
  obtain r3 w3 where 3: "os_Chmod tmp perm w2 = (r3, w3)" by fastforce
  obtain r4 w4 where 4: "os_Rename tmp path w3 = (r4, w4)" by fastforce
  from Write_data [OF 1 f] obtain k where k: "k \<le> length d" "data_of w1 = (data_of w)(tmp \<mapsto> take k d)"
    "r1 = None \<longrightarrow> k = length d" by blast
  have w2: "data_of w2 = data_of w1" by (rule Close_data [OF 2])
  then have "data_of w2 tmp = Some (take k d)" using k(2) by simp
  note w3 = Chmod_data [OF 3 this]
  then have "data_of w3 tmp = Some (take k d)" using w2 k(2) by simp
  note w4 = Rename_data [OF 4 this]
  show ?thesis
  proof (cases "r1 = None \<and> r2 = None \<and> r3 = None \<and> r4 = None")
    case True
    then have "r = None" "w' = w4" using run 1 2 3 4 by (simp_all add: fill_and_rename_def)
    then show ?thesis using True k w2 w3 w4 by (intro exI [of _ k]) simp
  next
    case False
    then have "r \<noteq> None" "data_of w' = data_of w1"
      using run 1 2 3 4 w2 w3 w4 by (auto simp: fill_and_rename_def split: option.splits)
    then show ?thesis using k by (intro exI [of _ k]) auto
  qed
qed

lemma fill_and_rename_run:
  assumes run: "fill_and_rename tmp path d perm w = (r, w')"
    and f: "w_files w tmp = Some f" "f_data f = []"
    and s: "fs_phase s 0 = Writing tmp d" "fs_files s = data_of w" and req: "req 0 = (path, d)"
  shows "\<exists>s'. fs_reach req s s' \<and> fs_phase s' 0 = Removing tmp (r = None) \<and> fs_files s' = data_of w'"
proof -
  from fill_and_rename_data [OF run f] obtain k where k: "k \<le> length d"
    "if r = None then k = length d \<and> data_of w' = (data_of w)(tmp := None, path \<mapsto> d)
     else data_of w' = (data_of w)(tmp \<mapsto> take k d)" by blast
  have "fs_files s tmp = Some []" using s(2) f by (simp add: data_of_def)
  from fs_step.write_some [of s 0 tmp d "[]" k req, OF s(1) this k(1)] obtain s1 where
    s1: "fs_step req s s1" "fs_files s1 = (data_of w)(tmp \<mapsto> take k d)" "fs_phase s1 0 = Writing tmp (drop k d)"
    using s(2) by auto
  note r1 = fs_reach.step [OF fs_reach.start s1(1)]
  show ?thesis
  proof (cases r)
    case (Some e)
    from fs_step.call_fails [of s1 0 tmp "drop k d" req] s1(3) obtain bad where
      "fs_step req s1 bad" "fs_files bad = fs_files s1" "fs_phase bad 0 = Removing tmp False" by auto
    then show ?thesis using fs_reach.step [OF r1] k(2) s1(2) Some by (intro exI [of _ bad]) auto
  next
    case None
    then have all: "k = length d" "data_of w' = (data_of w)(tmp := None, path \<mapsto> d)" using k(2) by auto
    from fs_step.close_chmod [of s1 0 tmp req] s1(3) all(1) obtain s2 where
      s2: "fs_step req s1 s2" "fs_files s2 = fs_files s1" "fs_phase s2 0 = Written tmp" by auto
    have "fs_files s2 tmp = Some d" using s2(2) s1(2) all(1) by simp
    from fs_step.rename [of s2 0 tmp d req, OF s2(3) this] obtain s3 where
      s3: "fs_step req s2 s3" "fs_files s3 = (fs_files s2)(tmp := None, path \<mapsto> d)" "fs_phase s3 0 = Removing tmp True"
      using req by auto
    have "fs_files s3 = data_of w'" using s3(2) s2(2) s1(2) all(2) by (simp add: fun_eq_iff)
    with s3(3) None fs_reach.step [OF fs_reach.step [OF r1 s2(1)] s3(1)] show ?thesis by auto
  qed
qed

lemma give_up_run:
  "\<exists>s. fs_reach req (fs_init files) s \<and> fs_phase s 0 = Returned False \<and> fs_files s = files"
  using fs_reach.step [OF fs_reach.start fs_step.give_up [of "fs_init files" 0 req]]
  by (force simp: fs_init_def)

section \<open>Properties\<close>

text \<open>
  C14: Readers never see a partly written store file. In every state that any number of concurrent
  callers of \<open>writeFileAtomic\<close> can reach, with any of their system calls failing and any of them
  stopping for ever (a crash is a state like any other), a store file is either as it was at the
  start or holds the complete data that some call was given for that path.
\<close>

theorem store_files_never_partial:
  assumes "fs_reach req (fs_init files) s" and "\<forall>i. store_name dir (fst (req i))" and "store_name dir p"
  shows "fs_files s p = files p \<or> (\<exists>i. fst (req i) = p \<and> fs_files s p = Some (snd (req i)))"
proof -
  have "fs_inv req files s" using assms(1,2) store_name_no_digit by (intro fs_inv_reach) blast+
  then show ?thesis using assms(3) store_name_no_digit unfolding fs_inv_def by blast
qed

text \<open>A run of two callers for one certificate: both create their files, the first renames its own.\<close>

definition two_callers :: "nat \<Rightarrow> string \<times> bytes" where
  "two_callers i = (certPath ''db'' 1, if i = 0 then [1, 2] else [3])"

lemma store_files_never_partial_witness:
  "\<exists>s. fs_reach two_callers (fs_init Map.empty) s \<and> fs_phase s 0 = Written ''t1'' \<and>
     fs_files s ''t1'' = Some [1, 2] \<and>
     (fs_files s (certPath ''db'' 1) = None \<or>
      (\<exists>i. fst (two_callers i) = certPath ''db'' 1 \<and>
           fs_files s (certPath ''db'' 1) = Some (snd (two_callers i))))"
proof -
  let ?s0 = "fs_init Map.empty"
  have d: "ends_in_digit ''t1''" by (simp add: ends_in_digit_def digit_val_def)
  obtain s1 where s1: "fs_step two_callers ?s0 s1" "fs_phase s1 0 = Writing ''t1'' [1, 2]"
    "fs_files s1 ''t1'' = Some []"
    using fs_step.create_temp [of ?s0 0 "''t1''" two_callers, OF _ d]
    by (auto simp: fs_init_def two_callers_def)
  obtain s2 where s2: "fs_step two_callers s1 s2" "fs_phase s2 0 = Writing ''t1'' []"
    "fs_files s2 ''t1'' = Some [1, 2]"
    using fs_step.write_some [of s1 0 "''t1''" "[1, 2]" "[]" 2 two_callers] s1 by auto
  obtain s3 where s3: "fs_step two_callers s2 s3" "fs_phase s3 0 = Written ''t1''"
    "fs_files s3 ''t1'' = Some [1, 2]"
    using fs_step.close_chmod [of s2 0 "''t1''" two_callers] s2 by auto
  have "fs_reach two_callers ?s0 s3"
    using s1(1) s2(1) s3(1) by (meson fs_reach.intros)
  moreover have "fs_files s3 (certPath ''db'' 1) = None \<or>
      (\<exists>i. fst (two_callers i) = certPath ''db'' 1 \<and>
           fs_files s3 (certPath ''db'' 1) = Some (snd (two_callers i)))"
    by (rule store_files_never_partial [OF calculation, of "''db''"]) (simp_all add: two_callers_def)
  ultimately show ?thesis using s3 by blast
qed

text \<open>
  C25: The sequential model is one of these runs: whatever \<open>writeFileAtomic\<close> does to the files of the
  operating system, with its result, a single caller of the transition system can do, so the
  interleaved guarantee covers the function as it is modelled from the source.
\<close>

theorem writeFileAtomic_is_run:
  assumes "writeFileAtomic path d perm w = (r, w')" and "store_name dir path"
  shows "\<exists>s. fs_reach (\<lambda>_. (path, d)) (fs_init (data_of w)) s \<and>
     fs_phase s 0 = Returned (r = None) \<and> fs_files s = data_of w'"
proof -
  let ?req = "\<lambda>_::nat. (path, d)" and ?s0 = "fs_init (data_of w)"
  obtain r1 w1 where 1: "os_MkdirAll (path_Dir path) perm_750 w = (r1, w1)"
    by (cases "os_MkdirAll (path_Dir path) perm_750 w")
  have w1: "w_files w1 = w_files w" using os_MkdirAll_frame [OF 1] by simp
  obtain r2 w2 where 2: "os_CreateTemp (path_Dir path) (path_Base path @ ''.tmp-*'') w1 = (r2, w2)"
    by (cases "os_CreateTemp (path_Dir path) (path_Base path @ ''.tmp-*'') w1")
  show ?thesis
  proof (cases "r1 = None \<and> (\<exists>tmp. r2 = Inr tmp)")
    case False
    then have "r \<noteq> None" "w' = w1 \<or> w' = w2 \<and> (\<exists>e. r2 = Inl e)"
      using assms(1) 1 2 by (auto simp: writeFileAtomic_def Let_def split: option.splits sum.splits)
    moreover have "w_files w2 = w_files w" if "r2 = Inl e" for e
      using os_CreateTemp_result [OF 2] that w1 by simp
    ultimately have "data_of w' = data_of w" "r \<noteq> None" using w1 by (auto intro: data_of_cong)
    then show ?thesis using give_up_run [of ?req "data_of w"] by auto
  next
    case True
    then obtain tmp where tmp: "r1 = None" "r2 = Inr tmp" by blast
    with os_CreateTemp_result [OF 2] w1 have t: "w_files w tmp = None" "ends_in_digit tmp"
      "w_files w2 = (w_files w)(tmp \<mapsto> \<lparr> f_data = [], f_perm = perm_600 \<rparr>)" by simp_all
    obtain r3 w3 where 3: "fill_and_rename tmp path d perm w2 = (r3, w3)"
      by (cases "fill_and_rename tmp path d perm w2")
    obtain r4 w4 where 4: "os_Remove tmp w3 = (r4, w4)" by (cases "os_Remove tmp w3")
    have res: "r = r3" "w' = w4"
      using assms(1) 1 2 3 4 tmp by (auto simp: writeFileAtomic_def Let_def)
    obtain s1 where s1: "fs_step ?req ?s0 s1" "fs_phase s1 0 = Writing tmp d"
      "fs_files s1 = (data_of w)(tmp \<mapsto> [])"
      using fs_step.create_temp [of ?s0 0 tmp ?req, OF _ t(2)] t(1)
      by (auto simp: fs_init_def data_of_def)
    have "fs_files s1 = data_of w2" using s1(3) t(3) by (auto simp: data_of_def fun_eq_iff)
    from fill_and_rename_run [OF 3 _ _ s1(2) this, of _ ?req] t(3) obtain s2 where
      s2: "fs_reach ?req s1 s2" "fs_phase s2 0 = Removing tmp (r3 = None)" "fs_files s2 = data_of w3"
      by auto
    have "data_of w4 = (data_of w3)(tmp := None) \<or> data_of w4 = data_of w3"
      using os_Remove_file [OF 4] by (auto simp: data_of_def fun_eq_iff)
    then obtain s3 where s3: "fs_step ?req s2 s3" "fs_phase s3 0 = Returned (r3 = None)"
      "fs_files s3 = data_of w4"
      using fs_step.remove [OF s2(2), of ?req] fs_step.remove_fails [OF s2(2), of ?req] s2(3) by fastforce
    have "fs_reach ?req ?s0 s3"
      by (rule fs_reach.step [OF fs_reach_trans [OF s2(1) fs_reach.step [OF fs_reach.start s1(1)]] s3(1)])
    with s3 res show ?thesis by blast
  qed
qed

lemma writeFileAtomic_is_run_witness:
  "\<exists>s. fs_reach (\<lambda>_. (csrPath ''db'' 1, [1, 2])) (fs_init (data_of failing_world)) s \<and> fs_phase s 0 = Returned False"
proof -
  obtain r w' where r: "writeFileAtomic (csrPath ''db'' 1) [1, 2] perm_640 failing_world = (r, w')" "r \<noteq> None"
    by (simp add: example_paths writeFileAtomic_def fill_and_rename_def os_MkdirAll_def os_CreateTemp_def
        create_temp.simps temp_parts_def temp_join_def os_Write_def os_Close_def os_Chmod_def os_Rename_def
        os_Remove_def os_fault_def failing_world_def empty_world_def quiet_env_def Let_def)
  from writeFileAtomic_is_run [OF r(1), of "''db''"] r(2) show ?thesis by auto
qed

end
