(* ===== verification/DER.thy ===== *)
theory DER
  imports Go_Text
begin

text \<open>
  The Distinguished Encoding Rules (X.690) for the ASN.1 values the program writes: definite
  lengths, base-128 object identifiers, minimal two's complement integers. \<open>asn1\<close> is a syntax tree
  of such values and \<open>der\<close> its encoding; the packages that build messages are specified by the tree
  they write. Tags are the single identifier octets of the ASN.1 standard.
\<close>

abbreviation "tag_BOOLEAN \<equiv> (0x01 :: byte)"
abbreviation "tag_INTEGER \<equiv> (0x02 :: byte)"
abbreviation "tag_OCTET_STRING \<equiv> (0x04 :: byte)"
abbreviation "tag_OBJECT_IDENTIFIER \<equiv> (0x06 :: byte)"
abbreviation "tag_UTF8String \<equiv> (0x0C :: byte)"
abbreviation "tag_SEQUENCE \<equiv> (0x30 :: byte)"
abbreviation "tag_SET \<equiv> (0x31 :: byte)"

text \<open>\<open>casn1.Tag(n).ContextSpecific().Constructed()\<close>\<close>

definition context_constructed :: "byte \<Rightarrow> byte" where
  "context_constructed n = or (or n 0x80) 0x20"

text \<open>An identifier octet whose five low bits are all set announces a multi-octet tag.\<close>

definition low_tag :: "byte \<Rightarrow> bool" where
  "low_tag t = (and t 0x1F \<noteq> 0x1F)"

section \<open>Lengths and elements\<close>

definition be_octets :: "nat \<Rightarrow> bytes" where
  "be_octets n = map word_of_nat (radix 256 n)"

definition der_length :: "nat \<Rightarrow> bytes" where
  "der_length n =
     (if n < 128 then [word_of_nat n]
      else word_of_nat (128 + length (be_octets n)) # be_octets n)"

definition der_tlv :: "byte \<Rightarrow> bytes \<Rightarrow> bytes" where
  "der_tlv t c = t # der_length (length c) @ c"

text \<open>One below the greatest 32-bit number: the longest content the builder packages support.\<close>

definition max_content :: nat where
  "max_content = 0xFFFFFFFE"

section \<open>Object identifiers and integers\<close>

text \<open>
  Base 128 with a continuation bit on every octet but the last. The shift loops of the Go packages
  write nothing for a negative number.
\<close>

definition base128 :: "int \<Rightarrow> bytes" where
  "base128 n =
     (if n < 0 then []
      else (let ds = radix 128 (nat n)
            in map (\<lambda>d. word_of_nat (128 + d)) (butlast ds) @ [word_of_nat (last ds)]))"

definition der_oid_content :: "oid \<Rightarrow> bytes" where
  "der_oid_content ar =
     (case ar of
        a # b # r \<Rightarrow> base128 (wrap64 (a * 40 + b)) @ concat (map base128 r)
      | _ \<Rightarrow> [])"

text \<open>
  What X.660 requires of an identifier, and the range in which the first two arcs, packed into one
  number, do not overflow a 64-bit integer.
\<close>

definition oid_valid :: "oid \<Rightarrow> bool" where
  "oid_valid ar =
     (case ar of
        a # b # r \<Rightarrow> a \<le> 2 \<and> (a \<le> 1 \<longrightarrow> b < 40) \<and> (\<forall>v\<in>set ar. 0 \<le> v)
      | _ \<Rightarrow> False)"

definition oid_in_range :: "oid \<Rightarrow> bool" where
  "oid_in_range ar = (case ar of a # b # r \<Rightarrow> a * 40 + b < 2 ^ 63 | _ \<Rightarrow> True)"

function int_octets :: "int \<Rightarrow> bytes" where
  "int_octets v =
     (if -128 \<le> v \<and> v < 128 then [word_of_int v]
      else int_octets (v div 256) @ [word_of_int v])"
  by pat_completeness auto
termination
proof (relation "measure (\<lambda>v. nat \<bar>v\<bar>)", simp)
  fix v :: int
  assume "\<not> (-128 \<le> v \<and> v < 128)"
  then show "(v div 256, v) \<in> measure (\<lambda>v. nat \<bar>v\<bar>)" by auto
qed

declare int_octets.simps [simp del]

section \<open>Syntax trees\<close>

text \<open>\<open>Copied\<close> is an element that is already encoded and is copied as it is.\<close>

datatype asn1 =
    Prim byte bytes
  | Oid oid
  | Copied bytes
  | Constr byte "asn1 list"

fun der :: "asn1 \<Rightarrow> bytes" where
  "der (Prim t c) = der_tlv t c"
| "der (Oid ar) = der_tlv tag_OBJECT_IDENTIFIER (der_oid_content ar)"
| "der (Copied b) = b"
| "der (Constr t xs) = der_tlv t (concat (map der xs))"

text \<open>The identifiers of a tree.\<close>

fun tree_oids :: "asn1 \<Rightarrow> oid list" where
  "tree_oids (Oid ar) = [ar]"
| "tree_oids (Constr t xs) = concat (map tree_oids xs)"
| "tree_oids _ = []"

text \<open>
  Encoding with a given encoder of identifiers and with the content bound of the builder: \<open>None\<close>
  when an identifier has no encoding or a content is too long.
\<close>

definition bounded_tlv :: "byte \<Rightarrow> bytes \<Rightarrow> bytes option" where
  "bounded_tlv t c = (if length c \<le> max_content then Some (der_tlv t c) else None)"

fun concat_opt :: "'a list option list \<Rightarrow> 'a list option" where
  "concat_opt [] = Some []"
| "concat_opt (x # xs) =
     (case x of None \<Rightarrow> None
      | Some b \<Rightarrow> (case concat_opt xs of None \<Rightarrow> None | Some r \<Rightarrow> Some (b @ r)))"

fun enc :: "(oid \<Rightarrow> bytes option) \<Rightarrow> asn1 \<Rightarrow> bytes option" where
  "enc eo (Prim t c) = bounded_tlv t c"
| "enc eo (Oid ar) = eo ar"
| "enc eo (Copied b) = Some b"
| "enc eo (Constr t xs) = Option.bind (concat_opt (map (enc eo) xs)) (bounded_tlv t)"

section \<open>Facts\<close>

lemma der_length_nonempty [simp]: "der_length n \<noteq> []"
  by (simp add: der_length_def)

lemma length_der_tlv_ge: "length c < length (der_tlv t c)"
  by (simp add: der_tlv_def)

lemma der_tlv_nonempty [simp]: "der_tlv t c \<noteq> []"
  by (simp add: der_tlv_def)

lemma hd_der_tlv [simp]: "hd (der_tlv t c) = t"
  by (simp add: der_tlv_def)

lemma bounded_tlv_Some: "bounded_tlv t c = Some d \<longleftrightarrow> length c \<le> max_content \<and> d = der_tlv t c"
  by (auto simp: bounded_tlv_def)

lemma concat_opt_map_Some [simp]: "concat_opt (map (\<lambda>x. Some (f x)) xs) = Some (concat (map f xs))"
  by (induction xs) auto

lemma concat_opt_map_Some' [simp]: "concat_opt (map Some xs) = Some (concat xs)"
  by (induction xs) auto

lemma concat_opt_Some:
  "concat_opt xs = Some r \<longleftrightarrow> (\<exists>ys. xs = map Some ys \<and> r = concat ys)"
proof
  show "concat_opt xs = Some r \<Longrightarrow> \<exists>ys. xs = map Some ys \<and> r = concat ys"
  proof (induction xs arbitrary: r)
    case Nil
    then show ?case by simp
  next
    case (Cons x xs)
    then obtain b q where "x = Some b" "concat_opt xs = Some q" "r = b @ q"
      by (auto split: option.splits)
    moreover from this(2) obtain ys where "xs = map Some ys" "q = concat ys"
      using Cons.IH by blast
    ultimately show ?case by (auto intro: exI [of _ "b # ys"])
  qed
qed auto

lemma concat_opt_append:
  "concat_opt (xs @ ys) =
     Option.bind (concat_opt xs) (\<lambda>a. Option.bind (concat_opt ys) (\<lambda>b. Some (a @ b)))"
  by (induction xs) (auto split: option.splits bind_splits)

lemma concat_opt_None: "concat_opt xs = None \<longleftrightarrow> None \<in> set xs"
  by (induction xs) (auto split: option.splits)

text \<open>
  Where the identifier encoder agrees with DER on the identifiers of a tree, a successful bounded
  encoding is the DER of the tree.
\<close>

lemma enc_der:
  "enc eo t = Some d \<Longrightarrow> \<forall>ar\<in>set (tree_oids t). \<forall>e. eo ar = Some e \<longrightarrow> e = der (Oid ar) \<Longrightarrow> d = der t"
proof (induction t arbitrary: d)
  case (Constr t xs)
  then obtain c where c: "concat_opt (map (enc eo) xs) = Some c" "d = der_tlv t c"
    by (auto simp: bounded_tlv_Some bind_eq_Some_conv)
  then obtain ys where ys: "map (enc eo) xs = map Some ys" "c = concat ys"
    by (auto simp: concat_opt_Some)
  then have len: "length ys = length xs" by (metis length_map)
  have "ys ! i = der (xs ! i)" if "i < length xs" for i
  proof (rule Constr.IH)
    show "xs ! i \<in> set xs" using that by simp
    show "enc eo (xs ! i) = Some (ys ! i)"
      using that ys(1) len by (metis nth_map)
    show "\<forall>ar\<in>set (tree_oids (xs ! i)). \<forall>e. eo ar = Some e \<longrightarrow> e = der (Oid ar)"
      using Constr.prems(2) nth_mem [OF that] by fastforce
  qed
  then have "ys = map der xs" using len by (auto intro: nth_equalityI)
  with c ys show ?case by simp
qed (auto simp: bounded_tlv_Some)

text \<open>Conversely a tree whose encoding is short enough encodes, for every identifier encoder that
  does so on its identifiers.\<close>

lemma length_concat_ge: "x \<in> set xs \<Longrightarrow> length x \<le> length (concat xs)"
  by (induction xs) auto

lemma enc_ok:
  "length (der t) \<le> max_content \<Longrightarrow> \<forall>ar\<in>set (tree_oids t). eo ar = Some (der (Oid ar)) \<Longrightarrow>
     enc eo t = Some (der t)"
proof (induction t)
  case (Prim t c)
  then show ?case using length_der_tlv_ge [of c t] by (simp add: bounded_tlv_def)
next
  case (Constr t xs)
  have small: "length (concat (map der xs)) \<le> max_content"
    using Constr.prems length_der_tlv_ge [of "concat (map der xs)" t] by simp
  have "enc eo x = Some (der x)" if x: "x \<in> set xs" for x
  proof (rule Constr.IH [OF x])
    show "length (der x) \<le> max_content"
      using small x length_concat_ge [of "der x" "map der xs"] by simp
    show "\<forall>ar\<in>set (tree_oids x). eo ar = Some (der (Oid ar))"
      using Constr.prems(2) x by auto
  qed
  then have "map (enc eo) xs = map (\<lambda>x. Some (der x)) xs" by simp
  then have "concat_opt (map (enc eo) xs) = Some (concat (map der xs))"
    by (simp only: concat_opt_map_Some)
  with small show ?case by (simp add: bounded_tlv_def)
qed auto

lemma int_octets_nonempty [simp]: "int_octets v \<noteq> []"
  by (subst int_octets.simps) simp

lemma length_int_octets:
  "- (128 * 256 ^ k) \<le> v \<Longrightarrow> v < 128 * 256 ^ k \<Longrightarrow> length (int_octets v) \<le> Suc k"
proof (induction k arbitrary: v)
  case 0
  then show ?case by (subst int_octets.simps) simp
next
  case (Suc k)
  define P where "P = (128 :: int) * 256 ^ k"
  have "- (256 * P) \<le> v" "v < 256 * P" using Suc.prems by (simp_all add: P_def algebra_simps)
  moreover have "v = 256 * (v div 256) + v mod 256" "0 \<le> v mod 256" "v mod 256 < 256" by simp_all
  ultimately have "- P \<le> v div 256" "v div 256 < P" by linarith+
  then have "- (128 * 256 ^ k) \<le> v div 256" "v div 256 < 128 * 256 ^ k"
    by (simp_all add: P_def)
  with Suc.IH have "length (int_octets (v div 256)) \<le> Suc k" by blast
  then show ?case by (subst int_octets.simps) simp
qed

lemma int_octets_small: "- (2 ^ 63) \<le> v \<Longrightarrow> v < 2 ^ 63 \<Longrightarrow> length (int_octets v) \<le> max_content"
  using length_int_octets [of 7 v] by (simp add: max_content_def)

end
