(* ===== verification/Cryptobyte.thy ===== *)
theory Cryptobyte
  imports DER
begin

text \<open>
  The third-party package \<open>golang.org/x/crypto/cryptobyte\<close>, which is not part of the repository, as
  an interface. Its operations are the fields of two records, which every definition that uses the
  package takes as an argument; the laws its documentation states are the assumptions of the locales
  below. A \<open>Builder\<close> is a value of an arbitrary type \<open>'b\<close>, observed through \<open>Bytes\<close>; a
  continuation is a function on builders. A \<open>String\<close> is a list of bytes, and a read returns what it
  read with the rest of the input, or \<open>None\<close> where the Go method returns false.
\<close>

record 'b cb_builder =
  cb_new :: 'b
  cb_AddBytes :: "bytes \<Rightarrow> 'b \<Rightarrow> 'b"
  cb_AddASN1 :: "byte \<Rightarrow> ('b \<Rightarrow> 'b) \<Rightarrow> 'b \<Rightarrow> 'b"
  cb_AddASN1ObjectIdentifier :: "oid \<Rightarrow> 'b \<Rightarrow> 'b"
  cb_AddASN1Int64 :: "int \<Rightarrow> 'b \<Rightarrow> 'b"
  cb_AddASN1Boolean :: "bool \<Rightarrow> 'b \<Rightarrow> 'b"
  cb_AddASN1OctetString :: "bytes \<Rightarrow> 'b \<Rightarrow> 'b"
  cb_SetError :: "go_error \<Rightarrow> 'b \<Rightarrow> 'b"
  cb_Bytes :: "'b \<Rightarrow> bytes result"

record cb_reader =
  rd_ASN1 :: "byte \<Rightarrow> bytes \<Rightarrow> (bytes \<times> bytes) option"
  rd_ASN1Element :: "byte \<Rightarrow> bytes \<Rightarrow> (bytes \<times> bytes) option"
  rd_ASN1ObjectIdentifier :: "bytes \<Rightarrow> (oid \<times> bytes) option"
  rd_ASN1Int64WithTag :: "byte \<Rightarrow> bytes \<Rightarrow> (int \<times> bytes) option"
  rd_OptionalASN1 :: "byte \<Rightarrow> bytes \<Rightarrow> (bytes option \<times> bytes) option"

text \<open>
  What a write does to the observation of a builder: an error stays an error, and a builder without
  error gets the written bytes appended, or an error when there is nothing to write (\<open>None\<close>).
\<close>

definition appends :: "bytes result \<Rightarrow> bytes option \<Rightarrow> bytes result \<Rightarrow> bool" where
  "appends before x after =
     (case before of
        Inl e \<Rightarrow> isl after
      | Inr ys \<Rightarrow> (case x of None \<Rightarrow> isl after | Some d \<Rightarrow> after = Inr (ys @ d)))"

definition ok_option :: "'a result \<Rightarrow> 'a option" where
  "ok_option r = (case r of Inl e \<Rightarrow> None | Inr x \<Rightarrow> Some x)"

lemma ok_option_simps [simp]: "ok_option (Inl e) = None" "ok_option (Inr x) = Some x"
  by (simp_all add: ok_option_def)

lemma ok_option_Some: "ok_option r = Some x \<longleftrightarrow> r = Inr x"
  by (cases r) auto

lemma appends_trans:
  "appends a x b \<Longrightarrow> appends b y c \<Longrightarrow>
     appends a (Option.bind x (\<lambda>u. Option.bind y (\<lambda>v. Some (u @ v)))) c"
  by (auto simp: appends_def split: sum.splits option.splits bind_splits)

lemma appends_refl: "appends a (Some []) a"
  by (auto simp: appends_def split: sum.splits)

lemma appends_from_empty:
  "appends (Inr []) x a \<Longrightarrow> ok_option a = x"
  by (cases a) (auto simp: appends_def split: option.splits)

section \<open>The builder\<close>

locale cryptobyte_builder =
  fixes B :: "'b cb_builder"
    and enc_oid :: "oid \<Rightarrow> bytes option"
  assumes new: "cb_Bytes B (cb_new B) = Inr []"
    and AddBytes: "appends (cb_Bytes B b) (Some v) (cb_Bytes B (cb_AddBytes B v b))"
    and SetError: "cb_Bytes B (cb_SetError B e b) = Inl e"
    and AddASN1: "low_tag t \<Longrightarrow>
      appends (cb_Bytes B b)
        (Option.bind (ok_option (cb_Bytes B (f (cb_new B)))) (bounded_tlv t))
        (cb_Bytes B (cb_AddASN1 B t f b))"
    and AddOID: "appends (cb_Bytes B b) (enc_oid ar) (cb_Bytes B (cb_AddASN1ObjectIdentifier B ar b))"
    and enc_oid_ok: "oid_valid ar \<Longrightarrow> oid_in_range ar \<Longrightarrow> length (der (Oid ar)) \<le> max_content \<Longrightarrow>
      enc_oid ar = Some (der (Oid ar))"
    and enc_oid_bad: "\<not> oid_valid ar \<Longrightarrow> enc_oid ar = None"
    and enc_oid_der: "oid_in_range ar \<Longrightarrow> enc_oid ar = Some d \<Longrightarrow> d = der (Oid ar)"
    and AddInt64: "- (2 ^ 63) \<le> v' \<Longrightarrow> v' < 2 ^ 63 \<Longrightarrow>
      appends (cb_Bytes B b) (Some (der_tlv tag_INTEGER (int_octets v')))
        (cb_Bytes B (cb_AddASN1Int64 B v' b))"
    and AddBoolean: "appends (cb_Bytes B b)
      (Some (der_tlv tag_BOOLEAN [if w then 0xFF else 0])) (cb_Bytes B (cb_AddASN1Boolean B w b))"
    and AddOctetString: "appends (cb_Bytes B b) (bounded_tlv tag_OCTET_STRING v)
      (cb_Bytes B (cb_AddASN1OctetString B v b))"
begin

text \<open>
  \<open>writes g x\<close>: whatever the builder, the calls of \<open>g\<close> append \<open>x\<close> (or fail when \<open>x\<close> is \<open>None\<close>).
  It composes along sequences of calls, loops and nested continuations, so what a piece of building
  code writes is read off its structure.
\<close>

definition writes :: "('b \<Rightarrow> 'b) \<Rightarrow> bytes option \<Rightarrow> bool" where
  "writes g x \<longleftrightarrow> (\<forall>b. appends (cb_Bytes B b) x (cb_Bytes B (g b)))"

lemma writes_id: "writes (\<lambda>b. b) (Some [])"
  by (simp add: writes_def appends_refl)

lemma writes_seq:
  "writes g x \<Longrightarrow> writes h y \<Longrightarrow>
     writes (\<lambda>b. h (g b)) (Option.bind x (\<lambda>u. Option.bind y (\<lambda>v. Some (u @ v))))"
  unfolding writes_def by (blast intro: appends_trans)

lemma writes_if:
  "(c \<Longrightarrow> writes g x) \<Longrightarrow> (\<not> c \<Longrightarrow> writes h y) \<Longrightarrow>
     writes (\<lambda>b. if c then g b else h b) (if c then x else y)"
  by simp

lemma writes_concat:
  "writes g (concat_opt xs) \<Longrightarrow> writes h y \<Longrightarrow> writes (\<lambda>b. h (g b)) (concat_opt (xs @ [y]))"
proof -
  assume "writes g (concat_opt xs)" "writes h y"
  then have "writes (\<lambda>b. h (g b))
      (Option.bind (concat_opt xs) (\<lambda>u. Option.bind y (\<lambda>v. Some (u @ v))))"
    by (rule writes_seq)
  moreover have "concat_opt [y] = y" by (auto split: option.splits)
  ultimately show ?thesis by (simp only: concat_opt_append)
qed

lemma writes_fold:
  "(\<And>a. a \<in> set as \<Longrightarrow> writes (f a) (x a)) \<Longrightarrow> writes (fold f as) (concat_opt (map x as))"
proof (induction as)
  case Nil
  then show ?case using writes_id by (simp add: id_def)
next
  case (Cons a as)
  then have "writes (\<lambda>b. fold f as (f a b))
      (Option.bind (x a) (\<lambda>u. Option.bind (concat_opt (map x as)) (\<lambda>v. Some (u @ v))))"
    by (intro writes_seq) auto
  moreover have "Option.bind (x a) (\<lambda>u. Option.bind (concat_opt (map x as)) (\<lambda>v. Some (u @ v)))
      = concat_opt (map x (a # as))"
    by (auto split: option.splits bind_splits)
  ultimately show ?case by (simp add: comp_def)
qed

lemma writes_AddBytes: "writes (cb_AddBytes B v) (Some v)"
  by (simp add: writes_def AddBytes)

lemma writes_SetError: "writes (cb_SetError B e) None"
  by (auto simp: writes_def appends_def SetError split: sum.splits)

lemma writes_AddASN1:
  "low_tag t \<Longrightarrow> writes f x \<Longrightarrow> writes (cb_AddASN1 B t f) (Option.bind x (bounded_tlv t))"
proof -
  assume t: "low_tag t" and f: "writes f x"
  have "appends (Inr []) x (cb_Bytes B (f (cb_new B)))"
    using f [unfolded writes_def] new by metis
  then have "ok_option (cb_Bytes B (f (cb_new B))) = x" by (rule appends_from_empty)
  with AddASN1 [OF t] show ?thesis unfolding writes_def by blast
qed

lemma writes_AddOID: "writes (cb_AddASN1ObjectIdentifier B ar) (enc_oid ar)"
  by (simp add: writes_def AddOID)

lemma writes_AddInt64:
  "- (2 ^ 63) \<le> v \<Longrightarrow> v < 2 ^ 63 \<Longrightarrow>
     writes (cb_AddASN1Int64 B v) (Some (der_tlv tag_INTEGER (int_octets v)))"
  by (simp add: writes_def AddInt64)

lemma writes_AddBoolean: "writes (cb_AddASN1Boolean B w) (Some (der_tlv tag_BOOLEAN [if w then 0xFF else 0]))"
  by (simp add: writes_def AddBoolean)

lemma writes_AddOctetString: "writes (cb_AddASN1OctetString B v) (bounded_tlv tag_OCTET_STRING v)"
  by (simp add: writes_def AddOctetString)

text \<open>What a whole message is: the builder starts empty.\<close>

lemma writes_message: "writes g x \<Longrightarrow> ok_option (cb_Bytes B (g (cb_new B))) = x"
  using appends_from_empty new unfolding writes_def by metis

text \<open>
  Code that writes a tree, element by element. The rules below follow the calls of the code; they
  make up the collection \<open>writes_rules\<close>.
\<close>

abbreviation writes_tree :: "('b \<Rightarrow> 'b) \<Rightarrow> asn1 \<Rightarrow> bool" where
  "writes_tree g t \<equiv> writes g (enc enc_oid t)"

abbreviation writes_trees :: "('b \<Rightarrow> 'b) \<Rightarrow> asn1 list \<Rightarrow> bool" where
  "writes_trees g ts \<equiv> writes g (concat_opt (map (enc enc_oid) ts))"

lemma writes_trees_Nil: "writes_trees (\<lambda>b. b) []"
  by (simp add: writes_id)

lemma writes_trees_append:
  "writes_trees g ts \<Longrightarrow> writes_trees h us \<Longrightarrow> writes_trees (\<lambda>b. h (g b)) (ts @ us)"
  by (simp add: concat_opt_append writes_seq)

lemma writes_tree_single: "writes_tree g t \<longleftrightarrow> writes_trees g [t]"
  by (cases "enc enc_oid t") auto

lemma writes_trees_snoc:
  "writes_trees g ts \<Longrightarrow> writes_tree h t \<Longrightarrow> writes_trees (\<lambda>b. h (g b)) (ts @ [t])"
  by (rule writes_trees_append) (simp_all add: writes_tree_single)

lemma writes_trees_if:
  "(c \<Longrightarrow> writes_trees g ts) \<Longrightarrow> writes_trees (\<lambda>b. if c then g b else b) (if c then ts else [])"
  by (simp add: writes_id)

lemma writes_trees_fold:
  "(\<And>a. a \<in> set as \<Longrightarrow> writes_tree (f a) (t a)) \<Longrightarrow> writes_trees (fold f as) (map t as)"
  using writes_fold [of as f "\<lambda>a. enc enc_oid (t a)"] by (simp add: comp_def)

lemma writes_tree_constr:
  "low_tag t \<Longrightarrow> writes_trees f ts \<Longrightarrow> writes_tree (cb_AddASN1 B t f) (Constr t ts)"
  by (simp add: writes_AddASN1)

lemma writes_tree_oid: "writes_tree (cb_AddASN1ObjectIdentifier B ar) (Oid ar)"
  by (simp add: writes_AddOID)

lemma writes_tree_raw: "writes_tree (cb_AddBytes B v) (Copied v)"
  by (simp add: writes_AddBytes)

lemma writes_tree_prim:
  "low_tag t \<Longrightarrow> writes_tree (cb_AddASN1 B t (\<lambda>b. cb_AddBytes B v b)) (Prim t v)"
  using writes_AddASN1 [OF _ writes_AddBytes] by simp

lemma writes_tree_int64:
  "- (2 ^ 63) \<le> v \<Longrightarrow> v < 2 ^ 63 \<Longrightarrow>
     writes_tree (cb_AddASN1Int64 B v) (Prim tag_INTEGER (int_octets v))"
  using writes_AddInt64 [of v] int_octets_small [of v] by (simp add: bounded_tlv_def)

lemma writes_tree_octets: "writes_tree (cb_AddASN1OctetString B v) (Prim tag_OCTET_STRING v)"
  by (simp add: writes_AddOctetString)

lemma writes_tree_boolean:
  "writes_tree (cb_AddASN1Boolean B w) (Prim tag_BOOLEAN [if w then 0xFF else 0])"
  using writes_AddBoolean by (simp add: bounded_tlv_def max_content_def)

lemmas writes_rules =
  writes_trees_Nil writes_trees_snoc writes_trees_fold writes_tree_constr writes_tree_oid
  writes_tree_raw writes_tree_prim writes_tree_int64 writes_tree_octets writes_tree_boolean

text \<open>A message whose code writes a tree is the DER of that tree.\<close>

lemma message_tree:
  assumes g: "writes_tree g t" and r: "\<forall>ar\<in>set (tree_oids t). oid_in_range ar"
    and d: "cb_Bytes B (g (cb_new B)) = Inr d"
  shows "d = der t"
proof -
  have "enc enc_oid t = Some d" using writes_message [OF g] d by simp
  then show ?thesis by (rule enc_der) (use r enc_oid_der in blast)
qed

lemma oid_length_le: "ar \<in> set (tree_oids t) \<Longrightarrow> length (der (Oid ar)) \<le> length (der t)"
proof (induction t)
  case (Constr t xs)
  then obtain x where x: "x \<in> set xs" "ar \<in> set (tree_oids x)" by auto
  have "length (der (Oid ar)) \<le> length (der x)" using Constr.IH x by blast
  also have "\<dots> \<le> length (concat (map der xs))" using x by (intro length_concat_ge) simp
  also have "\<dots> \<le> length (der (Constr t xs))"
    using length_der_tlv_ge [of "concat (map der xs)" t] by simp
  finally show ?case .
qed auto

lemma message_ok:
  assumes g: "writes_tree g t" and len: "length (der t) \<le> max_content"
    and r: "\<forall>ar\<in>set (tree_oids t). oid_in_range ar \<and> oid_valid ar"
  shows "cb_Bytes B (g (cb_new B)) = Inr (der t)"
proof -
  have "enc_oid ar = Some (der (Oid ar))" if "ar \<in> set (tree_oids t)" for ar
  proof (rule enc_oid_ok)
    show "length (der (Oid ar)) \<le> max_content"
      using oid_length_le [OF that] len by linarith
  qed (use r that in auto)
  then have "enc enc_oid t = Some (der t)" using len by (intro enc_ok) auto
  then show ?thesis using writes_message [OF g] by (simp add: ok_option_Some)
qed

lemma message_bad:
  assumes g: "writes_tree g t" and r: "ar \<in> set (tree_oids t)" "\<not> oid_valid ar"
  shows "\<exists>e. cb_Bytes B (g (cb_new B)) = Inl e"
proof -
  have "enc enc_oid t = None"
    using r
  proof (induction t)
    case (Constr t xs)
    then have "None \<in> set (map (enc enc_oid) xs)" by force
    then have "concat_opt (map (enc enc_oid) xs) = None" by (simp only: concat_opt_None)
    then show ?case by simp
  qed (auto simp: enc_oid_bad)
  then have "ok_option (cb_Bytes B (g (cb_new B))) = None" using writes_message [OF g] by simp
  then show ?thesis by (cases "cb_Bytes B (g (cb_new B))") auto
qed

end

section \<open>The reader\<close>

text \<open>
  Reads accept DER only and split the input exactly: the \<open>sound\<close> laws say what a successful read
  proves about the input, the others that canonical encodings are read back.
\<close>

definition small_arcs :: "oid \<Rightarrow> bool" where
  "small_arcs ar = (case ar of a # b # r \<Rightarrow> a * 40 + b < 2 ^ 28 \<and> (\<forall>v\<in>set r. v < 2 ^ 28) | _ \<Rightarrow> True)"

locale cryptobyte_reader =
  fixes R :: cb_reader
  assumes read_ASN1: "low_tag t \<Longrightarrow> length (der_tlv t c) \<le> max_content \<Longrightarrow>
      rd_ASN1 R t (der_tlv t c @ rest) = Some (c, rest)"
    and sound_ASN1: "rd_ASN1 R t s = Some (c, r) \<Longrightarrow> s = der_tlv t c @ r"
    and read_Element: "low_tag t \<Longrightarrow> length (der_tlv t c) \<le> max_content \<Longrightarrow>
      rd_ASN1Element R t (der_tlv t c @ rest) = Some (der_tlv t c, rest)"
    and sound_Element: "rd_ASN1Element R t s = Some (e, r) \<Longrightarrow> \<exists>c. e = der_tlv t c \<and> s = e @ r"
    and read_OID: "oid_valid ar \<Longrightarrow> small_arcs ar \<Longrightarrow> length (der (Oid ar)) \<le> max_content \<Longrightarrow>
      rd_ASN1ObjectIdentifier R (der (Oid ar) @ rest) = Some (ar, rest)"
    and sound_OID: "rd_ASN1ObjectIdentifier R s = Some (ar, r) \<Longrightarrow> s = der (Oid ar) @ r"
    and read_Int64: "- (2 ^ 63) \<le> v \<Longrightarrow> v < 2 ^ 63 \<Longrightarrow>
      rd_ASN1Int64WithTag R tag_INTEGER (der_tlv tag_INTEGER (int_octets v) @ rest) = Some (v, rest)"
    and sound_Int64: "rd_ASN1Int64WithTag R t s = Some (v, r) \<Longrightarrow> \<exists>c. s = der_tlv t c @ r"
    and optional_present: "s \<noteq> [] \<Longrightarrow> hd s = t \<Longrightarrow>
      rd_OptionalASN1 R t s = map_option (\<lambda>(c, r). (Some c, r)) (rd_ASN1 R t s)"
    and optional_absent: "s = [] \<or> hd s \<noteq> t \<Longrightarrow> rd_OptionalASN1 R t s = Some (None, s)"
begin

lemma read_optional:
  "low_tag t \<Longrightarrow> length (der_tlv t c) \<le> max_content \<Longrightarrow>
     rd_OptionalASN1 R t (der_tlv t c @ rest) = Some (Some c, rest)"
  using optional_present [of "der_tlv t c @ rest" t] by (simp add: read_ASN1)

lemma sound_optional:
  "rd_OptionalASN1 R t s = Some (Some c, r) \<Longrightarrow> s = der_tlv t c @ r"
  by (cases "s = [] \<or> hd s \<noteq> t") (auto simp: optional_present optional_absent dest: sound_ASN1)

text \<open>An element read consumes at least one byte, so a loop of such reads ends.\<close>

lemma element_progress:
  "rd_ASN1Element R t s = Some (e, r) \<Longrightarrow> length r < length s"
  using sound_Element by fastforce

end

locale cryptobyte = cryptobyte_builder + cryptobyte_reader

end
