(* ===== verification/DER_Reference.thy ===== *)
theory DER_Reference
  imports Cryptobyte
begin

text \<open>
  A concrete builder and reader of DER that satisfy the laws of the interface of
  \<open>golang.org/x/crypto/cryptobyte\<close>: they show that the laws can hold together, and let the theorems
  about the message encoders be evaluated on real inputs. The builder is the bytes written so far or
  the error to report; the reader follows X.690 and accepts minimal lengths and identifiers only.
\<close>

section \<open>The builder\<close>

definition ref_emit :: "bytes option \<Rightarrow> bytes result \<Rightarrow> bytes result" where
  "ref_emit x b =
     rbind b (\<lambda>ys. case x of None \<Rightarrow> Inl (ErrNew ''cryptobyte: value cannot be encoded'' [])
                           | Some d \<Rightarrow> Inr (ys @ d))"

definition ref_oid :: "oid \<Rightarrow> bytes option" where
  "ref_oid ar =
     (if oid_valid ar then bounded_tlv tag_OBJECT_IDENTIFIER (der_oid_content ar) else None)"

definition ref_builder :: "bytes result cb_builder" where
  "ref_builder = \<lparr>
     cb_new = Inr [],
     cb_AddBytes = (\<lambda>v. ref_emit (Some v)),
     cb_AddASN1 = (\<lambda>t f b. rbind b (\<lambda>ys.
        case f (Inr []) of
          Inl e \<Rightarrow> Inl e
        | Inr c \<Rightarrow> ref_emit (if low_tag t then bounded_tlv t c else None) b)),
     cb_AddASN1ObjectIdentifier = (\<lambda>ar. ref_emit (ref_oid ar)),
     cb_AddASN1Int64 = (\<lambda>v. ref_emit (Some (der_tlv tag_INTEGER (int_octets v)))),
     cb_AddASN1Boolean = (\<lambda>w. ref_emit (Some (der_tlv tag_BOOLEAN [if w then 0xFF else 0]))),
     cb_AddASN1OctetString = (\<lambda>v. ref_emit (bounded_tlv tag_OCTET_STRING v)),
     cb_SetError = (\<lambda>e b. Inl e),
     cb_Bytes = (\<lambda>b. b) \<rparr>"

lemma appends_ref_emit: "appends b x (ref_emit x b)"
  by (auto simp: appends_def ref_emit_def split: sum.splits option.splits)

interpretation ref: cryptobyte_builder ref_builder ref_oid
proof unfold_locales
  show "cb_Bytes ref_builder (cb_new ref_builder) = Inr []"
    by (simp add: ref_builder_def)
next
  fix b v
  show "appends (cb_Bytes ref_builder b) (Some v) (cb_Bytes ref_builder (cb_AddBytes ref_builder v b))"
    by (simp add: ref_builder_def appends_ref_emit)
next
  fix e b
  show "cb_Bytes ref_builder (cb_SetError ref_builder e b) = Inl e"
    by (simp add: ref_builder_def)
next
  fix t b and f :: "bytes result \<Rightarrow> bytes result"
  assume "low_tag t"
  then show "appends (cb_Bytes ref_builder b)
      (Option.bind (ok_option (cb_Bytes ref_builder (f (cb_new ref_builder)))) (bounded_tlv t))
      (cb_Bytes ref_builder (cb_AddASN1 ref_builder t f b))"
    by (cases b; cases "f (Inr [])")
       (auto simp: ref_builder_def appends_def ref_emit_def split: option.splits)
next
  fix ar b
  show "appends (cb_Bytes ref_builder b) (ref_oid ar)
      (cb_Bytes ref_builder (cb_AddASN1ObjectIdentifier ref_builder ar b))"
    by (simp add: ref_builder_def appends_ref_emit)
next
  fix ar
  assume "oid_valid ar" "oid_in_range ar" "length (der (Oid ar)) \<le> max_content"
  then show "ref_oid ar = Some (der (Oid ar))"
    using length_der_tlv_ge [of "der_oid_content ar" tag_OBJECT_IDENTIFIER]
    by (simp add: ref_oid_def bounded_tlv_def)
next
  fix ar
  assume "\<not> oid_valid ar"
  then show "ref_oid ar = None" by (simp add: ref_oid_def)
next
  fix ar d
  assume "ref_oid ar = Some d"
  then show "d = der (Oid ar)" by (auto simp: ref_oid_def bounded_tlv_Some split: if_splits)
next
  fix v :: int and b
  show "appends (cb_Bytes ref_builder b) (Some (der_tlv tag_INTEGER (int_octets v)))
      (cb_Bytes ref_builder (cb_AddASN1Int64 ref_builder v b))"
    by (simp add: ref_builder_def appends_ref_emit)
next
  fix w b
  show "appends (cb_Bytes ref_builder b) (Some (der_tlv tag_BOOLEAN [if w then 0xFF else 0]))
      (cb_Bytes ref_builder (cb_AddASN1Boolean ref_builder w b))"
    by (simp add: ref_builder_def appends_ref_emit)
next
  fix v b
  show "appends (cb_Bytes ref_builder b) (bounded_tlv tag_OCTET_STRING v)
      (cb_Bytes ref_builder (cb_AddASN1OctetString ref_builder v b))"
    by (simp add: ref_builder_def appends_ref_emit)
qed

section \<open>The reader\<close>

text \<open>The length octets of an element: the length and what follows.\<close>

definition ref_length :: "bytes \<Rightarrow> (nat \<times> bytes) option" where
  "ref_length s =
     (case s of
        [] \<Rightarrow> None
      | l # r \<Rightarrow>
          if unat l < 128 then Some (unat l, r)
          else (let k = unat l - 128; n = radix_val 256 (map unat (take k r)) in
                if k = 0 \<or> k > 4 \<or> length r < k then None
                else if n < 128 \<or> n div 256 ^ (k - 1) = 0 then None
                else Some (n, drop k r)))"

definition ref_any :: "bytes \<Rightarrow> (byte \<times> bytes \<times> bytes) option" where
  "ref_any s =
     (case s of
        [] \<Rightarrow> None
      | t # r \<Rightarrow>
          if \<not> low_tag t then None
          else (case ref_length r of
                  None \<Rightarrow> None
                | Some (n, q) \<Rightarrow>
                    if length q < n \<or> length s - length q + n \<ge> 2 ^ 32 then None
                    else Some (t, take n q, drop n q)))"

definition ref_ASN1 :: "byte \<Rightarrow> bytes \<Rightarrow> (bytes \<times> bytes) option" where
  "ref_ASN1 t s =
     (case ref_any s of
        None \<Rightarrow> None | Some (t', c, r) \<Rightarrow> if t' = t then Some (c, r) else None)"

text \<open>Base 128: at most five octets, no leading \<open>0x80\<close>, the last one below \<open>0x80\<close>.\<close>

fun ref_base128 :: "nat \<Rightarrow> nat \<Rightarrow> bytes \<Rightarrow> (int \<times> bytes) option" where
  "ref_base128 i a [] = None"
| "ref_base128 i a (b # bs) =
     (if i = 5 \<or> a \<ge> 2 ^ 24 \<or> (i = 0 \<and> b = 0x80) then None
      else if unat b < 128 then Some (int (a * 128 + unat b), bs)
      else ref_base128 (Suc i) (a * 128 + (unat b - 128)) bs)"

lemma ref_base128_shorter: "ref_base128 i a s = Some (v, r) \<Longrightarrow> length r < length s"
  by (induction i a s rule: ref_base128.induct) (auto split: if_splits)

function ref_arcs :: "bytes \<Rightarrow> int list option" where
  "ref_arcs s =
     (if s = [] then Some []
      else (case ref_base128 0 0 s of
              None \<Rightarrow> None
            | Some (v, r) \<Rightarrow> map_option ((#) v) (ref_arcs r)))"
  by pat_completeness auto
termination
  by (relation "measure length") (auto dest: ref_base128_shorter)

declare ref_arcs.simps [simp del]

definition ref_first_arcs :: "int \<Rightarrow> int list" where
  "ref_first_arcs v = (if v < 80 then [v div 40, v mod 40] else [2, v - 80])"

definition ref_OID :: "bytes \<Rightarrow> (oid \<times> bytes) option" where
  "ref_OID s =
     (case ref_ASN1 tag_OBJECT_IDENTIFIER s of
        None \<Rightarrow> None
      | Some (c, r) \<Rightarrow>
          (case ref_arcs c of
             Some (v # vs) \<Rightarrow> Some (ref_first_arcs v @ vs, r)
           | _ \<Rightarrow> None))"

definition ref_signed :: "bytes \<Rightarrow> int" where
  "ref_signed bs =
     (let n = int (radix_val 256 (map unat bs)) in
      if bs \<noteq> [] \<and> unat (hd bs) \<ge> 128 then n - 256 ^ length bs else n)"

definition ref_Int64 :: "byte \<Rightarrow> bytes \<Rightarrow> (int \<times> bytes) option" where
  "ref_Int64 t s =
     (case ref_ASN1 t s of
        None \<Rightarrow> None
      | Some (c, r) \<Rightarrow> if length c > 8 then None else Some (ref_signed c, r))"

definition ref_reader :: cb_reader where
  "ref_reader = \<lparr>
     rd_ASN1 = ref_ASN1,
     rd_ASN1Element = (\<lambda>t s. map_option (\<lambda>(c, r). (take (length s - length r) s, r)) (ref_ASN1 t s)),
     rd_ASN1ObjectIdentifier = ref_OID,
     rd_ASN1Int64WithTag = ref_Int64,
     rd_OptionalASN1 = (\<lambda>t s.
        if s \<noteq> [] \<and> hd s = t then map_option (\<lambda>(c, r). (Some c, r)) (ref_ASN1 t s)
        else Some (None, s)) \<rparr>"

subsection \<open>Lengths\<close>

lemma unat_word_of_nat_byte: "n < 256 \<Longrightarrow> unat (word_of_nat n :: byte) = n"
  by (simp add: unat_of_nat take_bit_eq_mod)

lemma map_unat_be_octets: "map unat (be_octets n) = radix 256 n"
proof -
  have "map (\<lambda>d. unat (word_of_nat d :: byte)) (radix 256 n) = radix 256 n"
    using radix_digits [of 256 _ n] by (intro map_idI) (simp add: unat_word_of_nat_byte)
  then show ?thesis by (simp add: be_octets_def comp_def)
qed

lemma be_octets_of_digits: "map unat ds = radix 256 n \<Longrightarrow> ds = be_octets n"
proof -
  assume "map unat ds = radix 256 n"
  then have "map word_of_nat (map unat ds) = be_octets n" by (simp add: be_octets_def)
  then show ?thesis by (simp add: comp_def)
qed

lemma length_be_octets: "0 < k \<Longrightarrow> length (be_octets n) \<le> k \<longleftrightarrow> n < 256 ^ k"
  by (simp add: be_octets_def radix_length_iff)

lemma ref_length_der:
  "n < 2 ^ 32 \<Longrightarrow> ref_length (der_length n @ r) = Some (n, r)"
proof (cases "n < 128")
  case True
  then show ?thesis by (simp add: ref_length_def der_length_def unat_word_of_nat_byte)
next
  case False
  assume n: "n < 2 ^ 32"
  let ?k = "length (be_octets n)"
  from n have k: "?k \<le> 4" using length_be_octets [of 4 n] by simp
  moreover have "?k \<noteq> 0" by (simp add: be_octets_def)
  moreover have "256 ^ (?k - 1) \<le> n"
    using radix_lower [of 256 n] False by (simp add: be_octets_def)
  then have "n div 256 ^ (?k - 1) \<noteq> 0" by (simp add: div_greater_zero_iff)
  moreover have "radix_val 256 (map unat (be_octets n)) = n"
    by (simp add: map_unat_be_octets)
  moreover have "unat (word_of_nat (128 + ?k) :: byte) = 128 + ?k"
    using k by (intro unat_word_of_nat_byte) simp
  ultimately show ?thesis
    using False by (simp add: ref_length_def der_length_def Let_def del: of_nat_add)
qed

lemma ref_length_sound: "ref_length s = Some (n, r) \<Longrightarrow> s = der_length n @ r"
proof -
  assume a: "ref_length s = Some (n, r)"
  then obtain l q where s: "s = l # q" by (auto simp: ref_length_def split: list.splits)
  show ?thesis
  proof (cases "unat l < 128")
    case True
    with a s show ?thesis by (auto simp: ref_length_def der_length_def)
  next
    case False
    let ?k = "unat l - 128"
    let ?ds = "map unat (take ?k q)"
    from a s False have k: "?k \<noteq> 0" "?k \<le> 4" "?k \<le> length q"
      and n: "n = radix_val 256 ?ds" "\<not> n < 128" "n div 256 ^ (?k - 1) \<noteq> 0" "r = drop ?k q"
      by (auto simp: ref_length_def Let_def split: if_splits)
    have len: "length ?ds = ?k" using k by simp
    have small: "\<forall>d\<in>set ?ds. d < 256" by auto
    obtain d es where ds: "?ds = d # es" using k by (cases ?ds) auto
    have "d \<noteq> 0"
    proof
      assume "d = 0"
      then have "n = radix_val 256 es" using n ds by (simp add: radix_val_Cons)
      also have "\<dots> < 256 ^ length es"
        using radix_val_less [of es 256] small ds by simp
      also have "length es = ?k - 1" using len ds by simp
      finally show False using n(3) by simp
    qed
    then have "radix 256 n = ?ds"
      unfolding n(1) using ds small by (intro radix_of_digits) auto
    then have be: "take ?k q = be_octets n" using be_octets_of_digits by metis
    have "q = be_octets n @ r" using be n(4) by (metis append_take_drop_id)
    moreover have "length (be_octets n) = ?k" using be k by (metis length_take min.absorb2)
    moreover have "word_of_nat (128 + ?k) = l" using False by simp
    ultimately show ?thesis using s n(2) by (simp add: der_length_def)
  qed
qed

subsection \<open>Elements\<close>

lemma max_content_bound: "n \<le> max_content \<Longrightarrow> n < 2 ^ 32"
  by (simp add: max_content_def)

lemma ref_any_der:
  "low_tag t \<Longrightarrow> length (der_tlv t c) \<le> max_content \<Longrightarrow>
     ref_any (der_tlv t c @ r) = Some (t, c, r)"
proof -
  assume t: "low_tag t" and l: "length (der_tlv t c) \<le> max_content"
  have "length c < 2 ^ 32"
    using l length_der_tlv_ge [of c t] max_content_bound [of "length c"] by simp
  then have "ref_length (der_length (length c) @ c @ r) = Some (length c, c @ r)"
    by (rule ref_length_der)
  then show ?thesis
    using t l by (simp add: ref_any_def der_tlv_def max_content_def)
qed

lemma ref_any_sound: "ref_any s = Some (t, c, r) \<Longrightarrow> s = der_tlv t c @ r"
  by (auto simp: ref_any_def der_tlv_def dest!: ref_length_sound split: list.splits if_splits option.splits)

lemma ref_ASN1_der:
  "low_tag t \<Longrightarrow> length (der_tlv t c) \<le> max_content \<Longrightarrow> ref_ASN1 t (der_tlv t c @ r) = Some (c, r)"
  by (simp add: ref_ASN1_def ref_any_der)

lemma ref_ASN1_sound: "ref_ASN1 t s = Some (c, r) \<Longrightarrow> s = der_tlv t c @ r"
  by (auto simp: ref_ASN1_def dest!: ref_any_sound split: option.splits if_splits)

subsection \<open>Object identifiers\<close>

abbreviation "arc_val \<equiv> foldl (\<lambda>a d. a * 128 + d) :: nat \<Rightarrow> nat list \<Rightarrow> nat"

abbreviation "continued ds \<equiv> map (\<lambda>d. word_of_nat (128 + d) :: byte) ds"

lemma arc_val_ge: "a \<le> arc_val a ds"
proof (induction ds arbitrary: a)
  case (Cons d ds)
  have "a \<le> a * 128 + d" by simp
  also have "\<dots> \<le> arc_val (a * 128 + d) ds" by (rule Cons.IH)
  finally show ?case by simp
qed simp

lemma unat_continued: "d < 128 \<Longrightarrow> unat (word_of_nat (128 + d) :: byte) = 128 + d"
  by (intro unat_word_of_nat_byte) simp

lemma ref_base128_read:
  "\<forall>x\<in>set ds. x < 128 \<Longrightarrow> d < 128 \<Longrightarrow> i + length ds < 5 \<Longrightarrow> arc_val a ds < 2 ^ 24 \<Longrightarrow>
     i \<noteq> 0 \<or> ds = [] \<or> hd ds \<noteq> 0 \<Longrightarrow>
     ref_base128 i a (continued ds @ word_of_nat d # r) = Some (int (arc_val a ds * 128 + d), r)"
proof (induction ds arbitrary: i a)
  case Nil
  have u: "unat (word_of_nat d :: byte) = d" using Nil.prems(2) by (simp add: unat_word_of_nat_byte)
  then have "(word_of_nat d :: byte) \<noteq> 0x80" using Nil.prems(2) by auto
  with Nil.prems u show ?case by simp
next
  case (Cons x xs)
  have "a \<le> arc_val (a * 128 + x) xs" using arc_val_ge [of "a * 128 + x" xs] by simp
  with Cons.prems have a: "a < 2 ^ 24" by simp
  have ux: "unat (word_of_nat (128 + x) :: byte) = 128 + x"
    using Cons.prems by (intro unat_continued) simp
  then have nz: "i = 0 \<longrightarrow> (word_of_nat (128 + x) :: byte) \<noteq> 0x80"
    using Cons.prems(5) by auto
  show ?case
    using Cons.IH [of "Suc i" "a * 128 + x"] Cons.prems a ux nz
    by (cases "i = 0") (simp_all del: of_nat_add)
qed

lemma base128_split:
  "0 \<le> n \<Longrightarrow> base128 n = continued (butlast (radix 128 (nat n))) @ [word_of_nat (last (radix 128 (nat n)))]"
  by (simp add: base128_def Let_def)

lemma ref_base128_der:
  "0 \<le> n \<Longrightarrow> n < 2 ^ 28 \<Longrightarrow> ref_base128 0 0 (base128 n @ r) = Some (n, r)"
proof -
  assume n: "0 \<le> n" "n < 2 ^ 28"
  let ?ds = "butlast (radix 128 (nat n))" and ?d = "last (radix 128 (nat n))"
  have r: "radix 128 (nat n) = ?ds @ [?d]" by simp
  have small: "\<forall>x\<in>set (radix 128 (nat n)). x < 128" using radix_digits [of 128] by auto
  have "length (radix 128 (nat n)) \<le> 4" using n by (simp add: radix_length_iff nat_less_iff)
  then have len: "length ?ds < 5" by simp
  have v: "arc_val 0 ?ds * 128 + ?d = nat n"
    using radix_value [of 128 "nat n"] r radix_val_snoc [of 128 ?ds ?d]
    by (simp add: radix_val_def)
  then have "arc_val 0 ?ds * 128 < 2 ^ 28" using n by (simp add: nat_less_iff)
  then have bound: "arc_val 0 ?ds < 2 ^ 24" by simp
  have hd: "?ds = [] \<or> hd ?ds \<noteq> 0"
  proof (cases "nat n = 0")
    case False
    then have "0 < hd (radix 128 (nat n))" by (intro radix_hd_pos) auto
    then show ?thesis using r by (metis hd_append2 less_not_refl)
  qed simp
  have "ref_base128 0 0 (continued ?ds @ word_of_nat ?d # r)
      = Some (int (arc_val 0 ?ds * 128 + ?d), r)"
  proof (rule ref_base128_read)
    show "\<forall>x\<in>set ?ds. x < 128" using small by (meson in_set_butlastD)
    show "?d < 128" using small last_in_set [of "radix 128 (nat n)"] by simp
  qed (use len bound hd in auto)
  then show ?thesis using n v by (simp add: base128_split del: of_nat_add of_nat_mult)
qed

lemma ref_base128_sound:
  "ref_base128 i a s = Some (v, r) \<Longrightarrow>
     \<exists>ds d. s = continued ds @ word_of_nat d # r \<and> (\<forall>x\<in>set ds. x < 128) \<and> d < 128 \<and>
       v = int (arc_val a ds * 128 + d) \<and> v < 2 ^ 31 \<and> (i = 0 \<longrightarrow> ds = [] \<or> hd ds \<noteq> 0)"
proof (induction i a s rule: ref_base128.induct)
  case (1 i a)
  then show ?case by simp
next
  case (2 i a b bs)
  show ?case
  proof (cases "unat b < 128")
    case True
    with "2.prems" have a: "a < 2 ^ 24" and v: "v = int (a * 128 + unat b)" "r = bs"
      and z: "i = 0 \<longrightarrow> b \<noteq> 0x80"
      by (auto split: if_splits)
    have "a * 128 + unat b < 2 ^ 31" using a True by simp
    then have "v < 2 ^ 31" unfolding v(1) by (simp only: of_nat_less_numeral_power_cancel_iff)
    with True v show ?thesis
      by (intro exI [of _ "[]"] exI [of _ "unat b"]) auto
  next
    case False
    let ?x = "unat b - 128"
    have b: "b = word_of_nat (128 + ?x)" using False by simp
    have x: "?x < 128" using unat_byte [of b] by linarith
    from False "2.prems" have g: "\<not> (i = 5 \<or> 2 ^ 24 \<le> a \<or> i = 0 \<and> b = 0x80)"
      and n: "ref_base128 (Suc i) (a * 128 + ?x) bs = Some (v, r)"
      by (auto split: if_splits)
    from "2.IH" [OF g False n] obtain ds d where
      ds: "bs = continued ds @ word_of_nat d # r" "\<forall>x\<in>set ds. x < 128" "d < 128"
      "v = int (arc_val (a * 128 + ?x) ds * 128 + d)" "v < 2 ^ 31"
      by auto
    have "i = 0 \<longrightarrow> ?x \<noteq> 0"
    proof (intro impI notI)
      assume "i = 0" "?x = 0"
      with b have "b = 0x80" by simp
      with g \<open>i = 0\<close> show False by simp
    qed
    with ds b x show ?thesis
      by (intro exI [of _ "?x # ds"] exI [of _ d]) (simp del: of_nat_add)
  qed
qed

lemma ref_base128_canonical:
  "ref_base128 0 0 s = Some (v, r) \<Longrightarrow> s = base128 v @ r \<and> 0 \<le> v \<and> v < 2 ^ 31"
proof -
  assume "ref_base128 0 0 s = Some (v, r)"
  then obtain ds d where ds: "s = continued ds @ word_of_nat d # r" "\<forall>x\<in>set ds. x < 128" "d < 128"
    "v = int (arc_val 0 ds * 128 + d)" "v < 2 ^ 31" "ds = [] \<or> hd ds \<noteq> 0"
    using ref_base128_sound [of 0 0 s v r] by auto
  have v: "nat v = radix_val 128 (ds @ [d])" using ds(4) by (simp add: radix_val_def)
  have "radix 128 (nat v) = ds @ [d]"
  proof (cases "ds = []")
    case True
    then show ?thesis using v ds(3) by simp
  next
    case False
    then show ?thesis unfolding v using ds by (intro radix_of_digits) auto
  qed
  then show ?thesis using ds by (simp add: base128_split del: of_nat_add of_nat_mult)
qed

lemma ref_arcs_der: "\<forall>v\<in>set vs. 0 \<le> v \<and> v < 2 ^ 28 \<Longrightarrow> ref_arcs (concat (map base128 vs)) = Some vs"
proof (induction vs)
  case Nil
  then show ?case by (simp add: ref_arcs.simps)
next
  case (Cons v vs)
  then have "base128 v \<noteq> []" by (simp add: base128_split)
  with Cons show ?case by (subst ref_arcs.simps) (simp add: ref_base128_der)
qed

lemma ref_arcs_sound:
  "ref_arcs s = Some vs \<Longrightarrow> s = concat (map base128 vs) \<and> (\<forall>v\<in>set vs. 0 \<le> v \<and> v < 2 ^ 31)"
proof (induction s arbitrary: vs rule: ref_arcs.induct)
  case (1 s)
  show ?case
  proof (cases "s = []")
    case True
    with "1.prems" show ?thesis by (simp add: ref_arcs.simps)
  next
    case False
    with "1.prems" obtain v r ws where v: "ref_base128 0 0 s = Some (v, r)" "ref_arcs r = Some ws"
      "vs = v # ws"
      by (subst (asm) ref_arcs.simps) (auto split: option.splits)
    with "1.IH" [OF False v(1) refl v(2)] ref_base128_canonical [OF v(1)] show ?thesis by simp
  qed
qed

lemma ref_first_arcs: "a \<le> 2 \<Longrightarrow> (a \<le> 1 \<longrightarrow> b < 40) \<Longrightarrow> 0 \<le> a \<Longrightarrow> 0 \<le> b \<Longrightarrow> ref_first_arcs (a * 40 + b) = [a, b]"
  by (cases "a = 0"; cases "a = 1") (auto simp: ref_first_arcs_def)

lemma ref_first_arcs_back: "0 \<le> v \<Longrightarrow> \<exists>a b. ref_first_arcs v = [a, b] \<and> a * 40 + b = v"
  by (auto simp: ref_first_arcs_def)

lemma ref_OID_der:
  assumes ar: "oid_valid ar" "small_arcs ar" "length (der (Oid ar)) \<le> max_content"
  shows "ref_OID (der (Oid ar) @ rest) = Some (ar, rest)"
proof -
  obtain a b r where o: "ar = a # b # r"
    using ar(1) by (auto simp: oid_valid_def split: list.splits)
  then have v: "a \<le> 2" "a \<le> 1 \<longrightarrow> b < 40" "0 \<le> a" "0 \<le> b" "\<forall>v\<in>set r. 0 \<le> v"
    and s: "a * 40 + b < 2 ^ 28" "\<forall>v\<in>set r. v < 2 ^ 28"
    using ar by (auto simp: oid_valid_def small_arcs_def)
  have "wrap64 (a * 40 + b) = a * 40 + b" using v s by (intro wrap64_id) auto
  then have "der_oid_content ar = concat (map base128 ((a * 40 + b) # r))"
    by (simp add: der_oid_content_def o)
  moreover have "ref_arcs (concat (map base128 ((a * 40 + b) # r))) = Some ((a * 40 + b) # r)"
    using v s by (intro ref_arcs_der) auto
  moreover have "ref_first_arcs (a * 40 + b) = [a, b]"
    by (rule ref_first_arcs [OF v(1,2,3,4)])
  moreover have "ref_ASN1 tag_OBJECT_IDENTIFIER (der (Oid ar) @ rest) = Some (der_oid_content ar, rest)"
    using ar(3) by (simp add: ref_ASN1_der low_tag_def)
  ultimately show ?thesis by (simp add: ref_OID_def o)
qed

lemma ref_OID_sound:
  assumes "ref_OID s = Some (ar, r)"
  shows "s = der (Oid ar) @ r"
proof -
  from assms obtain c v vs where c: "ref_ASN1 tag_OBJECT_IDENTIFIER s = Some (c, r)"
    "ref_arcs c = Some (v # vs)" "ar = ref_first_arcs v @ vs"
    by (auto simp: ref_OID_def split: option.splits list.splits)
  from ref_arcs_sound [OF c(2)] have v: "c = base128 v @ concat (map base128 vs)" "0 \<le> v" "v < 2 ^ 31"
    by auto
  obtain a b where ab: "ref_first_arcs v = [a, b]" "a * 40 + b = v"
    using ref_first_arcs_back [OF v(2)] by blast
  have "wrap64 v = v" using v by (intro wrap64_id) auto
  then have "der_oid_content ar = c" using c(3) ab v(1) by (simp add: der_oid_content_def)
  then show ?thesis using ref_ASN1_sound [OF c(1)] by simp
qed

subsection \<open>Integers\<close>

lemma unat_word_of_int_byte: "unat (word_of_int v :: byte) = nat (v mod 256)"
  by (simp add: unat_eq_nat_uint uint_word_of_int)

lemma ref_signed_single: "-128 \<le> v \<Longrightarrow> v < 128 \<Longrightarrow> ref_signed [word_of_int v] = v"
proof -
  assume "-128 \<le> v" "v < 128"
  moreover from this have "(v + 256) mod 256 = v + 256" if "v < 0"
    using that by (intro mod_pos_pos_trivial) auto
  ultimately have "v mod 256 = (if v < 0 then v + 256 else v)" by auto
  with \<open>-128 \<le> v\<close> \<open>v < 128\<close> show ?thesis
    by (auto simp: ref_signed_def unat_word_of_int_byte Let_def nat_le_eq_zle)
qed

lemma ref_signed_snoc: "bs \<noteq> [] \<Longrightarrow> ref_signed (bs @ [x]) = ref_signed bs * 256 + int (unat x)"
  by (auto simp: ref_signed_def Let_def hd_append algebra_simps)

lemma ref_signed_octets: "ref_signed (int_octets v) = v"
proof (induction v rule: int_octets.induct)
  case (1 v)
  show ?case
  proof (cases "-128 \<le> v \<and> v < 128")
    case True
    then show ?thesis by (subst int_octets.simps) (simp add: ref_signed_single)
  next
    case False
    then have "ref_signed (int_octets v) = v div 256 * 256 + int (unat (word_of_int v :: byte))"
      using 1 by (subst int_octets.simps) (auto simp: ref_signed_snoc)
    then show ?thesis by (simp add: unat_word_of_int_byte)
  qed
qed

lemma ref_Int64_der:
  assumes "- (2 ^ 63) \<le> v" "v < 2 ^ 63"
  shows "ref_Int64 tag_INTEGER (der_tlv tag_INTEGER (int_octets v) @ rest) = Some (v, rest)"
proof -
  have len: "length (int_octets v) \<le> 8" using length_int_octets [of 7 v] assms by simp
  then have "length (der_tlv tag_INTEGER (int_octets v)) \<le> max_content"
    by (simp add: der_tlv_def der_length_def max_content_def)
  then show ?thesis
    using len by (simp add: ref_Int64_def ref_ASN1_der low_tag_def ref_signed_octets)
qed

lemma ref_Element_sound:
  assumes "ref_ASN1 t s = Some (c, r)"
  shows "take (length s - length r) s = der_tlv t c"
  using ref_ASN1_sound [OF assms] by simp

lemma ref_Int64_sound: "ref_Int64 t s = Some (v, r) \<Longrightarrow> \<exists>c. s = der_tlv t c @ r"
  by (auto simp: ref_Int64_def dest!: ref_ASN1_sound split: option.splits if_splits)

lemma ref_reader_simps [simp]:
  "rd_ASN1 ref_reader = ref_ASN1"
  "rd_ASN1Element ref_reader t s = map_option (\<lambda>(c, r). (take (length s - length r) s, r)) (ref_ASN1 t s)"
  "rd_ASN1ObjectIdentifier ref_reader = ref_OID"
  "rd_ASN1Int64WithTag ref_reader = ref_Int64"
  "rd_OptionalASN1 ref_reader t s =
     (if s \<noteq> [] \<and> hd s = t then map_option (\<lambda>(c, r). (Some c, r)) (ref_ASN1 t s) else Some (None, s))"
  by (simp_all add: ref_reader_def)

interpretation ref: cryptobyte_reader ref_reader
proof unfold_locales
  show "\<exists>c. e = der_tlv t c \<and> s = e @ r" if "rd_ASN1Element ref_reader t s = Some (e, r)" for t s e r
    using that by (auto simp: ref_Element_sound dest: ref_ASN1_sound)
qed (simp_all only: ref_reader_simps ref_ASN1_der ref_OID_der ref_Int64_der ref_ASN1_sound
      ref_OID_sound ref_Int64_sound, simp_all)

interpretation ref: cryptobyte ref_builder ref_oid ref_reader ..

end
