(* ===== verification/Go_Base64.thy ===== *)
theory Go_Base64
  imports Go_Text
begin

text \<open>
  \<open>base64.StdEncoding\<close> of Go's \<open>encoding/base64\<close>: the standard alphabet, padding required, trailing
  bits not checked, and carriage returns and line feeds skipped by the decoder wherever they
  occur. A decoding error is a \<open>CorruptInputError\<close>, the offset of the offending byte.
\<close>

definition b64_alphabet :: string where
  "b64_alphabet = ''ABCDEFGHIJKLMNOPQRSTUVWXYZabcdefghijklmnopqrstuvwxyz0123456789+/''"

definition b64_char :: "nat \<Rightarrow> char" where
  "b64_char n =
     (if n < 26 then char_of (65 + n)
      else if n < 52 then char_of (71 + n)
      else if n < 62 then char_of (n - 4)
      else if n = 62 then CHR ''+'' else CHR ''/'')"

definition b64_val :: "char \<Rightarrow> nat option" where
  "b64_val c =
     (let n = of_char c :: nat in
      if 65 \<le> n \<and> n \<le> 90 then Some (n - 65)
      else if 97 \<le> n \<and> n \<le> 122 then Some (n - 71)
      else if 48 \<le> n \<and> n \<le> 57 then Some (n + 4)
      else if n = 43 then Some 62
      else if n = 47 then Some 63
      else None)"

definition is_newline :: "char \<Rightarrow> bool" where
  "is_newline c = (c = CHR 0x0A \<or> c = CHR 0x0D)"

text \<open>\<open>EncodeToString\<close>: three bytes to four characters, the last group padded.\<close>

fun b64_encode :: "bytes \<Rightarrow> string" where
  "b64_encode [] = []"
| "b64_encode [a] =
     [b64_char (unat a div 4), b64_char (unat a mod 4 * 16), CHR ''='', CHR ''='']"
| "b64_encode [a, b] =
     [b64_char (unat a div 4), b64_char (unat a mod 4 * 16 + unat b div 16),
      b64_char (unat b mod 16 * 4), CHR ''='']"
| "b64_encode (a # b # c # r) =
     [b64_char (unat a div 4), b64_char (unat a mod 4 * 16 + unat b div 16),
      b64_char (unat b mod 16 * 4 + unat c div 64), b64_char (unat c mod 64)] @ b64_encode r"

text \<open>The bytes of a quantum of two, three or four digits.\<close>

definition quantum :: "nat list \<Rightarrow> bytes" where
  "quantum ds =
     (case ds of
        [a, b] \<Rightarrow> [word_of_nat (a * 4 + b div 16)]
      | [a, b, c] \<Rightarrow> [word_of_nat (a * 4 + b div 16), word_of_nat (b mod 16 * 16 + c div 4)]
      | [a, b, c, d] \<Rightarrow> [word_of_nat (a * 4 + b div 16), word_of_nat (b mod 16 * 16 + c div 4),
                       word_of_nat (c mod 4 * 64 + d)]
      | _ \<Rightarrow> [])"

fun skip_newlines :: "nat \<Rightarrow> string \<Rightarrow> nat \<times> string" where
  "skip_newlines i [] = (i, [])"
| "skip_newlines i (c # cs) = (if is_newline c then skip_newlines (Suc i) cs else (i, c # cs))"

text \<open>After the last padding character only line breaks may follow.\<close>

definition b64_finish :: "nat \<Rightarrow> string \<Rightarrow> nat list \<Rightarrow> nat + bytes" where
  "b64_finish i cs ds =
     (case skip_newlines i cs of (j, rest) \<Rightarrow> if rest = [] then Inr (quantum ds) else Inl j)"

text \<open>
  \<open>decodeQuantum\<close> and the loop around it: \<open>i\<close> is the offset of the next byte, \<open>ds\<close> the digits
  of the quantum read so far.
\<close>

fun b64_dec :: "nat \<Rightarrow> nat list \<Rightarrow> string \<Rightarrow> nat + bytes" where
  "b64_dec i ds [] = (if ds = [] then Inr [] else Inl (i - length ds))"
| "b64_dec i ds (c # cs) =
     (case b64_val c of
        Some v \<Rightarrow>
          (if length ds = 3
           then (case b64_dec (Suc i) [] cs of
                   Inl e \<Rightarrow> Inl e | Inr r \<Rightarrow> Inr (quantum (ds @ [v]) @ r))
           else b64_dec (Suc i) (ds @ [v]) cs)
      | None \<Rightarrow>
          if is_newline c then b64_dec (Suc i) ds cs
          else if c \<noteq> CHR ''='' then Inl i
          else if length ds < 2 then Inl i
          else if length ds = 2
          then (case skip_newlines (Suc i) cs of
                  (j, []) \<Rightarrow> Inl j
                | (j, d # r) \<Rightarrow>
                    if d \<noteq> CHR ''='' then Inl (j - 1) else b64_finish (Suc j) r ds)
          else b64_finish (Suc i) cs ds)"

definition b64_DecodeString :: "string \<Rightarrow> bytes result" where
  "b64_DecodeString s =
     (case b64_dec 0 [] s of
        Inl n \<Rightarrow> Inl (ErrNew ''illegal base64 data at input byte %d'' [FInt (int n)])
      | Inr bs \<Rightarrow> Inr bs)"

section \<open>Round trip\<close>

lemma char_code_simps:
  "n < 256 \<Longrightarrow> of_char (char_of n :: char) = n" for n :: nat
  by simp

lemma b64_val_char [simp]: "n < 64 \<Longrightarrow> b64_val (b64_char n) = Some n"
  by (auto simp: b64_val_def b64_char_def Let_def)

lemma b64_char_not_newline [simp]: "n < 64 \<Longrightarrow> \<not> is_newline (b64_char n)"
proof
  assume "n < 64" "is_newline (b64_char n)"
  then have "b64_val (b64_char n) = None" by (auto simp: is_newline_def b64_val_def)
  with \<open>n < 64\<close> show False by simp
qed

lemma b64_val_pad [simp]: "b64_val CHR ''='' = None"
  by (simp add: b64_val_def)

lemma is_newline_pad [simp]: "\<not> is_newline CHR ''=''"
  by (simp add: is_newline_def)

lemma byte_parts:
  "unat (a :: byte) div 4 < 64" "unat a mod 4 * 16 < 64" "unat a div 64 < 4"
  "unat a mod 4 * 16 + unat (b :: byte) div 16 < 64" "unat b mod 16 * 4 + unat (c :: byte) div 64 < 64"
  "unat b mod 16 * 4 < 64"
  using unat_byte [of a] unat_byte [of b] unat_byte [of c] by linarith+

lemma div_mod_small: "k < n \<Longrightarrow> (m * n + k) div n = m" "k < n \<Longrightarrow> (m * n + k) mod n = k"
  for m n k :: nat
  by simp_all

lemma byte_join:
  "unat (a :: byte) div 4 * 4 + (unat a mod 4 * 16 + unat (b :: byte) div 16) div 16 = unat a"
  "(unat a mod 4 * 16 + unat b div 16) mod 16 * 16 + (unat b mod 16 * 4 + unat (c :: byte) div 64) div 4 = unat b"
  "(unat b mod 16 * 4 + unat c div 64) mod 4 * 64 + unat c mod 64 = unat c"
proof -
  have b: "unat b div 16 < 16" and c: "unat c div 64 < 4"
    using unat_byte [of b] unat_byte [of c] by linarith+
  show "unat a div 4 * 4 + (unat a mod 4 * 16 + unat b div 16) div 16 = unat a"
    by (simp only: div_mod_small [OF b] div_mult_mod_eq)
  show "(unat a mod 4 * 16 + unat b div 16) mod 16 * 16 + (unat b mod 16 * 4 + unat c div 64) div 4 = unat b"
    by (simp only: div_mod_small [OF b] div_mod_small [OF c] div_mult_mod_eq)
  show "(unat b mod 16 * 4 + unat c div 64) mod 4 * 64 + unat c mod 64 = unat c"
    by (simp only: div_mod_small [OF c] div_mult_mod_eq)
qed

lemma b64_dec_encode: "b64_dec i [] (b64_encode bs) = Inr bs"
proof (induction bs arbitrary: i rule: b64_encode.induct)
  case 1
  then show ?case by simp
next
  case (2 a)
  have "unat a div 4 * 4 + unat a mod 4 * 16 div 16 = unat a" by simp
  then show ?case by (simp add: byte_parts b64_finish_def quantum_def del: of_nat_add of_nat_mult)
next
  case (3 a b)
  then show ?case
    using byte_join(1) [of a b] byte_join(2) [of a b 0]
    by (simp add: byte_parts b64_finish_def quantum_def del: of_nat_add of_nat_mult)
next
  case (4 a b c r)
  then show ?case
    using byte_join(1) [of a b] byte_join(2) [of a b c] byte_join(3) [of b c]
    by (simp add: byte_parts quantum_def del: of_nat_add of_nat_mult)
qed

theorem b64_DecodeString_encode: "b64_DecodeString (b64_encode bs) = Inr bs"
  by (simp add: b64_DecodeString_def b64_dec_encode)

section \<open>Line breaks and foreign bytes\<close>

lemma skip_newlines_filter:
  "snd (skip_newlines i cs) = [] \<longleftrightarrow> filter (\<lambda>c. \<not> is_newline c) cs = []"
  by (induction i cs rule: skip_newlines.induct) auto

lemma skip_newlines_Cons:
  "skip_newlines i cs = (j, d # r) \<Longrightarrow>
     filter (\<lambda>c. \<not> is_newline c) cs = d # filter (\<lambda>c. \<not> is_newline c) r \<and> \<not> is_newline d"
  by (induction i cs rule: skip_newlines.induct) (auto split: if_splits)

lemma skip_newlines_clean:
  "skip_newlines i (filter (\<lambda>c. \<not> is_newline c) cs) = (i, filter (\<lambda>c. \<not> is_newline c) cs)"
  by (cases "filter (\<lambda>c. \<not> is_newline c) cs")
     (auto simp: filter_eq_Cons_iff)

lemma b64_finish_ok:
  "b64_finish i cs ds = Inr r \<longleftrightarrow> filter (\<lambda>c. \<not> is_newline c) cs = [] \<and> r = quantum ds"
  using skip_newlines_filter [of i cs] by (auto simp: b64_finish_def split: prod.splits)

lemma b64_finish_clean:
  "b64_finish i cs ds = Inr r \<longleftrightarrow> b64_finish j (filter (\<lambda>c. \<not> is_newline c) cs) ds = Inr r"
  by (simp add: b64_finish_ok)

text \<open>Success and the decoded bytes do not depend on line breaks.\<close>

lemma b64_dec_newlines:
  "b64_dec i ds s = Inr r \<longleftrightarrow> b64_dec j ds (filter (\<lambda>c. \<not> is_newline c) s) = Inr r"
proof (induction s arbitrary: i j ds r)
  case Nil
  then show ?case by simp
next
  case (Cons c cs)
  show ?case
  proof (cases "b64_val c")
    case (Some v)
    then have "\<not> is_newline c" by (auto simp: is_newline_def b64_val_def)
    moreover have "(\<exists>q. b64_dec (Suc i) [] cs = Inr q \<and> r = quantum (ds @ [v]) @ q) \<longleftrightarrow>
        (\<exists>q. b64_dec (Suc j) [] (filter (\<lambda>c. \<not> is_newline c) cs) = Inr q \<and>
           r = quantum (ds @ [v]) @ q)"
      using Cons.IH by blast
    ultimately show ?thesis
      using Some Cons.IH [of "Suc i" "ds @ [v]" r "Suc j"] by (auto split: sum.splits)
  next
    case None
    show ?thesis
    proof (cases "is_newline c \<or> c \<noteq> CHR ''='' \<or> length ds < 2")
      case True
      then show ?thesis using None Cons.IH by auto
    next
      case False
      then show ?thesis
        using None b64_finish_clean skip_newlines_filter [of "Suc i" cs]
          skip_newlines_clean [of "Suc j" cs]
        by (auto simp: b64_finish_ok dest!: skip_newlines_Cons split: prod.splits list.splits)
    qed
  qed
qed

lemma b64_DecodeString_ok: "b64_DecodeString s = Inr r \<longleftrightarrow> b64_dec 0 [] s = Inr r"
  by (auto simp: b64_DecodeString_def split: sum.splits)

theorem b64_DecodeString_newlines:
  "b64_DecodeString s = Inr r \<longleftrightarrow> b64_DecodeString (filter (\<lambda>c. \<not> is_newline c) s) = Inr r"
  unfolding b64_DecodeString_ok by (rule b64_dec_newlines)

text \<open>A byte outside the alphabet, the padding and the line breaks is always an error.\<close>

definition b64_legal :: "char \<Rightarrow> bool" where
  "b64_legal c = (b64_val c \<noteq> None \<or> is_newline c \<or> c = CHR ''='')"

lemma b64_finish_legal: "b64_finish i cs ds = Inr r \<Longrightarrow> \<forall>c\<in>set cs. b64_legal c"
  by (auto simp: b64_finish_ok filter_empty_conv b64_legal_def)

lemma skip_newlines_legal:
  "skip_newlines i cs = (j, r) \<Longrightarrow> (\<forall>c\<in>set r. b64_legal c) \<Longrightarrow> \<forall>c\<in>set cs. b64_legal c"
  by (induction i cs rule: skip_newlines.induct) (auto simp: b64_legal_def split: if_splits)

lemma b64_dec_legal: "b64_dec i ds s = Inr r \<Longrightarrow> \<forall>c\<in>set s. b64_legal c"
proof (induction s arbitrary: i ds r)
  case Nil
  then show ?case by simp
next
  case (Cons c cs)
  show ?case
  proof (cases "b64_val c = None \<and> \<not> is_newline c")
    case False
    then show ?thesis
      using Cons by (auto simp: b64_legal_def split: if_splits option.splits sum.splits)
  next
    case True
    with Cons.prems have c: "c = CHR ''=''" "\<not> length ds < 2" by (auto split: if_splits)
    show ?thesis
    proof (cases "length ds = 2")
      case True
      obtain j t where sk: "skip_newlines (Suc i) cs = (j, t)" by fastforce
      with Cons.prems c True \<open>b64_val c = None \<and> \<not> is_newline c\<close>
      obtain d q where t: "t = d # q" "d = CHR ''=''" "b64_finish (Suc j) q ds = Inr r"
        by (auto split: list.splits if_splits)
      then have "\<forall>x\<in>set t. b64_legal x"
        using b64_finish_legal [OF t(3)] by (auto simp: b64_legal_def)
      with skip_newlines_legal [OF sk] c show ?thesis by (auto simp: b64_legal_def)
    next
      case False
      with Cons.prems c True have "b64_finish (Suc i) cs ds = Inr r" by simp
      with b64_finish_legal c show ?thesis by (auto simp: b64_legal_def)
    qed
  qed
qed

lemma b64_legal_ascii: "b64_legal c \<Longrightarrow> of_char c < (128 :: nat)"
  by (auto simp: b64_legal_def is_newline_def b64_val_def Let_def split: if_splits)

lemma b64_DecodeString_ascii: "b64_DecodeString s = Inr r \<Longrightarrow> \<forall>c\<in>set s. of_char c < (128 :: nat)"
  using b64_dec_legal b64_legal_ascii unfolding b64_DecodeString_ok by blast

text \<open>The encoder only writes characters of the alphabet and padding.\<close>

lemma b64_encode_no_newline: "c \<in> set (b64_encode bs) \<Longrightarrow> \<not> is_newline c"
  by (induction bs rule: b64_encode.induct) (auto simp: byte_parts)

lemma length_b64_encode: "length (b64_encode bs) = 4 * ((length bs + 2) div 3)"
proof (induction bs rule: b64_encode.induct)
  case (4 a b c r)
  have "(length r + 5) div 3 = Suc ((length r + 2) div 3)" by presburger
  with 4 show ?case by (simp add: add.commute)
qed auto

end
