(* ===== verification/Go_PEM.thy ===== *)
theory Go_PEM
  imports Go_Base64 X509
begin

text \<open>
  \<open>encoding/pem\<close>: \<open>Decode\<close> with its search for the first block that is well formed, and \<open>EncodeToMemory\<close> of a block
  without headers; and the loop of \<open>x509.CertPool.AppendCertsFromPEM\<close> over the blocks of a bundle. The lemmas show
  that an encoded block is read back in front of whatever follows it, and that reading always ends.
\<close>

section \<open>Searching\<close>

text \<open>\<open>bytes.Index\<close> and \<open>bytes.LastIndex\<close>.\<close>

fun find_sub :: "string \<Rightarrow> string \<Rightarrow> nat option" where
  "find_sub p [] = (if p = [] then Some 0 else None)"
| "find_sub p (c # s) = (if take (length p) (c # s) = p then Some 0 else map_option Suc (find_sub p s))"

fun last_sub :: "string \<Rightarrow> string \<Rightarrow> nat option" where
  "last_sub p [] = (if p = [] then Some 0 else None)"
| "last_sub p (c # s) =
     (case last_sub p s of
        Some i \<Rightarrow> Some (Suc i)
      | None \<Rightarrow> if take (length p) (c # s) = p then Some 0 else None)"

text \<open>A line without its end and its trailing blanks, what follows it, and the number of bytes in between.\<close>

definition pem_blank :: "char \<Rightarrow> bool" where
  "pem_blank c = (c = CHR '' '' \<or> c = CHR 0x09)"

definition pem_getLine :: "string \<Rightarrow> string \<times> string \<times> nat" where
  "pem_getLine s =
     (let l = takeWhile (\<lambda>c. c \<noteq> CHR 0x0A) s;
          t = (if length l < length s \<and> l \<noteq> [] \<and> last l = CHR 0x0D then butlast l else l)
      in (rev (dropWhile pem_blank (rev t)), drop (Suc (length l)) s, min (Suc (length l)) (length s)))"

section \<open>Decoding\<close>

text \<open>The headers are kept as they stand; nothing but their number is asked for.\<close>

record pem_block =
  pb_Type :: string
  pb_Headers :: "string list"
  pb_Bytes :: bytes

definition pemBegin :: string where
  "pemBegin = ''-----BEGIN ''"

definition pemEnd :: string where
  "pemEnd = CHR 0x0A # ''-----END ''"

definition pemEndOfLine :: string where
  "pemEndOfLine = ''-----''"

text \<open>The header lines: those with a colon. The result is what follows them and its distance; the input must not end there.\<close>

function pem_headers :: "string \<Rightarrow> (string list \<times> string \<times> nat) option" where
  "pem_headers s =
     (if s = [] then None
      else (case pem_getLine s of
        (line, next, n) \<Rightarrow>
          if CHR '':'' \<in> set line \<and> length next < length s
          then map_option (\<lambda>(hs, r, k). (line # hs, r, n + k)) (pem_headers next)
          else Some ([], s, 0)))"
  by pat_completeness auto
termination by (relation "measure length") auto

declare pem_headers.simps [simp del]

text \<open>
  One turn of the loop: a block and what follows it, or what to go on with, or no block at all. \<open>pem_skip\<close> is the skip
  past an end line that was tried in vain.
\<close>

datatype pem_step = PemBlock pem_block string | PemAgain string | PemNone

definition pem_skip :: "int \<Rightarrow> string \<Rightarrow> pem_step" where
  "pem_skip i s = (if i < 0 \<or> int (length s) < i then PemNone else PemAgain (drop (nat i) s))"

text \<open>
  The end line and the data of a block: \<open>i\<close> is where the end marker begins in \<open>s\<close>; it is \<open>-1\<close> when the marker's line feed
  is that of the line before.
\<close>

definition pem_body :: "string \<Rightarrow> string list \<Rightarrow> int \<Rightarrow> string \<Rightarrow> pem_step" where
  "pem_body typ hs i s =
     (let endTrailerIndex = i + int (length pemEnd);
          endTrailer = drop (nat endTrailerIndex) s;
          n = length typ + length pemEndOfLine;
          base64Data = filter (\<lambda>c. \<not> pem_blank c) (take (nat i) s)
      in if take n endTrailer \<noteq> typ @ pemEndOfLine \<or> fst (pem_getLine (drop n endTrailer)) \<noteq> []
         then pem_skip endTrailerIndex s
         else
           (case (if i > 0 then b64_DecodeString base64Data else Inr []) of
              Inl e \<Rightarrow> pem_skip endTrailerIndex s
            | Inr d \<Rightarrow> PemBlock \<lparr> pb_Type = typ, pb_Headers = hs, pb_Bytes = d \<rparr>
                (fst (snd (pem_getLine (drop (nat (i + int (length pemEnd) - 1)) s))))))"

definition pem_turn :: "string \<Rightarrow> pem_step" where
  "pem_turn s =
     (case find_sub pemEnd s of
        None \<Rightarrow> PemNone
      | Some endIndex \<Rightarrow>
     (case last_sub pemBegin (take endIndex s) of
        None \<Rightarrow> pem_skip (int (endIndex + length pemEnd)) s
      | Some beginIndex \<Rightarrow>
          if beginIndex > 0 \<and> s ! (beginIndex - 1) \<noteq> CHR 0x0A then pem_skip (int (endIndex + length pemEnd)) s
          else
            (let s = drop (beginIndex + length pemBegin) s;
                 i = int endIndex - int (beginIndex + length pemBegin)
             in case pem_getLine s of
               (typeLine, rest, n) \<Rightarrow>
                 if length typeLine < length pemEndOfLine \<or>
                    drop (length typeLine - length pemEndOfLine) typeLine \<noteq> pemEndOfLine
                 then pem_skip (i + int (length pemEnd) - int n) rest
                 else
                   (case pem_headers rest of
                      None \<Rightarrow> PemNone
                    | Some (hs, rest, k) \<Rightarrow>
                        (let i = i - int n - int k
                         in if hs \<noteq> [] \<and> i < 0 then pem_skip (i + int (length pemEnd)) rest
                            else pem_body (take (length typeLine - length pemEndOfLine) typeLine) hs i rest)))))"

text \<open>Every turn gets further.\<close>

lemma pem_getLine_rest: "pem_getLine s = (l, r, n) \<Longrightarrow> length r \<le> length s"
  by (auto simp: pem_getLine_def Let_def)

lemma pem_headers_rest: "pem_headers s = Some (hs, r, k) \<Longrightarrow> length r \<le> length s"
proof (induction s arbitrary: hs r k rule: pem_headers.induct)
  case (1 s)
  obtain l nx n where g: "pem_getLine s = (l, nx, n)" by (metis prod_cases3)
  show ?case
  proof (cases "s \<noteq> [] \<and> CHR '':'' \<in> set l \<and> length nx < length s")
    case True
    then obtain hs' k' where "pem_headers nx = Some (hs', r, k')"
      using 1(2) g by (subst (asm) pem_headers.simps) auto
    with 1(1) g True show ?thesis by fastforce
  next
    case False
    then show ?thesis using 1(2) g by (subst (asm) pem_headers.simps) (auto split: if_splits)
  qed
qed

definition pem_advances :: "string \<Rightarrow> pem_step \<Rightarrow> bool" where
  "pem_advances s p = (case p of PemBlock b r \<Rightarrow> length r < length s | PemAgain r \<Rightarrow> length r < length s | PemNone \<Rightarrow> True)"

lemma pem_skip_advances: "length r < length s \<Longrightarrow> pem_advances s (pem_skip i r)"
  by (auto simp: pem_advances_def pem_skip_def)

lemma pem_body_advances:
  assumes "length r < length s"
  shows "pem_advances s (pem_body typ hs i r)"
proof -
  let ?d = "drop (nat (i + int (length pemEnd) - 1)) r"
  obtain l t n where g: "pem_getLine ?d = (l, t, n)" by (metis prod_cases3)
  have "length t < length s" using pem_getLine_rest [OF g] assms by simp
  then have "pem_advances s (PemBlock b t)" for b by (simp add: pem_advances_def)
  then show ?thesis using pem_skip_advances [OF assms] g by (simp add: pem_body_def Let_def split: sum.split)
qed

lemma find_sub_bound: "find_sub p s = Some i \<Longrightarrow> i + length p \<le> length s"
  by (induction p s arbitrary: i rule: find_sub.induct) (auto split: if_splits, metis Suc_le_mono length_Cons length_take min.cobounded1)

lemma last_sub_bound: "last_sub p s = Some i \<Longrightarrow> i + length p \<le> length s"
  by (induction p s arbitrary: i rule: last_sub.induct) (auto split: if_splits option.splits, metis Suc_le_mono length_Cons length_take min.cobounded1)

lemma pem_turn_advances: "pem_advances s (pem_turn s)"
proof (cases "find_sub pemEnd s")
  case None
  then show ?thesis by (simp add: pem_turn_def pem_advances_def)
next
  case (Some e)
  have e: "e + 10 \<le> length s" using find_sub_bound [OF Some] by (simp add: pemEnd_def)
  have skip: "pem_advances s (pem_skip (int (e + length pemEnd)) s)"
    using e by (simp add: pem_advances_def pem_skip_def pemEnd_def)
  show ?thesis
  proof (cases "last_sub pemBegin (take e s)")
    case None
    then show ?thesis using Some skip by (simp add: pem_turn_def)
  next
    case (Some b)
    let ?s = "drop (b + length pemBegin) s"
    obtain l r n where g: "pem_getLine ?s = (l, r, n)" by (metis prod_cases3)
    have "length ?s < length s" using e by (simp add: pemBegin_def)
    then have r: "length r < length s" using pem_getLine_rest [OF g] by simp
    have "pem_headers r = Some (hs, r', k) \<Longrightarrow> length r' < length s" for hs r' k
      using pem_headers_rest r by fastforce
    then show ?thesis using Some \<open>find_sub pemEnd s = Some e\<close> skip g r
      by (auto simp: pem_turn_def Let_def pem_skip_advances pem_body_advances pem_advances_def [of s PemNone]
          split: option.split)
  qed
qed

function pem_scan :: "string \<Rightarrow> (pem_block \<times> string) option" where
  "pem_scan s = (case pem_turn s of PemNone \<Rightarrow> None | PemBlock b r \<Rightarrow> Some (b, r) | PemAgain r \<Rightarrow> pem_scan r)"
  by pat_completeness auto
termination
proof (relation "measure length")
  show "wf (measure length)" by simp
next
  fix s r assume "pem_turn s = PemAgain r"
  then show "(r, s) \<in> measure length" using pem_turn_advances [of s] by (simp add: pem_advances_def)
qed

declare pem_scan.simps [simp del]

definition pem_Decode :: "bytes \<Rightarrow> (pem_block \<times> bytes) option" where
  "pem_Decode d = map_option (\<lambda>(b, r). (b, bytes_of r)) (pem_scan (string_of d))"

section \<open>Encoding\<close>

text \<open>\<open>EncodeToMemory\<close> of a block without headers: base64 in lines of 64 characters.\<close>

definition pem_lines :: "bytes \<Rightarrow> string" where
  "pem_lines d = concat (map (\<lambda>l. l @ [CHR 0x0A]) (chunks 64 (b64_encode d)))"

definition pem_text :: "string \<Rightarrow> bytes \<Rightarrow> string" where
  "pem_text typ d = ''-----BEGIN '' @ typ @ ''-----'' @ [CHR 0x0A] @ pem_lines d @ ''-----END '' @ typ @ ''-----'' @ [CHR 0x0A]"

definition pem_EncodeToMemory :: "string \<Rightarrow> bytes \<Rightarrow> bytes" where
  "pem_EncodeToMemory typ d = bytes_of (pem_text typ d)"

section \<open>What is encoded is read back\<close>

lemma pem_getLine_at:
  assumes "CHR 0x0A \<notin> set u" "u = [] \<or> last u \<notin> {CHR 0x0D, CHR '' '', CHR 0x09}"
  shows "pem_getLine (u @ CHR 0x0A # t) = (u, t, Suc (length u))"
proof -
  have l: "takeWhile (\<lambda>c. c \<noteq> CHR 0x0A) (u @ CHR 0x0A # t) = u" using assms(1) by (simp add: takeWhile_append)
  have "dropWhile pem_blank (rev u) = rev u" using assms(2) by (cases u rule: rev_cases) (auto simp: pem_blank_def)
  then show ?thesis using assms(2) by (auto simp: pem_getLine_def l)
qed

lemma pem_getLine_skips: "CHR 0x0A \<notin> set u \<Longrightarrow> fst (snd (pem_getLine (u @ CHR 0x0A # t))) = t"
  by (simp add: pem_getLine_def takeWhile_append Let_def)

lemma pem_getLine_subset: "fst (pem_getLine s) = l \<Longrightarrow> set l \<subseteq> set (takeWhile (\<lambda>c. c \<noteq> CHR 0x0A) s)"
  by (auto simp: pem_getLine_def Let_def dest!: set_dropWhileD in_set_butlastD split: if_splits)

text \<open>No line feed with a dash after it.\<close>

fun no_mark :: "string \<Rightarrow> bool" where
  "no_mark (c # e # s) = ((c = CHR 0x0A \<longrightarrow> e \<noteq> CHR ''-'') \<and> no_mark (e # s))"
| "no_mark _ = True"

lemma no_mark_clean: "CHR ''-'' \<notin> set s \<Longrightarrow> no_mark s"
  by (induction s rule: no_mark.induct) auto

lemma no_mark_append: "CHR 0x0A \<notin> set u \<Longrightarrow> no_mark s \<Longrightarrow> no_mark (u @ s)"
proof (induction u)
  case (Cons c u)
  then show ?case by (cases "u @ s") auto
qed simp

lemma find_end: "no_mark a \<Longrightarrow> find_sub pemEnd (a @ pemEnd @ t) = Some (length a)"
proof (induction a rule: no_mark.induct)
  case (1 c e s)
  then show ?case by (auto simp: pemEnd_def)
qed (simp_all add: pemEnd_def)

lemma last_begin_none: "CHR ''-'' \<notin> set u \<Longrightarrow> last_sub pemBegin s = None \<Longrightarrow> last_sub pemBegin (u @ s) = None"
  by (induction u) (auto simp: pemBegin_def)

lemma last_begin:
  assumes "CHR ''-'' \<notin> set u" "CHR ''-'' \<notin> set x" "x = [] \<or> hd x = CHR 0x0A"
  shows "last_sub pemBegin (pemBegin @ u @ ''-----'' @ x) = Some 0"
proof -
  have n: "last_sub ''-----BEGIN '' x = None" using last_begin_none [OF assms(2), of "[]"] by (simp add: pemBegin_def)
  have h: "take k x \<noteq> CHR ''-'' # q" "take k x \<noteq> CHR ''B'' # q" for k q using assms(3) by (cases x; cases k; auto)+
  have "last_sub pemBegin (''-----'' @ x) = None" by (simp add: pemBegin_def n h)
  with last_begin_none [OF assms(1)] have "last_sub pemBegin (u @ ''-----'' @ x) = None" by blast
  then show ?thesis by (cases u) (simp_all add: pemBegin_def assms)
qed

text \<open>The lines of base64: their characters, and what they stand for.\<close>

lemma b64_encode_chars: "c \<in> set (b64_encode d) \<Longrightarrow> b64_legal c \<and> \<not> is_newline c"
  using b64_dec_legal [OF b64_dec_encode [of 0 d]] b64_encode_no_newline by blast

lemma b64_legal_plain: "b64_legal c \<Longrightarrow> c \<noteq> CHR ''-'' \<and> c \<noteq> CHR '':'' \<and> \<not> pem_blank c"
  by (auto simp: b64_legal_def is_newline_def b64_val_def pem_blank_def)

lemma pem_lines_form:
  assumes "d \<noteq> []"
  obtains B where "pem_lines d = B @ [CHR 0x0A]" "B \<noteq> []" "\<forall>c\<in>set B. b64_legal c" "b64_DecodeString B = Inr d"
proof -
  have "b64_encode d \<noteq> []" using assms length_b64_encode [of d] by (cases d) auto
  then have "chunks 64 (b64_encode d) \<noteq> []" using concat_chunks [of 64 "b64_encode d"] by auto
  then obtain ls l where ls: "chunks 64 (b64_encode d) = ls @ [l]" by (metis append_butlast_last_id)
  let ?B = "concat (map (\<lambda>l. l @ [CHR 0x0A]) ls) @ l"
  have c: "concat ls @ l = b64_encode d" using concat_chunks [of 64 "b64_encode d"] ls by simp
  have legal: "\<forall>c\<in>set (concat ls @ l). b64_legal c \<and> \<not> is_newline c" unfolding c using b64_encode_chars by blast
  have f: "filter (\<lambda>c. \<not> is_newline c) (concat (map (\<lambda>l. l @ [CHR 0x0A]) ls)) = filter (\<lambda>c. \<not> is_newline c) (concat ls)"
    by (induction ls) (auto simp: is_newline_def)
  have "filter (\<lambda>c. \<not> is_newline c) ?B = filter (\<lambda>c. \<not> is_newline c) (concat ls @ l)" using f by simp
  also have "\<dots> = b64_encode d" using legal c by (simp add: filter_id_conv)
  finally have "b64_DecodeString ?B = Inr d"
    using b64_DecodeString_newlines [of ?B d] b64_DecodeString_encode by simp
  moreover have "l \<noteq> []" using chunks_length [of l 64 "b64_encode d"] ls by simp
  moreover have "\<forall>c\<in>set ?B. b64_legal c" using legal by (auto simp: b64_legal_def is_newline_def)
  ultimately show thesis using that [of ?B] by (simp add: pem_lines_def ls)
qed

definition pem_type :: "string \<Rightarrow> bool" where
  "pem_type typ = list_all (\<lambda>c. c \<noteq> CHR ''-'' \<and> c \<noteq> CHR 0x0A \<and> c \<noteq> CHR '':'') typ"

lemma pem_body_encoded:
  assumes "pem_type typ" "take (nat i) y = B" "- 1 \<le> i" "i > 0 \<longrightarrow> (\<forall>c\<in>set B. b64_legal c) \<and> b64_DecodeString B = Inr d"
    "\<not> i > 0 \<longrightarrow> d = []"
    and "drop (nat (9 + i)) y = CHR '' '' # typ @ ''-----'' @ CHR 0x0A # t"
  shows "pem_body typ [] i y = PemBlock \<lparr> pb_Type = typ, pb_Headers = [], pb_Bytes = d \<rparr> t"
proof -
  have pt: "CHR 0x0A \<notin> set typ" using assms(1) by (auto simp: pem_type_def list_all_iff)
  have "nat (i + 10) = Suc (nat (9 + i))" using assms(3) by simp
  then have e: "drop (nat (i + 10)) y = typ @ ''-----'' @ CHR 0x0A # t"
    using assms(6) by (metis drop_Suc list.sel(3) tl_drop)
  have g: "pem_getLine (CHR 0x0A # t) = ([], t, 1)" using pem_getLine_at [of "[]" t] by simp
  have r: "fst (snd (pem_getLine (CHR '' '' # typ @ ''-----'' @ CHR 0x0A # t))) = t"
    using pem_getLine_skips [of "CHR '' '' # typ @ ''-----''" t] pt by simp
  have e2: "drop (length typ + 5) (drop (nat (i + 10)) y) = CHR 0x0A # t" unfolding e by simp
  have b: "filter (\<lambda>c. \<not> pem_blank c) B = B" if "i > 0" using that assms(4) b64_legal_plain by (simp add: filter_id_conv)
  show ?thesis using assms(2,4,5) e e2 g r b assms(6) by (simp add: pem_body_def Let_def pemEnd_def pemEndOfLine_def del: drop_drop)
qed

lemma pem_turn_body:
  assumes "find_sub pemEnd s = Some e" "last_sub pemBegin (take e s) = Some 0"
    and "pem_getLine (drop 11 s) = (typ @ pemEndOfLine, y, n)" "pem_headers y = Some ([], y, 0)"
  shows "pem_turn s = pem_body typ [] (int e - 11 - int n) y"
proof -
  have "length pemBegin = 11" by (simp add: pemBegin_def)
  then show ?thesis using assms by (simp add: pem_turn_def)
qed

lemma pem_turn_encoded:
  assumes pt: "pem_type typ"
  shows "pem_turn (pem_text typ d @ t) = PemBlock \<lparr> pb_Type = typ, pb_Headers = [], pb_Bytes = d \<rparr> t"
proof -
  let ?E = "typ @ ''-----'' @ CHR 0x0A # t" and ?H = "pemBegin @ typ @ ''-----''"
  have plain: "CHR ''-'' \<notin> set typ" "CHR 0x0A \<notin> set typ" "CHR '':'' \<notin> set typ"
    using pt by (auto simp: pem_type_def list_all_iff)
  obtain B where B: "d = [] \<and> B = [] \<and> pem_lines d = [] \<or> d \<noteq> [] \<and> B \<noteq> [] \<and> pem_lines d = B @ [CHR 0x0A] \<and>
      b64_DecodeString B = Inr d" "\<forall>c\<in>set B. b64_legal c"
    by (cases "d = []") (auto simp: pem_lines_def elim: pem_lines_form)
  obtain x where x: "x = (if d = [] then [] else CHR 0x0A # B)" by simp
  obtain y where y: "y = (if d = [] then ''-----END '' @ ?E else B @ pemEnd @ ?E)" by simp
  have tx: "pem_text typ d @ t = (?H @ x) @ pemEnd @ ?E" "(?H @ x) @ pemEnd @ ?E = ?H @ CHR 0x0A # y"
    using B(1) by (auto simp: x y pem_text_def pemBegin_def pemEnd_def)
  have dash: "CHR ''-'' \<notin> set x" using B(2) b64_legal_plain by (auto simp: x)
  have "no_mark (?H @ x)" using plain(2) no_mark_append [of ?H x] no_mark_clean [OF dash] by (simp add: pemBegin_def)
  note f = find_end [OF this, of ?E]
  have l: "last_sub pemBegin (?H @ x) = Some 0" using last_begin [OF plain(1) dash] by (simp add: x)
  have g: "pem_getLine ((typ @ ''-----'') @ CHR 0x0A # y) = (typ @ ''-----'', y, length typ + 6)"
    using pem_getLine_at [of "typ @ ''-----''" y] plain(2) by simp
  obtain l1 r1 n1 where g1: "pem_getLine y = (l1, r1, n1)" by (metis prod_cases3)
  have "set (takeWhile (\<lambda>c. c \<noteq> CHR 0x0A) y) \<subseteq> set B \<union> set ''-----END '' \<union> set typ"
    using plain(2) by (auto simp: y pemEnd_def takeWhile_append split: if_splits dest: set_takeWhileD)
  then have "CHR '':'' \<notin> set l1" using pem_getLine_subset [of y l1] g1 plain(3) B(2) b64_legal_plain by fastforce
  then have h: "pem_headers y = Some ([], y, 0)" using g1 by (subst pem_headers.simps) (auto simp: y pemEnd_def)
  let ?i = "int (length x) - 1"
  have "nat (9 + int k) - k = 9" for k by simp
  then have "take (nat ?i) y = B" "drop (nat (9 + ?i)) y = CHR '' '' # ?E" using B(1) by (auto simp: x y pemEnd_def)
  then have body: "pem_body typ [] ?i y = PemBlock \<lparr> pb_Type = typ, pb_Headers = [], pb_Bytes = d \<rparr> t"
    using B x by (intro pem_body_encoded [OF pt]) (auto split: if_splits)
  have "take (length (?H @ x)) (pem_text typ d @ t) = ?H @ x" unfolding tx(1) by (metis append_eq_conv_conj)
  moreover have "drop 11 (pem_text typ d @ t) = (typ @ ''-----'') @ CHR 0x0A # y" unfolding tx by (simp add: pemBegin_def)
  moreover have "int (length (?H @ x)) - 11 - int (length typ + 6) = ?i" by (simp add: pemBegin_def)
  ultimately show ?thesis
    using pem_turn_body [of "pem_text typ d @ t" "length (?H @ x)" "typ" y "length typ + 6"] f l g h body
    unfolding tx(1) [symmetric] pemEndOfLine_def by metis
qed

lemma string_of_append: "string_of (a @ b) = string_of a @ string_of b"
  by (simp add: string_of_def)

theorem pem_Decode_encoded:
  "pem_type typ \<Longrightarrow>
     pem_Decode (pem_EncodeToMemory typ d @ rest) = Some (\<lparr> pb_Type = typ, pb_Headers = [], pb_Bytes = d \<rparr>, rest)"
proof -
  assume "pem_type typ"
  from pem_turn_encoded [OF this, of d "string_of rest"]
  have "pem_scan (pem_text typ d @ string_of rest) = Some (\<lparr> pb_Type = typ, pb_Headers = [], pb_Bytes = d \<rparr>, string_of rest)"
    by (simp add: pem_scan.simps)
  moreover have "string_of (pem_EncodeToMemory typ d @ rest) = pem_text typ d @ string_of rest"
    by (simp add: pem_EncodeToMemory_def string_of_append)
  ultimately show ?thesis by (simp add: pem_Decode_def)
qed

lemma pem_scan_rest: "pem_scan s = Some (b, r) \<Longrightarrow> length r < length s"
proof (induction s rule: pem_scan.induct)
  case (1 s)
  then show ?case using pem_turn_advances [of s]
    by (subst (asm) pem_scan.simps) (fastforce simp: pem_advances_def split: pem_step.splits)
qed

lemma pem_Decode_rest: "pem_Decode d = Some (b, rest) \<Longrightarrow> length rest < length d"
  by (auto simp: pem_Decode_def dest!: pem_scan_rest) (simp add: string_of_def)

section \<open>Bundles\<close>

text \<open>The blocks of a text, in order.\<close>

function pem_blocks :: "bytes \<Rightarrow> pem_block list" where
  "pem_blocks d = (case pem_Decode d of None \<Rightarrow> [] | Some (b, rest) \<Rightarrow> b # pem_blocks rest)"
  by pat_completeness auto
termination by (relation "measure length") (auto dest: pem_Decode_rest)

declare pem_blocks.simps [simp del]

text \<open>
  \<open>AppendCertsFromPEM\<close>: blocks of another type, with headers, or that are no certificate are skipped. A pool is the
  list of what was added to it; that it keeps one copy of equal certificates makes no difference to \<open>Verify\<close>.
\<close>

definition certs_from_PEM :: "(bytes \<Rightarrow> x509_cert result) \<Rightarrow> bytes \<Rightarrow> bytes list" where
  "certs_from_PEM parse d =
     map pb_Bytes (filter (\<lambda>b. pb_Type b = ''CERTIFICATE'' \<and> pb_Headers b = [] \<and> (\<exists>c. parse (pb_Bytes b) = Inr c))
       (pem_blocks d))"

definition plain_block :: "string \<Rightarrow> bytes \<Rightarrow> pem_block" where
  "plain_block t d = \<lparr> pb_Type = t, pb_Headers = [], pb_Bytes = d \<rparr>"

lemma plain_block_simps [simp]:
  "pb_Type (plain_block t d) = t" "pb_Headers (plain_block t d) = []" "pb_Bytes (plain_block t d) = d"
  by (simp_all add: plain_block_def)

lemma pem_Decode_text [simp]:
  "pem_type t \<Longrightarrow> pem_Decode (pem_EncodeToMemory t d @ rest) = Some (plain_block t d, rest)"
  "pem_type t \<Longrightarrow> pem_Decode (pem_EncodeToMemory t d) = Some (plain_block t d, [])"
  using pem_Decode_encoded [of t d rest] pem_Decode_encoded [of t d "[]"] by (simp_all add: plain_block_def)

lemma pem_blocks_Nil [simp]: "pem_blocks [] = []"
  by (simp add: pem_blocks.simps pem_Decode_def pem_scan.simps pem_turn_def pemEnd_def string_of_def)

lemma pem_blocks_text [simp]:
  "pem_type t \<Longrightarrow> pem_blocks (pem_EncodeToMemory t d @ rest) = plain_block t d # pem_blocks rest"
  "pem_type t \<Longrightarrow> pem_blocks (pem_EncodeToMemory t d) = [plain_block t d]"
  by (simp_all add: pem_blocks.simps [of "pem_EncodeToMemory t d @ rest"] pem_blocks.simps [of "pem_EncodeToMemory t d"])

lemma pem_type_labels [simp]:
  "pem_type ''CERTIFICATE''" "pem_type ''PRIVATE KEY''" "pem_type ''EC PARAMETERS''" "pem_type ''EC PRIVATE KEY''"
  "pem_type ''CERTIFICATE REQUEST''"
  by (simp_all add: pem_type_def)

text \<open>A file of certificates, one after the other.\<close>

definition pem_bundle :: "bytes list \<Rightarrow> bytes" where
  "pem_bundle ds = concat (map (pem_EncodeToMemory ''CERTIFICATE'') ds)"

lemma pem_blocks_bundle [simp]: "pem_blocks (pem_bundle ds) = map (plain_block ''CERTIFICATE'') ds"
  by (induction ds) (simp_all add: pem_bundle_def)

lemma certs_from_bundle: "list_all (\<lambda>d. \<exists>c. parse d = Inr c) ds \<Longrightarrow> certs_from_PEM parse (pem_bundle ds) = ds"
  by (simp add: certs_from_PEM_def list_all_iff filter_map comp_def)

end
