(* ===== verification/Encoding.thy ===== *)
theory Encoding
  imports Go_Base64 Go_UTF8 X509
begin

text \<open>
  \<open>internal/estapi/encoding.go\<close>, with the HTTP messages the handlers read and write: the base64 body of
  an enrolment request and the wrapped base64 body of a response. The lemmas show that the request
  decoder does what a byte filter in front of base64 would do, that it never accepts a body over
  the limit, and that a response body is read back by any base64 decoder.
\<close>

section \<open>HTTP messages\<close>

text \<open>
  A request as a handler sees it. \<open>rq_TLS\<close> is the connection's peer certificates (\<open>None\<close> without TLS);
  \<open>rq_Body\<close> is what the client sends before the body ends, cleanly or with an error.
\<close>

record http_request =
  rq_Method :: string
  rq_Path :: string
  rq_TLS :: "x509_cert list option"
  rq_Body :: "string \<times> go_error option"
  rq_RemoteAddr :: string

text \<open>The text of an error is kept as the error it is made of.\<close>

datatype http_body = Text string | ErrorText go_error

record http_response =
  rs_Status :: nat
  rs_Header :: "(string \<times> string) list"
  rs_Body :: http_body

text \<open>\<open>http.Error\<close>, for a fixed text and for \<open>err.Error()\<close>; it ends the text with a newline.\<close>

definition http_Error :: "http_body \<Rightarrow> nat \<Rightarrow> http_response" where
  "http_Error msg code = \<lparr> rs_Status = code,
     rs_Header = [(''Content-Type'', ''text/plain; charset=utf-8''), (''X-Content-Type-Options'', ''nosniff'')],
     rs_Body = (case msg of Text t \<Rightarrow> Text (t @ [CHR 0x0A]) | ErrorText e \<Rightarrow> ErrorText e) \<rparr>"

section \<open>The code\<close>

definition contentTypePKCS7Mime :: string where
  "contentTypePKCS7Mime = ''application/pkcs7-mime; smime-type=certs-only''"

definition contentTypeCSRAttrs :: string where
  "contentTypeCSRAttrs = ''application/csrattrs''"

definition maxCSRBodyBytes :: nat where
  "maxCSRBodyBytes = 64 * 1024"

definition mimeLineLength :: nat where
  "mimeLineLength = 76"

definition stripWhitespace :: "string \<Rightarrow> string" where
  "stripWhitespace s =
     concat (map (\<lambda>r. if r \<in> {32, 9, 13, 10} then [] else encode_rune r) (go_runes s))"

text \<open>\<open>io.ReadAll(io.LimitReader(body, n))\<close>: an error after the limit is never seen.\<close>

definition read_limited :: "nat \<Rightarrow> string \<times> go_error option \<Rightarrow> string result" where
  "read_limited n body =
     (case body of (sent, err) \<Rightarrow>
        if n \<le> length sent then Inr (take n sent)
        else (case err of None \<Rightarrow> Inr sent | Some e \<Rightarrow> Inl e))"

definition decodeCSRBody :: "(bytes \<Rightarrow> x509_csr result) \<Rightarrow> http_request \<Rightarrow> x509_csr result" where
  "decodeCSRBody parse r =
     rbind (wrap_err ''read request body: %w'' [] (read_limited (maxCSRBodyBytes + 1) (rq_Body r))) (\<lambda>body.
     if length body > maxCSRBodyBytes
     then Inl (ErrNew ''request body exceeds %d bytes'' [FInt (int maxCSRBodyBytes)])
     else
       rbind (wrap_err ''base64-decode request body: %w'' [] (b64_DecodeString (stripWhitespace body))) (\<lambda>d.
       wrap_err ''parse CSR: %w'' [] (parse d)))"

text \<open>The loop that writes the encoded text in lines.\<close>

function write_lines :: "nat \<Rightarrow> string \<Rightarrow> string" where
  "write_lines i encoded =
     (if i < length encoded
      then let end = (if i + mimeLineLength > length encoded then length encoded else i + mimeLineLength)
           in take (end - i) (drop i encoded) @ [CHR 0x0D, CHR 0x0A] @
              write_lines (i + mimeLineLength) encoded
      else [])"
  by pat_completeness auto
termination by (relation "measure (\<lambda>(i, e). length e - i)") (auto simp: mimeLineLength_def)

declare write_lines.simps [simp del]

definition writeBase64Response :: "string \<Rightarrow> bytes \<Rightarrow> http_response" where
  "writeBase64Response contentType d =
     (let encoded = b64_encode d in
      \<lparr> rs_Status = 200, rs_Header = [(''Content-Type'', contentType)],
        rs_Body = Text (write_lines 0 encoded) \<rparr>)"

definition writePKCS7Response :: "bytes \<Rightarrow> http_response" where
  "writePKCS7Response d = writeBase64Response contentTypePKCS7Mime d"

section \<open>Whitespace\<close>

definition is_space :: "char \<Rightarrow> bool" where
  "is_space c = (byte_code c \<in> {32, 9, 13, 10})"

definition is_ascii :: "char \<Rightarrow> bool" where
  "is_ascii c = (byte_code c < 128)"

lemma go_runes_ascii: "\<forall>c\<in>set s. is_ascii c \<Longrightarrow> go_runes s = map byte_code s"
proof (induction s)
  case Nil
  then show ?case by (simp add: go_runes.simps)
next
  case (Cons c s)
  then show ?case by (subst go_runes.simps) (simp add: decode_rune.simps(2) is_ascii_def)
qed

lemma encode_rune_ascii: "is_ascii c \<Longrightarrow> encode_rune (byte_code c) = [c]"
  by (simp add: encode_rune_def is_ascii_def byte_code_def)

text \<open>A sequence of several bytes stands for no ASCII character: its first bytes are too large.\<close>

lemma two_bytes: "0xC2 \<le> a \<Longrightarrow> 128 \<le> (a - 0xC0) * 64 + x" for a x :: nat
  using mult_le_mono1 [of 2 "a - 0xC0" 64] by simp

lemma three_bytes:
  fixes a b x :: nat
  assumes "0xE0 \<le> a" "(if a = 0xE0 then 0xA0 else 0x80) \<le> b"
  shows "128 \<le> (a - 0xE0) * 4096 + (b - 0x80) * 64 + x"
  using assms mult_le_mono1 [of "0x20" "b - 0x80" 64] mult_le_mono1 [of 1 "a - 0xE0" 4096] by (cases "a = 0xE0") simp_all

lemma four_bytes:
  fixes a b x y :: nat
  assumes "0xF0 \<le> a" "(if a = 0xF0 then 0x90 else 0x80) \<le> b"
  shows "128 \<le> (a - 0xF0) * 262144 + (b - 0x80) * 4096 + x + y"
  using assms mult_le_mono1 [of "0x10" "b - 0x80" 4096] mult_le_mono1 [of 1 "a - 0xF0" 262144]
  by (cases "a = 0xF0") simp_all

text \<open>A byte outside ASCII starts a rune outside ASCII, which is written as bytes outside ASCII.\<close>

lemma decode_rune_head: "128 \<le> a \<Longrightarrow> 128 \<le> fst (decode_rune (a # r))"
proof -
  assume a: "128 \<le> a"
  have e: "128 \<le> rune_error" by (simp add: rune_error_def)
  consider "a < 0xC2 \<or> 0xF4 < a" | "0xC2 \<le> a" "a \<le> 0xDF" | "0xE0 \<le> a" "a \<le> 0xEF"
    | "0xF0 \<le> a" "a \<le> 0xF4" by linarith
  then show ?thesis
  proof cases
    case 1
    then have "decode_rune (a # r) = (rune_error, 1)" using a by (auto simp: decode_rune.simps(2))
    then show ?thesis using e by simp
  next
    case 2
    then show ?thesis using a e two_bytes by (cases r) (simp_all add: decode_rune.simps(2))
  next
    case 3
    then have "decode_rune (a # r) = (case r of
           b # c # _ \<Rightarrow>
             if (if a = 0xE0 then 0xA0 else 0x80) \<le> b \<and> b \<le> (if a = 0xED then 0x9F else 0xBF) \<and> utf8_cont c
             then ((a - 0xE0) * 4096 + (b - 0x80) * 64 + (c - 0x80), 3) else (rune_error, 1)
         | _ \<Rightarrow> (rune_error, 1))"
      using a by (simp only: decode_rune.simps(2)) simp
    moreover have "128 \<le> fst (if P \<and> Q then ((a - 0xE0) * 4096 + (b - 0x80) * 64 + x, 3) else (rune_error, 1 :: nat))"
      if "P \<longleftrightarrow> (if a = 0xE0 then 0xA0 else 0x80) \<le> b" for P Q b x
      using three_bytes [OF 3(1), of b x] that e by simp
    ultimately show ?thesis using e by (simp only: split: list.split) (simp del: if_split)
  next
    case 4
    then have "decode_rune (a # r) = (case r of
           b # c # d # _ \<Rightarrow>
             if (if a = 0xF0 then 0x90 else 0x80) \<le> b \<and> b \<le> (if a = 0xF4 then 0x8F else 0xBF) \<and>
                utf8_cont c \<and> utf8_cont d
             then ((a - 0xF0) * 262144 + (b - 0x80) * 4096 + (c - 0x80) * 64 + (d - 0x80), 4)
             else (rune_error, 1)
         | _ \<Rightarrow> (rune_error, 1))"
      using a by (simp only: decode_rune.simps(2)) simp
    moreover have "128 \<le> fst (if P \<and> Q then ((a - 0xF0) * 262144 + (b - 0x80) * 4096 + x + y, 4) else (rune_error, 1 :: nat))"
      if "P \<longleftrightarrow> (if a = 0xF0 then 0x90 else 0x80) \<le> b" for P Q b x y
      using four_bytes [OF 4(1), of b x y] that e by simp
    ultimately show ?thesis using e by (simp only: split: list.split) (simp del: if_split)
  qed
qed

lemma encode_rune_high: "128 \<le> r \<Longrightarrow> \<exists>c\<in>set (encode_rune r). \<not> is_ascii c"
proof -
  assume "128 \<le> r"
  have c: "\<not> is_ascii (char_of (0x80 + r mod 64))" for r :: nat
  proof -
    have "r mod 64 < 64" by simp
    then have "0x80 + r mod 64 < 256" by linarith
    then show ?thesis by (simp add: is_ascii_def byte_code_def)
  qed
  have "char_of (0x80 + r mod 64) \<in> set (encode_rune r)"
    using \<open>128 \<le> r\<close> by (simp add: encode_rune_def)
  with c show ?thesis by blast
qed

lemma go_runes_high: "\<exists>c\<in>set s. \<not> is_ascii c \<Longrightarrow> \<exists>r\<in>set (go_runes s). 128 \<le> r"
proof (induction s rule: go_runes.induct)
  case (1 s)
  then obtain c t where s: "s = c # t" by (cases s) auto
  obtain r n where r: "decode_rune (map byte_code s) = (r, n)" by fastforce
  have run: "go_runes s = r # go_runes (drop n s)" using s r by (subst go_runes.simps) simp
  show ?case
  proof (cases "is_ascii c")
    case True
    then have "n = 1" using r s by (simp add: decode_rune.simps(2) is_ascii_def)
    moreover have "\<exists>c\<in>set t. \<not> is_ascii c" using "1.prems" s True by auto
    ultimately show ?thesis using "1.IH" [OF _ r [symmetric]] run s by auto
  next
    case False
    then have "128 \<le> r" using decode_rune_head [of "byte_code c" "map byte_code t"] r s
      by (simp add: is_ascii_def)
    then show ?thesis using run by simp
  qed
qed

lemma stripWhitespace_ascii:
  assumes "\<forall>c\<in>set s. is_ascii c"
  shows "stripWhitespace s = filter (\<lambda>c. \<not> is_space c) s"
  using assms
  by (induction s)
    (auto simp: stripWhitespace_def go_runes_ascii encode_rune_ascii is_space_def)

lemma stripWhitespace_high:
  assumes "\<exists>c\<in>set s. \<not> is_ascii c"
  shows "\<exists>c\<in>set (stripWhitespace s). \<not> is_ascii c"
proof -
  obtain r where r: "r \<in> set (go_runes s)" "128 \<le> r" using go_runes_high [OF assms] by blast
  obtain c where c: "c \<in> set (encode_rune r)" "\<not> is_ascii c" using encode_rune_high [OF r(2)] by blast
  have "r \<notin> {32, 9, 13, 10}" using r(2) by auto
  then have "set (encode_rune r) \<subseteq> set (stripWhitespace s)"
    using r(1) by (auto simp: stripWhitespace_def intro!: bexI [of _ r])
  with c show ?thesis by blast
qed

text \<open>In front of a base64 decoder, the rune loop is the byte filter.\<close>

lemma strip_decode:
  "b64_DecodeString (stripWhitespace s) = Inr d \<longleftrightarrow>
     b64_DecodeString (filter (\<lambda>c. \<not> is_space c) s) = Inr d"
proof (cases "\<forall>c\<in>set s. is_ascii c")
  case True
  then show ?thesis by (simp add: stripWhitespace_ascii)
next
  case False
  then obtain c where c: "c \<in> set s" "\<not> is_ascii c" by blast
  then have "c \<in> set (filter (\<lambda>c. \<not> is_space c) s)" by (auto simp: is_ascii_def is_space_def)
  then have "b64_DecodeString (filter (\<lambda>c. \<not> is_space c) s) \<noteq> Inr d"
    using c b64_DecodeString_ascii by (force simp: is_ascii_def byte_code_def)
  moreover have "b64_DecodeString (stripWhitespace s) \<noteq> Inr d"
    using stripWhitespace_high c b64_DecodeString_ascii by (force simp: is_ascii_def byte_code_def)
  ultimately show ?thesis by simp
qed

lemma is_space_char: "is_space c \<longleftrightarrow> c \<in> {CHR '' '', CHR 0x09, CHR 0x0D, CHR 0x0A}"
proof -
  have "byte_code c = n \<longleftrightarrow> c = char_of n" if "n < 256" for n :: nat
    using that by (metis byte_code_def char_of_char of_char_of mod_less)
  moreover have "char_of (32 :: nat) = CHR '' ''" "char_of (9 :: nat) = CHR 0x09"
    "char_of (13 :: nat) = CHR 0x0D" "char_of (10 :: nat) = CHR 0x0A" by code_simp+
  ultimately show ?thesis by (simp add: is_space_def)
qed

section \<open>Lines\<close>

definition crlf_lines :: "string list \<Rightarrow> string" where
  "crlf_lines ls = concat (map (\<lambda>l. l @ [CHR 0x0D, CHR 0x0A]) ls)"

lemma write_lines_chunks: "write_lines i s = crlf_lines (chunks mimeLineLength (drop i s))"
proof (induction i s rule: write_lines.induct)
  case (1 i s)
  show ?case
  proof (cases "i < length s")
    case True
    have "take ((if i + mimeLineLength > length s then length s else i + mimeLineLength) - i) (drop i s)
        = take mimeLineLength (drop i s)" by auto
    moreover have "chunks mimeLineLength (drop i s) =
        take mimeLineLength (drop i s) # chunks mimeLineLength (drop (i + mimeLineLength) s)"
      using True by (subst chunks.simps) (simp add: mimeLineLength_def add.commute)
    ultimately show ?thesis
      using True 1 by (subst write_lines.simps) (simp add: crlf_lines_def Let_def)
  next
    case False
    then show ?thesis by (subst write_lines.simps) (simp add: crlf_lines_def)
  qed
qed

lemma encode_no_space: "c \<in> set (b64_encode d) \<Longrightarrow> \<not> is_space c \<and> \<not> is_newline c"
proof -
  assume c: "c \<in> set (b64_encode d)"
  have "b64_legal c" using b64_dec_legal [OF b64_dec_encode] c by blast
  moreover have "\<not> is_newline c" using b64_encode_no_newline [OF c] .
  ultimately have "b64_val c \<noteq> None \<or> c = CHR ''=''" by (auto simp: b64_legal_def)
  then have "\<not> is_space c" by (auto simp: is_space_def byte_code_def b64_val_def Let_def)
  with \<open>\<not> is_newline c\<close> show ?thesis by simp
qed

lemma filter_lines:
  assumes "\<forall>c\<in>set (concat ls). \<not> P c" "P CHR 0x0D" "P CHR 0x0A"
  shows "filter (\<lambda>c. \<not> P c) (crlf_lines ls) = concat ls"
  using assms(1) by (induction ls) (auto simp: crlf_lines_def assms(2,3) filter_id_conv)

lemma body_decodes: "b64_DecodeString (write_lines 0 (b64_encode d)) = Inr d"
proof -
  have c: "concat (chunks mimeLineLength (b64_encode d)) = b64_encode d"
    by (simp add: concat_chunks mimeLineLength_def)
  then have "filter (\<lambda>c. \<not> is_newline c) (write_lines 0 (b64_encode d)) = b64_encode d"
    using filter_lines [of "chunks mimeLineLength (b64_encode d)" is_newline] encode_no_space
    by (simp add: write_lines_chunks is_newline_def)
  then show ?thesis by (subst b64_DecodeString_newlines) (simp add: b64_DecodeString_encode)
qed

lemma body_strips: "b64_DecodeString (stripWhitespace (write_lines 0 (b64_encode d))) = Inr d"
proof -
  have "concat (chunks mimeLineLength (b64_encode d)) = b64_encode d"
    by (simp add: concat_chunks mimeLineLength_def)
  then have "filter (\<lambda>c. \<not> is_space c) (write_lines 0 (b64_encode d)) = b64_encode d"
    using filter_lines [of "chunks mimeLineLength (b64_encode d)" is_space] encode_no_space
    by (simp add: write_lines_chunks is_space_def byte_code_def)
  then show ?thesis by (simp add: strip_decode b64_DecodeString_encode)
qed

section \<open>Properties\<close>

text \<open>
  C31: What \<open>decodeCSRBody\<close> accepts and returns, for every body a client can send, UTF-8 or not: the body
  must end without an error within 64 KiB, and is then decoded as the base64 text that is left when
  its spaces, tabs and line breaks are removed byte by byte; the rune loop of \<open>stripWhitespace\<close>, which
  rewrites bytes that are not UTF-8, makes no difference.
\<close>

theorem decodeCSRBody_spec:
  "(case decodeCSRBody parse r of Inl e \<Rightarrow> None | Inr csr \<Rightarrow> Some csr) =
     (case rq_Body r of (sent, err) \<Rightarrow>
        if length sent \<le> 65536 \<and> err = None
        then (case b64_DecodeString (filter (\<lambda>c. c \<notin> {CHR '' '', CHR 0x09, CHR 0x0D, CHR 0x0A}) sent) of
                Inl e \<Rightarrow> None
              | Inr d \<Rightarrow> (case parse d of Inl e \<Rightarrow> None | Inr csr \<Rightarrow> Some csr))
        else None)"
proof -
  obtain sent err where b: "rq_Body r = (sent, err)" by (cases "rq_Body r")
  have f: "filter (\<lambda>c. c \<notin> {CHR '' '', CHR 0x09, CHR 0x0D, CHR 0x0A}) sent
      = filter (\<lambda>c. \<not> is_space c) sent"
    by (rule filter_cong) (simp_all add: is_space_char)
  show ?thesis
  proof (cases "length sent \<le> 65536 \<and> err = None")
    case False
    then show ?thesis using b
      by (auto simp: decodeCSRBody_def read_limited_def maxCSRBodyBytes_def)
  next
    case True
    then have body: "decodeCSRBody parse r =
        rbind (wrap_err ''base64-decode request body: %w'' [] (b64_DecodeString (stripWhitespace sent)))
          (\<lambda>d. wrap_err ''parse CSR: %w'' [] (parse d))"
      using b by (simp add: decodeCSRBody_def read_limited_def maxCSRBodyBytes_def)
    show ?thesis
    proof (cases "b64_DecodeString (filter (\<lambda>c. \<not> is_space c) sent)")
      case (Inl e)
      then obtain e' where "b64_DecodeString (stripWhitespace sent) = Inl e'"
        using strip_decode [of sent] by (cases "b64_DecodeString (stripWhitespace sent)") auto
      then show ?thesis using body b Inl f True by simp
    next
      case (Inr d)
      then have "b64_DecodeString (stripWhitespace sent) = Inr d" by (simp add: strip_decode)
      then show ?thesis using body b Inr f True by (cases "parse d") simp_all
    qed
  qed
qed

text \<open>
  A response body is made of non-empty lines of at most 76 characters, all but the last one full,
  each ended by CR LF, which together are the base64 encoding of the DER.
\<close>

lemma response_lines:
  "\<exists>ls. rs_Body (writeBase64Response ct d) = Text (concat (map (\<lambda>l. l @ [CHR 0x0D, CHR 0x0A]) ls)) \<and>
     concat ls = b64_encode d \<and> (\<forall>l\<in>set ls. l \<noteq> [] \<and> length l \<le> 76) \<and>
     (\<forall>l\<in>set (butlast ls). length l = 76)"
proof (intro exI conjI)
  let ?ls = "chunks mimeLineLength (b64_encode d)"
  show "rs_Body (writeBase64Response ct d) = Text (concat (map (\<lambda>l. l @ [CHR 0x0D, CHR 0x0A]) ?ls))"
    by (simp add: writeBase64Response_def write_lines_chunks crlf_lines_def)
qed (use chunks_length chunks_full in \<open>fastforce simp: concat_chunks mimeLineLength_def\<close>)+

lemma response_lines_witness:
  "rs_Body (writeBase64Response contentTypeCSRAttrs [0x30, 0]) = Text (''MAA='' @ [CHR 0x0D, CHR 0x0A])"
proof -
  have e: "b64_encode [0x30, 0] = ''MAA=''" by (simp add: b64_char_def, code_simp)
  from response_lines [of contentTypeCSRAttrs "[0x30, 0]"] obtain ls where
    ls: "rs_Body (writeBase64Response contentTypeCSRAttrs [0x30, 0]) =
       Text (concat (map (\<lambda>l. l @ [CHR 0x0D, CHR 0x0A]) ls))" "concat ls = ''MAA=''"
    "\<forall>l\<in>set (butlast ls). length l = 76" unfolding e by blast
  have "butlast ls = []"
  proof (rule ccontr)
    assume "butlast ls \<noteq> []"
    then obtain l where "l \<in> set (butlast ls)" by (cases "butlast ls") auto
    then have "length l = 76" "l \<in> set ls" using ls(3) by (auto dest: in_set_butlastD)
    moreover from this obtain xs ys where "ls = xs @ l # ys" by (meson split_list)
    ultimately have "76 \<le> length (concat ls)" by simp
    then show False using ls(2) by simp
  qed
  then have "ls = [''MAA='']" using ls(2) by (cases ls rule: rev_cases) auto
  then show ?thesis using ls(1) by simp
qed

text \<open>
  A response body decodes to exactly the DER it was made of, both for a strict base64 decoder that
  skips line breaks and for the server's own request decoder.
\<close>

lemma response_roundtrip:
  assumes "rs_Body (writeBase64Response ct d) = Text t"
  shows "b64_DecodeString t = Inr d \<and>
     (length t \<le> 65536 \<longrightarrow>
        decodeCSRBody parse (r \<lparr> rq_Body := (t, None) \<rparr>) = wrap_err ''parse CSR: %w'' [] (parse d))"
proof -
  have t: "t = write_lines 0 (b64_encode d)" using assms by (simp add: writeBase64Response_def)
  then show ?thesis
    using body_decodes [of d] body_strips [of d]
    by (simp add: decodeCSRBody_def read_limited_def maxCSRBodyBytes_def)
qed

lemma response_roundtrip_witness:
  "\<exists>t. rs_Body (writeBase64Response contentTypeCSRAttrs [0x30, 0]) = Text t \<and>
     b64_DecodeString t = Inr [0x30, 0]"
proof -
  obtain t where t: "rs_Body (writeBase64Response contentTypeCSRAttrs [0x30, 0]) = Text t"
    by (simp add: writeBase64Response_def)
  with response_roundtrip [OF t] show ?thesis by blast
qed

end
