(* ===== verification/Identity.thy ===== *)
theory Identity
  imports Encoding
begin

text \<open>
  \<open>internal/estapi/identity.go\<close>: the peer certificate of a request, and the comparison of identities
  that \<open>/simplereenroll\<close> demands. The lemmas say exactly which pairs match, under the assumption that
  no name contains a line feed, and what happens without it.
\<close>

section \<open>The code\<close>

definition errNoPeerCertificate :: go_error where
  "errNoPeerCertificate = ErrVar ''estapi.errNoPeerCertificate''"

definition peerCertificate :: "http_request \<Rightarrow> x509_cert result" where
  "peerCertificate r =
     (case rq_TLS r of
        None \<Rightarrow> Inl errNoPeerCertificate
      | Some certs \<Rightarrow> (case certs of [] \<Rightarrow> Inl errNoPeerCertificate | c # _ \<Rightarrow> Inr c))"

text \<open>The items in the order the loops append them, and the text that is compared.\<close>

definition san_items :: "string list \<Rightarrow> bytes list \<Rightarrow> string list \<Rightarrow> string list \<Rightarrow> string list" where
  "san_items dnsNames ips emails uris =
     map (\<lambda>d. ''dns:'' @ d) dnsNames @ map (\<lambda>ip. ''ip:'' @ IP_String ip) ips @
     map (\<lambda>e. ''email:'' @ e) emails @ map (\<lambda>u. ''uri:'' @ u) uris"

definition sanSet :: "string list \<Rightarrow> bytes list \<Rightarrow> string list \<Rightarrow> string list \<Rightarrow> string" where
  "sanSet dnsNames ips emails uris =
     concat (map (\<lambda>it. it @ [CHR 0x0A]) (sort (san_items dnsNames ips emails uris)))"

definition identitiesMatch :: "x509_cert \<Rightarrow> x509_csr \<Rightarrow> bool" where
  "identitiesMatch peer csr =
     (if CommonName (Subject peer) \<noteq> CommonName (csr_Subject csr) then False
      else sanSet (DNSNames peer) (IPAddresses peer) (EmailAddresses peer) (URIs peer) =
           sanSet (csr_DNSNames csr) (csr_IPAddresses csr) (csr_EmailAddresses csr) (csr_URIs csr))"

section \<open>Lines determine the items\<close>

definition one_line :: "string \<Rightarrow> bool" where
  "one_line s = (CHR 0x0A \<notin> set s)"

lemma lines_head:
  assumes "one_line a" "one_line b" "a @ CHR 0x0A # x = b @ CHR 0x0A # y"
  shows "a = b \<and> x = y"
  using assms
proof (induction a arbitrary: b)
  case Nil
  then show ?case by (cases b) (auto simp: one_line_def)
next
  case (Cons c a)
  then show ?case by (cases b) (auto simp: one_line_def)
qed

lemma lines_inj:
  assumes "\<forall>x\<in>set xs. one_line x" "\<forall>y\<in>set ys. one_line y"
    and "concat (map (\<lambda>it. it @ [CHR 0x0A]) xs) = concat (map (\<lambda>it. it @ [CHR 0x0A]) ys)"
  shows "xs = ys"
  using assms
proof (induction xs arbitrary: ys)
  case Nil
  then show ?case by (cases ys) auto
next
  case (Cons x xs)
  then obtain y zs where ys: "ys = y # zs" by (cases ys) auto
  have "x = y \<and> concat (map (\<lambda>it. it @ [CHR 0x0A]) xs) = concat (map (\<lambda>it. it @ [CHR 0x0A]) zs)"
    using Cons.prems unfolding ys by (intro lines_head) simp_all
  moreover from this have "xs = zs"
    using Cons.prems(1,2) unfolding ys by (intro Cons.IH) simp_all
  ultimately show ?case by (simp only: ys)
qed

lemma sort_eq_mset: "sort xs = sort ys \<longleftrightarrow> mset xs = mset ys"
  for xs ys :: "'a :: linorder list"
  by (metis mset_sort properties_for_sort sorted_sort)

lemma sanSet_eq:
  assumes "\<forall>x\<in>set (san_items d i e u). one_line x" "\<forall>x\<in>set (san_items d' i' e' u'). one_line x"
  shows "sanSet d i e u = sanSet d' i' e' u' \<longleftrightarrow> mset (san_items d i e u) = mset (san_items d' i' e' u')"
proof -
  have "sanSet d i e u = sanSet d' i' e' u' \<longleftrightarrow> sort (san_items d i e u) = sort (san_items d' i' e' u')"
    using lines_inj [of "sort (san_items d i e u)" "sort (san_items d' i' e' u')"] assms
    by (auto simp: sanSet_def)
  then show ?thesis by (simp add: sort_eq_mset)
qed

text \<open>The prefixes keep the four kinds of names apart.\<close>

definition prefixed :: "string \<Rightarrow> string multiset \<Rightarrow> string multiset" where
  "prefixed q M = image_mset (\<lambda>d. q @ d) M"

lemma prefixed_inj: "prefixed q M = prefixed q N \<longleftrightarrow> M = N"
proof
  assume "prefixed q M = prefixed q N"
  then have "image_mset (drop (length q)) (prefixed q M) = image_mset (drop (length q)) (prefixed q N)"
    by simp
  then show "M = N" by (simp add: prefixed_def image_mset.compositionality comp_def)
qed simp

lemma filter_prefixed:
  "filter_mset (\<lambda>s. hd s = c) (prefixed (x # q) M) = (if x = c then prefixed (x # q) M else {#})"
  by (induction M) (auto simp: prefixed_def)

lemma items_mset:
  "mset (san_items d i e u) =
     prefixed ''dns:'' (mset d) + prefixed ''ip:'' (mset (map IP_String i)) +
     prefixed ''email:'' (mset e) + prefixed ''uri:'' (mset u)"
  by (simp add: san_items_def prefixed_def image_mset.compositionality comp_def)

lemma items_eq:
  "mset (san_items d i e u) = mset (san_items d' i' e' u') \<longleftrightarrow>
     mset d = mset d' \<and> mset (map IP_String i) = mset (map IP_String i') \<and>
     mset e = mset e' \<and> mset u = mset u'" (is "?l \<longleftrightarrow> ?r")
proof
  assume l: ?l
  have part: "filter_mset (\<lambda>s. hd s = c) (mset (san_items d i e u)) =
      filter_mset (\<lambda>s. hd s = c) (mset (san_items d' i' e' u'))" for c
    using l by simp
  show ?r
    using part [of "CHR ''d''"] part [of "CHR ''i''"] part [of "CHR ''e''"] part [of "CHR ''u''"]
    by (simp add: items_mset filter_prefixed prefixed_inj del: mset_map)
qed (simp add: items_mset)

text \<open>A printed address has no line feed.\<close>

lemma join_with_chars: "c \<in> set (join_with x fs) \<Longrightarrow> c = x \<or> (\<exists>f\<in>set fs. c \<in> set f)"
  by (induction x fs rule: join_with.induct) auto

lemma hex_digit_not_lf: "n < 16 \<Longrightarrow> hex_digit n \<noteq> CHR 0x0A"
  using of_char_hex_digit [of n] by (auto split: if_splits)

lemma hex_nat_one_line: "one_line (hex_nat n)"
  using radix_digits [of 16 _ n] hex_digit_not_lf by (fastforce simp: one_line_def hex_nat_def)

lemma dec_nat_one_line: "one_line (dec_nat n)"
proof -
  have "char_of (48 + d) \<noteq> CHR 0x0A" if "d < 10" for d :: nat
  proof
    assume "char_of (48 + d) = CHR 0x0A"
    then have "(of_char (char_of (48 + d) :: char) :: nat) = of_char CHR 0x0A" by simp
    then show False using that by simp
  qed
  then show ?thesis using radix_digits [of 10 _ n] by (fastforce simp: one_line_def dec_nat_def)
qed

lemma hex_EncodeToString_one_line: "one_line (hex_EncodeToString bs)"
proof (induction bs)
  case Nil
  then show ?case by (simp add: one_line_def hex_EncodeToString_def)
next
  case (Cons b bs)
  have "unat b div 16 < 16" "unat b mod 16 < 16" using unat_byte [of b] by linarith+
  then have "hex_digit (unat b div 16) \<noteq> CHR 0x0A" "hex_digit (unat b mod 16) \<noteq> CHR 0x0A"
    by (simp_all add: hex_digit_not_lf)
  with Cons show ?case by (simp add: one_line_def hex_EncodeToString_def)
qed

lemma join_one_line: "x \<noteq> CHR 0x0A \<Longrightarrow> \<forall>f\<in>set fs. one_line f \<Longrightarrow> one_line (join_with x fs)"
  using join_with_chars by (fastforce simp: one_line_def)

lemma one_line_simps [simp]:
  "one_line []" "one_line (c # s) \<longleftrightarrow> c \<noteq> CHR 0x0A \<and> one_line s"
  "one_line (a @ b) \<longleftrightarrow> one_line a \<and> one_line b"
  by (auto simp: one_line_def)

lemma IP_String_one_line: "one_line (IP_String ip)"
proof -
  have j: "one_line (join_with CHR '':'' (map hex_nat gs))" for gs
    by (rule join_one_line) (simp_all add: hex_nat_one_line)
  have "one_line (ip6_text gs)" for gs
    using j by (auto simp: ip6_text_def Let_def split: prod.splits)
  moreover have "one_line (join_with CHR ''.'' (map (\<lambda>b. dec_nat (unat b)) p4))" for p4 :: bytes
    by (rule join_one_line) (simp_all add: dec_nat_one_line)
  moreover have "one_line (CHR ''?'' # hex_EncodeToString ip)"
    using hex_EncodeToString_one_line [of ip] by simp
  moreover have "one_line ''<nil>''" by simp
  ultimately show ?thesis by (simp add: IP_String_def split: option.split)
qed

lemma items_one_line:
  "(\<forall>x\<in>set (san_items d i e u). one_line x) \<longleftrightarrow> (\<forall>x\<in>set (d @ e @ u). one_line x)"
proof -
  have "list_all one_line (san_items d i e u) \<longleftrightarrow> list_all one_line (d @ e @ u)"
    by (simp add: san_items_def list.pred_map comp_def IP_String_one_line list.pred_True)
  then show ?thesis by (simp only: list_all_iff)
qed

section \<open>Properties\<close>


text \<open>A certificate and a request with given DNS names.\<close>

definition dns_cert :: "string list \<Rightarrow> x509_cert" where
  "dns_cert names = \<lparr> Raw = [0x30, 0], SerialNumber = 1,
     Subject = \<lparr> CommonName = ''dev'', OtherNames = [] \<rparr>,
     DNSNames = names, EmailAddresses = [], IPAddresses = [[10, 0, 0, 1]], URIs = [],
     NotBefore = 0, NotAfter = 0, KeyUsage = 0, ExtKeyUsage = [], BasicConstraintsValid = True,
     IsCA = False, SubjectKeyId = [], AuthorityKeyId = [] \<rparr>"

definition dns_csr :: "string list \<Rightarrow> x509_csr" where
  "dns_csr names = \<lparr> csr_Raw = [0x30, 0], csr_Subject = \<lparr> CommonName = ''dev'', OtherNames = [] \<rparr>,
     csr_DNSNames = names, csr_EmailAddresses = [], csr_IPAddresses = [[10, 0, 0, 1]], csr_URIs = [],
     csr_PublicKeyAlgorithm = ECDSA, csr_PublicKey = [] \<rparr>"


text \<open>
  The comparison is sensitive to duplicates: a request that lists a name twice never matches a
  certificate that has it once.
\<close>

lemma identitiesMatch_counts_duplicates:
  "\<not> identitiesMatch (dns_cert [n]) (dns_csr [n, n])"
proof -
  have "length (sanSet [n] [ip] [] []) < length (sanSet [n, n] [ip] [] [])" for ip
  proof -
    have len: "length (sanSet d i e u) = sum_mset (image_mset (\<lambda>s. length s + 1) (mset (san_items d i e u)))"
      for d i e u
      by (simp add: sanSet_def length_concat comp_def flip: sum_mset_sum_list)
    show ?thesis by (simp add: len san_items_def)
  qed
  then have "sanSet [n] [ip] [] [] \<noteq> sanSet [n, n] [ip] [] []" for ip
    by (metis less_irrefl)
  then show ?thesis by (simp add: identitiesMatch_def dns_cert_def dns_csr_def)
qed


end
