(* ===== verification/CA.thy ===== *)
theory CA
  imports Go_OS Go_PEM Identity DER
begin

text \<open>
  \<open>internal/ca\<close>: the \<open>CABackend\<close> interface with its contract as a locale, the random serial numbers, and
  the in-process CA. Signing, signature checking and the parsers of \<open>crypto/x509\<close>
  are the fields of a record that the definitions take as an argument.
\<close>

section \<open>The interface\<close>

definition ErrInvalidCSRSignature :: go_error where
  "ErrInvalidCSRSignature = ErrVar ''ca.ErrInvalidCSRSignature''"

definition ErrCABackendUnavailable :: go_error where
  "ErrCABackendUnavailable = ErrVar ''ca.ErrCABackendUnavailable''"

record 'w cabackend =
  be_CACertificates :: "'w \<Rightarrow> x509_cert option list result \<times> 'w"
  be_IssueCertificate :: "x509_csr \<Rightarrow> 'w \<Rightarrow> x509_cert result \<times> 'w"

text \<open>
  What the server relies on. \<open>sig_ok\<close> is the check of a request's self-signature; \<open>view\<close> is the part of
  the state that a backend must leave alone (the store's files); \<open>trusted\<close> is what the backend in turn
  assumes of code outside the repository.
\<close>

locale ca_backend =
  fixes BE :: "'w cabackend" and sig_ok :: "x509_csr \<Rightarrow> bool" and view :: "'w \<Rightarrow> 'v"
    and trusted :: bool
  assumes bad_signature: "\<not> sig_ok csr \<Longrightarrow>
      be_IssueCertificate BE csr w = (Inl ErrInvalidCSRSignature, w)"
    and never_CA: "trusted \<Longrightarrow> be_IssueCertificate BE csr w = (Inr c, w') \<Longrightarrow> \<not> IsCA c"
    and issue_frame: "trusted \<Longrightarrow> be_IssueCertificate BE csr w = (r, w') \<Longrightarrow> view w' = view w"
    and cacerts_frame: "trusted \<Longrightarrow> be_CACertificates BE w = (r', w') \<Longrightarrow> view w' = view w"
begin

lemma issued_verified: "be_IssueCertificate BE csr w = (Inr c, w') \<Longrightarrow> sig_ok csr"
  using bad_signature [of csr w] by fastforce

lemma bad_signature_is: "\<not> sig_ok csr \<Longrightarrow> be_IssueCertificate BE csr w = (Inl e, w') \<Longrightarrow>
    errors_Is e ErrInvalidCSRSignature \<and> w' = w"
  using bad_signature [of csr w] by simp

end

section \<open>Serial numbers\<close>

text \<open>\<open>SetBytes\<close> reads big-endian; \<open>buf[0] &^= 0x80\<close> clears the top bit.\<close>

definition big_endian :: "bytes \<Rightarrow> nat" where
  "big_endian bs = radix_val 256 (map unat bs)"

definition clear_top :: "bytes \<Rightarrow> bytes" where
  "clear_top buf = (case buf of [] \<Rightarrow> [] | b # bs \<Rightarrow> and b (not 0x80) # bs)"

definition RandomSerial_Next :: "(int result, 'z) os_call" where
  "RandomSerial_Next w =
     (case rand_Read 20 w of
        (Inl e, w) \<Rightarrow> (Inl (ErrWrap ''ca: generate serial: %w'' [] e), w)
      | (Inr buf, w) \<Rightarrow> (Inr (int (big_endian (clear_top buf))), w))"

text \<open>The contract of a \<open>SerialSource\<close>: numbers that fit a positive 20-octet INTEGER.\<close>

locale serial_source =
  fixes nxt :: "'w \<Rightarrow> int result \<times> 'w" and view :: "'w \<Rightarrow> 'v"
  assumes serial_range: "nxt w = (Inr n, w') \<Longrightarrow> 0 \<le> n \<and> n < 2 ^ 159"
    and serial_frame: "nxt w = (r, w') \<Longrightarrow> view w' = view w"
begin

text \<open>The DER encoding of such a number takes at most 20 octets.\<close>

lemma serial_octets: "nxt w = (Inr n, w') \<Longrightarrow> length (int_octets n) \<le> 20"
  using serial_range [of w n w'] length_int_octets [of 19 n] by simp

end

lemma and_not_top: "unat (and b (not 0x80) :: byte) = unat b mod 128"
proof -
  have e: "and b (not 0x80) = take_bit 7 b"
    by (rule bit_word_eqI) (auto simp: bit_simps less_Suc_eq numeral_eq_Suc)
  show ?thesis unfolding e unsigned_take_bit_eq by (simp add: take_bit_eq_mod)
qed

lemma clear_top_value: "big_endian (clear_top (b # bs)) = big_endian (b # bs) mod (128 * 256 ^ length bs)"
proof -
  have r: "radix_val 256 (map unat bs) < 256 ^ length bs"
    using radix_val_less [of "map unat bs" 256] by simp
  have "(unat b * 256 ^ length bs + radix_val 256 (map unat bs)) mod (128 * 256 ^ length bs)
      = unat b mod 128 * 256 ^ length bs + radix_val 256 (map unat bs)"
    using r by (simp add: mod_mult2_eq mult.commute [of 128] div_mult_self3)
  then show ?thesis
    by (simp only: big_endian_def clear_top_def list.case list.map radix_val_Cons length_map and_not_top)
qed

lemma clear_top_range: "length buf = 20 \<Longrightarrow> big_endian (clear_top buf) < 2 ^ 159"
  by (cases buf) (auto simp: clear_top_value)

lemma RandomSerial_result:
  "RandomSerial_Next w = (Inr n, w') \<Longrightarrow>
     \<exists>buf. length buf = 20 \<and> n = int (big_endian (clear_top buf))"
  by (auto simp: RandomSerial_Next_def split: prod.splits sum.splits dest: rand_Read_length)

lemma RandomSerial_tick: "RandomSerial_Next w = (r, w') \<Longrightarrow> w' = os_tick w"
  by (auto simp: RandomSerial_Next_def rand_Read_def split: option.splits)

interpretation random_serials: serial_source RandomSerial_Next w_files
proof
  fix w w' :: "'z os_world_scheme" and n
  assume "RandomSerial_Next w = (Inr n, w')"
  then obtain buf where "length buf = 20" "n = int (big_endian (clear_top buf))"
    using RandomSerial_result by blast
  moreover from this have "int (big_endian (clear_top buf)) < int (2 ^ 159)"
    using clear_top_range [of buf] by (simp only: of_nat_less_iff)
  ultimately show "0 \<le> n \<and> n < 2 ^ 159" by (simp only: of_nat_power of_nat_numeral) simp
next
  fix w w' :: "'z os_world_scheme" and r
  show "RandomSerial_Next w = (r, w') \<Longrightarrow> w_files w' = w_files w"
    by (auto simp: RandomSerial_Next_def split: prod.splits sum.splits dest!: rand_Read_frame)
qed

section \<open>The libraries\<close>

text \<open>
  What the CA packages call of \<open>crypto/x509\<close>, \<open>crypto/sha1\<close> and \<open>encoding/asn1\<close>. A private
  key has an arbitrary type \<open>'k\<close>; the result of the PKCS#8 parser may be no signer (\<open>None\<close>). The random
  input of \<open>CreateCertificate\<close> is a number.
\<close>

record 'k x509_lib =
  x_CheckSignature :: "x509_csr \<Rightarrow> go_error option"
  x_MarshalPKIXPublicKey :: "bytes \<Rightarrow> bytes result"
  x_SubjectPublicKey :: "bytes \<Rightarrow> bytes result"
  x_sha1 :: "bytes \<Rightarrow> bytes"
  x_CreateCertificate :: "nat \<Rightarrow> x509_cert \<Rightarrow> x509_cert \<Rightarrow> bytes \<Rightarrow> 'k \<Rightarrow> bytes result"
  x_ParseCertificate :: "bytes \<Rightarrow> x509_cert result"
  x_ParsePKCS8PrivateKey :: "bytes \<Rightarrow> 'k option result"
  x_ParsePKCS1PrivateKey :: "bytes \<Rightarrow> 'k result"
  x_ParseECPrivateKey :: "bytes \<Rightarrow> 'k result"

definition sig_verifies :: "('k, 'm) x509_lib_scheme \<Rightarrow> x509_csr \<Rightarrow> bool" where
  "sig_verifies X csr = (x_CheckSignature X csr = None)"

text \<open>
  The documentation of \<open>x509.CreateCertificate\<close>: the certificate carries the template's serial number,
  common name, alternative names, usages, constraints and identifiers (times in whole seconds, IPv4
  addresses in their short form).
\<close>

definition creates_faithfully :: "('k, 'm) x509_lib_scheme \<Rightarrow> bool" where
  "creates_faithfully X \<longleftrightarrow>
     (\<forall>seed t parent pub key d c.
        x_CreateCertificate X seed t parent pub key = Inr d \<longrightarrow> x_ParseCertificate X d = Inr c \<longrightarrow>
          Raw c = d \<and> SerialNumber c = SerialNumber t \<and>
          CommonName (Subject c) = CommonName (Subject t) \<and>
          DNSNames c = DNSNames t \<and> EmailAddresses c = EmailAddresses t \<and> URIs c = URIs t \<and>
          map IP_String (IPAddresses c) = map IP_String (IPAddresses t) \<and>
          NotBefore c = NotBefore t div 10 ^ 9 * 10 ^ 9 \<and> NotAfter c = NotAfter t div 10 ^ 9 * 10 ^ 9 \<and>
          KeyUsage c = KeyUsage t \<and> ExtKeyUsage c = ExtKeyUsage t \<and>
          IsCA c = (BasicConstraintsValid t \<and> IsCA t) \<and>
          SubjectKeyId c = SubjectKeyId t)"

section \<open>The local CA\<close>

record ('k, 'w) local_ca =
  lc_cert :: x509_cert
  lc_key :: 'k
  lc_serials :: "'w \<Rightarrow> int result \<times> 'w"
  lc_validity :: int
  lc_ExtKeyUsage :: "ext_key_usage list"
  lc_NotBeforeSkew :: int

definition NewLocalCA ::
  "x509_cert \<Rightarrow> 'k \<Rightarrow> ('w \<Rightarrow> int result \<times> 'w) \<Rightarrow> int \<Rightarrow> ('k, 'w) local_ca" where
  "NewLocalCA cert key serials validity = \<lparr>
     lc_cert = cert, lc_key = key, lc_serials = serials, lc_validity = validity,
     lc_ExtKeyUsage = [ExtKeyUsageClientAuth], lc_NotBeforeSkew = 0 \<rparr>"

definition parsePrivateKey :: "('k, 'm) x509_lib_scheme \<Rightarrow> bytes \<Rightarrow> 'k result" where
  "parsePrivateKey X d =
     (case x_ParsePKCS8PrivateKey X d of
        Inr key \<Rightarrow>
          (case key of
             None \<Rightarrow> Inl (ErrNew ''PKCS#8 key of type %T does not implement crypto.Signer'' [])
           | Some signer \<Rightarrow> Inr signer)
      | Inl _ \<Rightarrow>
     (case x_ParsePKCS1PrivateKey X d of
        Inr key \<Rightarrow> Inr key
      | Inl _ \<Rightarrow>
     (case x_ParseECPrivateKey X d of
        Inr key \<Rightarrow> Inr key
      | Inl _ \<Rightarrow> Inl (ErrNew ''unrecognized private key format (tried PKCS#8, PKCS#1, SEC1 EC)'' []))))"

definition LoadCAKeyPair ::
  "('k, 'm) x509_lib_scheme \<Rightarrow> string \<Rightarrow> string \<Rightarrow> ((x509_cert \<times> 'k) result, 'z) os_call" where
  "LoadCAKeyPair X certPath keyPath w =
     (case os_ReadFile certPath w of
        (Inl e, w) \<Rightarrow> (Inl (ErrWrap ''ca: read CA certificate: %w'' [] e), w)
      | (Inr certPEM, w) \<Rightarrow>
     (case pem_Decode certPEM of
        None \<Rightarrow> (Inl (ErrNew ''ca: no PEM block found in %s'' [FStr certPath]), w)
      | Some (certBlock, _) \<Rightarrow>
     (case x_ParseCertificate X (pb_Bytes certBlock) of
        Inl e \<Rightarrow> (Inl (ErrWrap ''ca: parse CA certificate: %w'' [] e), w)
      | Inr cert \<Rightarrow>
     (case os_ReadFile keyPath w of
        (Inl e, w) \<Rightarrow> (Inl (ErrWrap ''ca: read CA key: %w'' [] e), w)
      | (Inr keyPEM, w) \<Rightarrow>
     (case pem_Decode keyPEM of
        None \<Rightarrow> (Inl (ErrNew ''ca: no PEM block found in %s'' [FStr keyPath]), w)
      | Some (keyBlock, _) \<Rightarrow>
     (case parsePrivateKey X (pb_Bytes keyBlock) of
        Inl e \<Rightarrow> (Inl (ErrWrap ''ca: parse CA key: %w'' [] e), w)
      | Inr signer \<Rightarrow> (Inr (cert, signer), w)))))))"

text \<open>The first block of either file counts, whatever its type and whatever follows it.\<close>

lemma LoadCAKeyPair_first_blocks:
  assumes "no_faults w" "w_files w certPath = Some f" "f_data f = pem_EncodeToMemory t d @ r" "pem_type t"
    and "x_ParseCertificate X d = Inr cert"
    and "w_files w keyPath = Some g" "f_data g = pem_EncodeToMemory t' k @ r'" "pem_type t'"
  shows "LoadCAKeyPair X certPath keyPath w =
    (case parsePrivateKey X k of
       Inl e \<Rightarrow> Inl (ErrWrap ''ca: parse CA key: %w'' [] e)
     | Inr key \<Rightarrow> Inr (cert, key), os_tick (os_tick w))"
proof -
  have "os_fault w = None" "os_fault (os_tick w) = None" using assms(1) by (simp_all add: no_faults_def os_fault_def)
  then show ?thesis using assms by (simp add: LoadCAKeyPair_def os_ReadFile_def split: sum.split)
qed

text \<open>
  So a key file as \<open>openssl ecparam -genkey\<close> writes it, with the parameters of the curve in front of the key, is
  refused, though the key would be accepted by itself.
\<close>

lemma key_after_parameters_refused:
  assumes "no_faults w" "w_files w certPath = Some f" "f_data f = pem_EncodeToMemory ''CERTIFICATE'' d"
    and "x_ParseCertificate X d = Inr cert" "w_files w keyPath = Some g"
    and "f_data g = pem_EncodeToMemory ''EC PARAMETERS'' curve @ pem_EncodeToMemory ''EC PRIVATE KEY'' k"
    and "parsePrivateKey X curve = Inl e"
  shows "fst (LoadCAKeyPair X certPath keyPath w) = Inl (ErrWrap ''ca: parse CA key: %w'' [] e)"
proof -
  have "f_data f = pem_EncodeToMemory ''CERTIFICATE'' d @ []" using assms(3) by simp
  from LoadCAKeyPair_first_blocks [OF assms(1,2) this _ assms(4-6)] assms(7) show ?thesis by simp
qed

definition LocalCA_CACertificates ::
  "('k, 'w) local_ca \<Rightarrow> 'w \<Rightarrow> x509_cert option list result \<times> 'w" where
  "LocalCA_CACertificates l w = (Inr [Some (lc_cert l)], w)"

definition keyUsageFor :: "pk_alg \<Rightarrow> nat" where
  "keyUsageFor alg =
     (case alg of
        RSA \<Rightarrow> or KeyUsageDigitalSignature KeyUsageKeyEncipherment
      | _ \<Rightarrow> KeyUsageDigitalSignature)"

definition subjectKeyID :: "('k, 'm) x509_lib_scheme \<Rightarrow> bytes \<Rightarrow> bytes result" where
  "subjectKeyID X pub =
     rbind (x_MarshalPKIXPublicKey X pub) (\<lambda>spkiDER.
     rbind (x_SubjectPublicKey X spkiDER) (\<lambda>publicKey.
     Inr (x_sha1 X publicKey)))"

text \<open>Five minutes in nanoseconds.\<close>

definition defaultSkew :: int where
  "defaultSkew = 5 * 60 * 10 ^ 9"

definition cert_template ::
  "('k, 'w) local_ca \<Rightarrow> x509_csr \<Rightarrow> int \<Rightarrow> bytes \<Rightarrow> int \<Rightarrow> x509_cert" where
  "cert_template l csr serial skid now =
     (let skew = (if lc_NotBeforeSkew l = 0 then defaultSkew else lc_NotBeforeSkew l) in
      \<lparr> Raw = [], SerialNumber = serial, Subject = csr_Subject csr,
        DNSNames = csr_DNSNames csr, EmailAddresses = csr_EmailAddresses csr,
        IPAddresses = csr_IPAddresses csr, URIs = csr_URIs csr,
        NotBefore = now - skew, NotAfter = now + lc_validity l,
        KeyUsage = keyUsageFor (csr_PublicKeyAlgorithm csr), ExtKeyUsage = lc_ExtKeyUsage l,
        BasicConstraintsValid = True, IsCA = False,
        SubjectKeyId = skid, AuthorityKeyId = SubjectKeyId (lc_cert l) \<rparr>)"

definition LocalCA_IssueCertificate ::
  "('k, 'm) x509_lib_scheme \<Rightarrow> ('k, 'z os_world_scheme) local_ca \<Rightarrow> x509_csr \<Rightarrow> (x509_cert result, 'z) os_call"
  where
  "LocalCA_IssueCertificate X l csr w =
     (case x_CheckSignature X csr of
        Some _ \<Rightarrow> (Inl ErrInvalidCSRSignature, w)
      | None \<Rightarrow>
     (case lc_serials l w of
        (Inl e, w) \<Rightarrow> (Inl (ErrWrap ''ca: allocate serial: %w'' [] e), w)
      | (Inr serial, w) \<Rightarrow>
     (case subjectKeyID X (csr_PublicKey csr) of
        Inl e \<Rightarrow> (Inl (ErrWrap ''ca: compute subject key id: %w'' [] e), w)
      | Inr skid \<Rightarrow>
     (case time_Now w of
        (now, w) \<Rightarrow>
     (case x_CreateCertificate X (w_tick w) (cert_template l csr serial skid now) (lc_cert l)
             (csr_PublicKey csr) (lc_key l) of
        Inl e \<Rightarrow> (Inl (ErrWrap ''ca: create certificate: %w'' [] e), w)
      | Inr d \<Rightarrow>
     (case x_ParseCertificate X d of
        Inl e \<Rightarrow> (Inl (ErrWrap ''ca: parse issued certificate: %w'' [] e), w)
      | Inr cert \<Rightarrow> (Inr cert, w)))))))"

definition local_backend ::
  "('k, 'm) x509_lib_scheme \<Rightarrow> ('k, 'z os_world_scheme) local_ca \<Rightarrow> 'z os_world_scheme cabackend" where
  "local_backend X l = \<lparr>
     be_CACertificates = LocalCA_CACertificates l,
     be_IssueCertificate = LocalCA_IssueCertificate X l \<rparr>"

text \<open>What a successful call went through.\<close>

lemma local_issue_trace:
  assumes "LocalCA_IssueCertificate X l csr w = (Inr c, w')"
  shows "x_CheckSignature X csr = None \<and>
    (\<exists>serial w1 skid d. lc_serials l w = (Inr serial, w1) \<and> subjectKeyID X (csr_PublicKey csr) = Inr skid \<and>
       w' = os_tick w1 \<and>
       x_CreateCertificate X (Suc (w_tick w1))
         (cert_template l csr serial skid (ev_now (w_env w1) (w_tick w1))) (lc_cert l)
         (csr_PublicKey csr) (lc_key l) = Inr d \<and>
       x_ParseCertificate X d = Inr c)"
  using assms
  by (auto simp: LocalCA_IssueCertificate_def time_Now_def split: option.splits prod.splits sum.splits)

lemma local_issue_files:
  assumes "LocalCA_IssueCertificate X l csr w = (r, w')"
    and "\<And>u q u'. lc_serials l u = (q, u') \<Longrightarrow> w_files u' = w_files u"
  shows "w_files w' = w_files w"
  using assms(1)
  by (auto simp: LocalCA_IssueCertificate_def time_Now_def split: option.splits prod.splits sum.splits
      dest!: assms(2))

text \<open>The server's CA: random serial numbers.\<close>

definition random_local_ca :: "x509_cert \<Rightarrow> 'k \<Rightarrow> int \<Rightarrow> ('k, 'z os_world_scheme) local_ca" where
  "random_local_ca cert key validity = NewLocalCA cert key RandomSerial_Next validity"

lemma lc_serials_random [simp]: "lc_serials (random_local_ca cert key validity) = RandomSerial_Next"
  by (simp add: random_local_ca_def NewLocalCA_def)

interpretation local: ca_backend "local_backend X (random_local_ca cert key validity)" "sig_verifies X" w_files
  "creates_faithfully X"
proof
  fix csr and w w' :: "'z os_world_scheme" and c r r'
  show "\<not> sig_verifies X csr \<Longrightarrow>
      be_IssueCertificate (local_backend X (random_local_ca cert key validity)) csr w
        = (Inl ErrInvalidCSRSignature, w)"
    by (auto simp: local_backend_def LocalCA_IssueCertificate_def sig_verifies_def)
  show "creates_faithfully X \<Longrightarrow>
      be_IssueCertificate (local_backend X (random_local_ca cert key validity)) csr w = (Inr c, w') \<Longrightarrow> \<not> IsCA c"
    by (auto simp: local_backend_def creates_faithfully_def cert_template_def Let_def dest!: local_issue_trace)
  show "be_IssueCertificate (local_backend X (random_local_ca cert key validity)) csr w = (r, w') \<Longrightarrow>
      w_files w' = w_files w"
    by (rule local_issue_files [of X "random_local_ca cert key validity" csr w r])
      (auto simp: local_backend_def dest: random_serials.serial_frame)
  show "be_CACertificates (local_backend X (random_local_ca cert key validity)) w = (r', w') \<Longrightarrow>
      w_files w' = w_files w"
    by (simp add: local_backend_def LocalCA_CACertificates_def)
qed

lemma random_local_profile:
  fixes X :: "('k, 'm) x509_lib_scheme" and w :: "'z os_world_scheme"
  assumes X: "creates_faithfully X"
    and run: "LocalCA_IssueCertificate X (random_local_ca cert key validity) csr w = (Inr c, w')"
  shows "\<exists>serial w1 skid. RandomSerial_Next w = (Inr serial, w1) \<and>
     subjectKeyID X (csr_PublicKey csr) = Inr skid \<and> w' = os_tick w1 \<and>
     SerialNumber c = serial \<and> CommonName (Subject c) = CommonName (csr_Subject csr) \<and>
     DNSNames c = csr_DNSNames csr \<and> EmailAddresses c = csr_EmailAddresses csr \<and> URIs c = csr_URIs csr \<and>
     map IP_String (IPAddresses c) = map IP_String (csr_IPAddresses csr) \<and>
     NotBefore c = (ev_now (w_env w1) (w_tick w1) - defaultSkew) div 10 ^ 9 * 10 ^ 9 \<and>
     NotAfter c = (ev_now (w_env w1) (w_tick w1) + validity) div 10 ^ 9 * 10 ^ 9 \<and>
     KeyUsage c = keyUsageFor (csr_PublicKeyAlgorithm csr) \<and> ExtKeyUsage c = [ExtKeyUsageClientAuth] \<and>
     \<not> IsCA c \<and> SubjectKeyId c = skid"
proof -
  let ?l = "random_local_ca cert key validity :: ('k, 'z os_world_scheme) local_ca"
  from local_issue_trace [OF run] obtain serial w1 skid d where t:
    "RandomSerial_Next w = (Inr serial, w1)" "subjectKeyID X (csr_PublicKey csr) = Inr skid"
    "w' = os_tick w1"
    "x_CreateCertificate X (Suc (w_tick w1))
       (cert_template ?l csr serial skid (ev_now (w_env w1) (w_tick w1)))
       (lc_cert ?l) (csr_PublicKey csr)
       (lc_key ?l) = Inr d"
    "x_ParseCertificate X d = Inr c" unfolding lc_serials_random by blast
  from X [unfolded creates_faithfully_def, rule_format, OF t(4,5)] t(1-3) show ?thesis
    by (simp add: cert_template_def random_local_ca_def NewLocalCA_def Let_def)
qed

section \<open>Properties\<close>

text \<open>A library that signs one given template, for the concrete instances.\<close>

definition demo_lib :: "x509_cert \<Rightarrow> unit x509_lib" where
  "demo_lib t0 = \<lparr>
     x_CheckSignature = (\<lambda>_. None),
     x_MarshalPKIXPublicKey = Inr, x_SubjectPublicKey = Inr, x_sha1 = (\<lambda>_. [7]),
     x_CreateCertificate = (\<lambda>_ t _ _ _. if t = t0 then Inr [0x30, 0] else Inl (ErrNew ''refused'' [])),
     x_ParseCertificate = (\<lambda>d. if d = [0x30, 0]
        then Inr (t0 \<lparr> Raw := [0x30, 0], NotBefore := NotBefore t0 div 10 ^ 9 * 10 ^ 9,
                       NotAfter := NotAfter t0 div 10 ^ 9 * 10 ^ 9,
                       IsCA := BasicConstraintsValid t0 \<and> IsCA t0 \<rparr>)
        else Inl (ErrNew ''malformed'' [])),
     x_ParsePKCS8PrivateKey = (\<lambda>_. Inr (Some ())), x_ParsePKCS1PrivateKey = (\<lambda>_. Inr ()),
     x_ParseECPrivateKey = (\<lambda>_. Inr ()) \<rparr>"

lemma demo_faithful: "creates_faithfully (demo_lib t0)"
  by (auto simp: creates_faithfully_def demo_lib_def split: if_splits)

definition demo_ca :: "(unit, os_world) local_ca" where
  "demo_ca = random_local_ca (dns_cert []) () (10 ^ 9)"

definition demo_serial :: int where
  "demo_serial = int (big_endian (clear_top (replicate 20 1)))"

definition demo_template :: x509_cert where
  "demo_template = cert_template demo_ca (dns_csr [''a'']) demo_serial [7] 0"

lemma demo_next: "RandomSerial_Next empty_world = (Inr demo_serial, os_tick empty_world)"
  by (simp add: RandomSerial_Next_def rand_Read_def os_fault_def empty_world_def quiet_env_def demo_serial_def
      map_replicate_const)

lemma demo_issue:
  "\<exists>c w'. LocalCA_IssueCertificate (demo_lib demo_template) demo_ca (dns_csr [''a'']) empty_world = (Inr c, w')"
proof -
  have "subjectKeyID (demo_lib demo_template) (csr_PublicKey (dns_csr [''a''])) = Inr [7]"
    by (simp add: subjectKeyID_def demo_lib_def)
  moreover have "time_Now (os_tick empty_world) = (0, os_tick (os_tick empty_world))"
    by (simp add: time_Now_def empty_world_def quiet_env_def)
  moreover have "x_CreateCertificate (demo_lib demo_template) s demo_template p k q = Inr [0x30, 0]" for s p k q
    by (simp add: demo_lib_def)
  moreover have "lc_serials demo_ca = RandomSerial_Next" by (simp add: demo_ca_def)
  ultimately show ?thesis
    using demo_next
    by (simp add: LocalCA_IssueCertificate_def demo_lib_def [THEN arg_cong, of x_CheckSignature]
        demo_lib_def [THEN arg_cong, of x_ParseCertificate] flip: demo_template_def)
qed

text \<open>
  C21: Every certificate the local CA issues has the server's profile, whatever the request asks for: it
  is no CA certificate, its key usage depends on the key's algorithm only (signature, and
  encipherment for RSA), its extended key usage is client authentication, it is valid from five
  minutes before the time of the second system call for the configured time (in whole seconds), its serial
  number is a random one below \<open>2 ^ 159\<close> and its key identifier is that of the request's key; only the names are
  the request's. No file is touched.
\<close>

theorem local_issue_profile:
  assumes "creates_faithfully X"
    and "LocalCA_IssueCertificate X (random_local_ca cert key validity) csr w = (Inr c, w')"
  shows "x_CheckSignature X csr = None \<and> \<not> IsCA c \<and>
     KeyUsage c = (case csr_PublicKeyAlgorithm csr of RSA \<Rightarrow> 5 | _ \<Rightarrow> 1) \<and>
     ExtKeyUsage c = [ExtKeyUsageClientAuth] \<and> 0 \<le> SerialNumber c \<and> SerialNumber c < 2 ^ 159 \<and>
     NotBefore c = (ev_now (w_env w) (Suc (w_tick w)) - 300000000000) div 10 ^ 9 * 10 ^ 9 \<and>
     NotAfter c = (ev_now (w_env w) (Suc (w_tick w)) + validity) div 10 ^ 9 * 10 ^ 9 \<and>
     CommonName (Subject c) = CommonName (csr_Subject csr) \<and> DNSNames c = csr_DNSNames csr \<and>
     EmailAddresses c = csr_EmailAddresses csr \<and> URIs c = csr_URIs csr \<and>
     map IP_String (IPAddresses c) = map IP_String (csr_IPAddresses csr) \<and>
     subjectKeyID X (csr_PublicKey csr) = Inr (SubjectKeyId c) \<and>
     w_files w' = w_files w"
proof -
  obtain serial w1 skid where p: "RandomSerial_Next w = (Inr serial, w1)" "SerialNumber c = serial"
    "subjectKeyID X (csr_PublicKey csr) = Inr skid" "SubjectKeyId c = skid" "w' = os_tick w1"
    "NotBefore c = (ev_now (w_env w1) (w_tick w1) - defaultSkew) div 10 ^ 9 * 10 ^ 9"
    "NotAfter c = (ev_now (w_env w1) (w_tick w1) + validity) div 10 ^ 9 * 10 ^ 9"
    "KeyUsage c = keyUsageFor (csr_PublicKeyAlgorithm csr)"
    "ExtKeyUsage c = [ExtKeyUsageClientAuth]" "\<not> IsCA c"
    "CommonName (Subject c) = CommonName (csr_Subject csr)" "DNSNames c = csr_DNSNames csr"
    "EmailAddresses c = csr_EmailAddresses csr" "URIs c = csr_URIs csr"
    "map IP_String (IPAddresses c) = map IP_String (csr_IPAddresses csr)"
    using random_local_profile [OF assms] by auto
  have u: "keyUsageFor alg = (case alg of RSA \<Rightarrow> 5 | _ \<Rightarrow> 1)" for alg
    by (cases alg) (simp_all add: keyUsageFor_def KeyUsageDigitalSignature_def KeyUsageKeyEncipherment_def)
  have t: "w_env w1 = w_env w" "w_tick w1 = Suc (w_tick w)" using RandomSerial_tick [OF p(1)] by (simp_all add: os_tick_def)
  show ?thesis
    using p random_serials.serial_range [OF p(1)] random_serials.serial_frame [OF p(1)] local_issue_trace [OF assms(2)]
    by (simp add: defaultSkew_def u t)
qed

lemma local_issue_profile_witness:
  "\<exists>c w'. LocalCA_IssueCertificate (demo_lib demo_template) demo_ca (dns_csr [''a'']) empty_world = (Inr c, w') \<and>
     \<not> IsCA c \<and> KeyUsage c = 1 \<and> DNSNames c = [''a'']"
proof -
  obtain c w' where r: "LocalCA_IssueCertificate (demo_lib demo_template) demo_ca (dns_csr [''a'']) empty_world
      = (Inr c, w')" using demo_issue by blast
  from local_issue_profile [OF demo_faithful r [unfolded demo_ca_def]] r show ?thesis
    by (auto simp: dns_csr_def)
qed

text \<open>
  C35: A serial number is exactly 159 random bits: the 160 bits read, without the top one. It is not
  negative, its DER takes at most 20 octets (RFC 5280), and a failing random source issues none.
\<close>

theorem random_serial_bits:
  "RandomSerial_Next w =
     (case rand_Read 20 w of
        (Inl e, w') \<Rightarrow> (Inl (ErrWrap ''ca: generate serial: %w'' [] e), w')
      | (Inr buf, w') \<Rightarrow> (Inr (int (big_endian buf mod 2 ^ 159)), w')) \<and>
   (case fst (RandomSerial_Next w) of
        Inl e \<Rightarrow> True
      | Inr n \<Rightarrow> 0 \<le> n \<and> length (int_octets n) \<le> 20)"
proof -
  have "big_endian (clear_top buf) = big_endian buf mod 2 ^ 159" if "length buf = 20" for buf
    using that by (cases buf) (simp_all add: clear_top_value)
  then have "RandomSerial_Next w =
     (case rand_Read 20 w of
        (Inl e, w') \<Rightarrow> (Inl (ErrWrap ''ca: generate serial: %w'' [] e), w')
      | (Inr buf, w') \<Rightarrow> (Inr (int (big_endian buf mod 2 ^ 159)), w'))"
    unfolding RandomSerial_Next_def
    by (cases "rand_Read 20 w"; cases "fst (rand_Read 20 w)") (auto dest: rand_Read_length)
  moreover have "case fst (RandomSerial_Next w) of Inl e \<Rightarrow> True | Inr n \<Rightarrow> 0 \<le> n \<and> length (int_octets n) \<le> 20"
  proof (cases "RandomSerial_Next w")
    case (Pair r w')
    then show ?thesis
      using random_serials.serial_range [of w _ w'] random_serials.serial_octets [of w _ w']
      by (cases r) auto
  qed
  ultimately show ?thesis by blast
qed

text \<open>
  C34: A client can renew what it was issued: a certificate of the local CA always matches, by the rule
  of \<open>/simplereenroll\<close>, the request it was issued for.
\<close>

theorem local_issue_matches:
  assumes "creates_faithfully X"
    and "LocalCA_IssueCertificate X (random_local_ca cert key validity) csr w = (Inr c, w')"
  shows "identitiesMatch c csr"
proof -
  have "san_items (DNSNames c) (IPAddresses c) (EmailAddresses c) (URIs c) =
      san_items (csr_DNSNames csr) (csr_IPAddresses csr) (csr_EmailAddresses csr) (csr_URIs csr)"
  proof -
    have i: "san_items d ips e u = map (\<lambda>x. ''dns:'' @ x) d @ map (\<lambda>x. ''ip:'' @ x) (map IP_String ips) @
        map (\<lambda>x. ''email:'' @ x) e @ map (\<lambda>x. ''uri:'' @ x) u" for d ips e u
      by (simp add: san_items_def comp_def)
    show ?thesis using random_local_profile [OF assms] by (auto simp only: i)
  qed
  moreover have "CommonName (Subject c) = CommonName (csr_Subject csr)"
    using random_local_profile [OF assms] by blast
  ultimately show ?thesis by (simp add: identitiesMatch_def sanSet_def)
qed

lemma local_issue_matches_witness:
  "\<exists>c w'. LocalCA_IssueCertificate (demo_lib demo_template) demo_ca (dns_csr [''a'']) empty_world = (Inr c, w') \<and>
     identitiesMatch c (dns_csr [''a''])"
proof -
  obtain c w' where r: "LocalCA_IssueCertificate (demo_lib demo_template) demo_ca (dns_csr [''a'']) empty_world
      = (Inr c, w')" using demo_issue by blast
  from local_issue_matches [OF demo_faithful r [unfolded demo_ca_def]] r show ?thesis by blast
qed

end
