(* ===== verification/Openssl.thy ===== *)
theory Openssl
  imports CA
begin

text \<open>
  \<open>internal/ca/openssl\<close>: the backend that runs \<open>openssl ca\<close>. The subprocess is an argument of the model:
  a function of its command line on the state of the system. The lemmas show that the backend keeps
  the contract of the interface and cleans up its temporary files.
\<close>

section \<open>The code\<close>

record openssl_ca =
  oc_opensslPath :: string
  oc_configFile :: string
  oc_caCert :: x509_cert
  oc_extensionsSection :: string

definition NewOpenSSLCA :: "string \<Rightarrow> string \<Rightarrow> x509_cert \<Rightarrow> string \<Rightarrow> openssl_ca" where
  "NewOpenSSLCA opensslPath configFile caCert extensionsSection =
     \<lparr> oc_opensslPath = opensslPath, oc_configFile = configFile, oc_caCert = caCert,
       oc_extensionsSection = extensionsSection \<rparr>"

definition LoadCACertificate ::
  "('k, 'm) x509_lib_scheme \<Rightarrow> string \<Rightarrow> (x509_cert result, 'z) os_call" where
  "LoadCACertificate X path w =
     (case os_ReadFile path w of
        (Inl e, w) \<Rightarrow> (Inl (ErrWrap ''openssl: read CA certificate: %w'' [] e), w)
      | (Inr certPEM, w) \<Rightarrow>
     (case pem_Decode certPEM of
        None \<Rightarrow> (Inl (ErrNew ''openssl: no PEM block found in %s'' [FStr path]), w)
      | Some (block, _) \<Rightarrow>
     (case x_ParseCertificate X (pb_Bytes block) of
        Inl e \<Rightarrow> (Inl (ErrWrap ''openssl: parse CA certificate: %w'' [] e), w)
      | Inr cert \<Rightarrow> (Inr cert, w))))"

definition OpenSSL_CACertificates :: "openssl_ca \<Rightarrow> 'w \<Rightarrow> x509_cert option list result \<times> 'w" where
  "OpenSSL_CACertificates c w = (Inr [Some (oc_caCert c)], w)"

text \<open>The command line; no shell is involved.\<close>

definition openssl_args :: "openssl_ca \<Rightarrow> string \<Rightarrow> string \<Rightarrow> string list" where
  "openssl_args c csrPath certPath =
     [oc_opensslPath c, ''ca'', ''-batch'', ''-config'', oc_configFile c, ''-in'', csrPath,
      ''-out'', certPath, ''-notext'', ''-extensions'', oc_extensionsSection c]"

type_synonym 'w subprocess = "string list \<Rightarrow> 'w \<Rightarrow> (go_error option \<times> string) \<times> 'w"

definition runOpenSSLCA ::
  "'w subprocess \<Rightarrow> openssl_ca \<Rightarrow> string \<Rightarrow> string \<Rightarrow> 'w \<Rightarrow> go_error option \<times> 'w" where
  "runOpenSSLCA exec c csrPath certPath w =
     (case exec (openssl_args c csrPath certPath) w of
        ((Some err, output), w) \<Rightarrow>
          (Some (ErrWrap ''openssl: openssl ca failed: %w: %s'' [FStr output] err), w)
      | ((None, output), w) \<Rightarrow> (None, w))"

definition issue_with_cert_file ::
  "('k, 'm) x509_lib_scheme \<Rightarrow> 'z os_world_scheme subprocess \<Rightarrow> openssl_ca \<Rightarrow> string \<Rightarrow> string
     \<Rightarrow> (x509_cert result, 'z) os_call" where
  "issue_with_cert_file X exec c csrPath certPath w =
     (case runOpenSSLCA exec c csrPath certPath w of
        (Some err, w) \<Rightarrow> (Inl err, w)
      | (None, w) \<Rightarrow>
     (case os_ReadFile certPath w of
        (Inl err, w) \<Rightarrow> (Inl (ErrWrap ''openssl: read issued certificate: %w'' [] err), w)
      | (Inr certPEM, w) \<Rightarrow>
     (case pem_Decode certPEM of
        None \<Rightarrow> (Inl (ErrNew ''openssl: no PEM block in openssl ca output'' []), w)
      | Some (block, _) \<Rightarrow>
     (case x_ParseCertificate X (pb_Bytes block) of
        Inl err \<Rightarrow> (Inl (ErrWrap ''openssl: parse issued certificate: %w'' [] err), w)
      | Inr cert \<Rightarrow>
          if IsCA cert
          then (Inl (ErrNew ''openssl: issued certificate has CA:TRUE; check the %q extensions section in %s''
                       [FStr (oc_extensionsSection c), FStr (oc_configFile c)]), w)
          else (Inr cert, w)))))"

text \<open>The deferred removals run in the reverse order of their declaration.\<close>

definition issue_with_csr_file ::
  "('k, 'm) x509_lib_scheme \<Rightarrow> 'z os_world_scheme subprocess \<Rightarrow> string \<Rightarrow> openssl_ca \<Rightarrow> x509_csr \<Rightarrow> string
     \<Rightarrow> (x509_cert result, 'z) os_call" where
  "issue_with_csr_file X exec tmpdir c csr csrPath w =
     (let (writeErr, w) = os_Write csrPath (pem_EncodeToMemory ''CERTIFICATE REQUEST'' (csr_Raw csr)) w;
          (closeErr, w) = os_Close csrPath w
      in case writeErr of
        Some e \<Rightarrow> (Inl (ErrWrap ''openssl: write temp CSR file: %w'' [] e), w)
      | None \<Rightarrow>
     (case closeErr of
        Some e \<Rightarrow> (Inl (ErrWrap ''openssl: close temp CSR file: %w'' [] e), w)
      | None \<Rightarrow>
     (case os_CreateTemp tmpdir ''estd-cert-*.pem'' w of
        (Inl e, w) \<Rightarrow> (Inl (ErrWrap ''openssl: create temp cert file: %w'' [] e), w)
      | (Inr certPath, w) \<Rightarrow>
          (let (_, w) = os_Close certPath w;
               (r, w) = issue_with_cert_file X exec c csrPath certPath w;
               (_, w) = os_Remove certPath w
           in (r, w)))))"

definition OpenSSL_IssueCertificate ::
  "('k, 'm) x509_lib_scheme \<Rightarrow> 'z os_world_scheme subprocess \<Rightarrow> string \<Rightarrow> openssl_ca \<Rightarrow> x509_csr
     \<Rightarrow> (x509_cert result, 'z) os_call" where
  "OpenSSL_IssueCertificate X exec tmpdir c csr w =
     (case x_CheckSignature X csr of
        Some _ \<Rightarrow> (Inl ErrInvalidCSRSignature, w)
      | None \<Rightarrow>
     (case os_CreateTemp tmpdir ''estd-csr-*.pem'' w of
        (Inl e, w) \<Rightarrow> (Inl (ErrWrap ''openssl: create temp CSR file: %w'' [] e), w)
      | (Inr csrPath, w) \<Rightarrow>
          (let (r, w) = issue_with_csr_file X exec tmpdir c csr csrPath w;
               (_, w) = os_Remove csrPath w
           in (r, w))))"

definition openssl_backend ::
  "('k, 'm) x509_lib_scheme \<Rightarrow> 'z os_world_scheme subprocess \<Rightarrow> string \<Rightarrow> openssl_ca
     \<Rightarrow> 'z os_world_scheme cabackend" where
  "openssl_backend X exec tmpdir c = \<lparr>
     be_CACertificates = OpenSSL_CACertificates c,
     be_IssueCertificate = OpenSSL_IssueCertificate X exec tmpdir c \<rparr>"

section \<open>The contract\<close>

text \<open>
  The files other than temporary ones: what the backend itself must not touch. The subprocess is relied
  on to leave them alone as well.
\<close>

definition is_pem :: "string \<Rightarrow> bool" where
  "is_pem p = (take 4 (rev p) = ''mep.'')"

definition lasting_files :: "'z os_world_scheme \<Rightarrow> string \<Rightarrow> os_file option" where
  "lasting_files w p = (if is_pem p then None else w_files w p)"

definition keeps_lasting :: "'z os_world_scheme subprocess \<Rightarrow> bool" where
  "keeps_lasting exec \<longleftrightarrow> (\<forall>args w q w'. exec args w = (q, w') \<longrightarrow> lasting_files w' = lasting_files w)"

lemma lasting_update: "w_files w' = (w_files w)(p := x) \<Longrightarrow> is_pem p \<Longrightarrow> lasting_files w' = lasting_files w"
  by (auto simp: lasting_files_def fun_eq_iff)

lemma lasting_same: "w_files w' = w_files w \<Longrightarrow> lasting_files w' = lasting_files w"
  by (auto simp: lasting_files_def fun_eq_iff)

lemma lasting_CreateTemp:
  assumes "os_CreateTemp dir pat w = (r, w')" "pat = a @ CHR ''*'' # ''.pem''" "CHR ''*'' \<notin> set a"
  shows "lasting_files w' = lasting_files w \<and> (\<forall>p. r = Inr p \<longrightarrow> is_pem p \<and> w_files w p = None)"
proof -
  have parts: "temp_parts pat = (a, ''.pem'')" using assms(2,3) by (simp add: temp_parts_def)
  have pem: "is_pem (temp_join d (a @ dec_nat k @ ''.pem''))" for d k
    by (simp add: is_pem_def temp_join_def)
  have "create_temp 10000 dir a ''.pem'' w = (r, w') \<or> (\<exists>e. r = Inl e) \<and> w' = w"
    using assms(1) parts by (simp add: os_CreateTemp_def split: if_splits) blast
  then have "w_files w' = w_files w \<and> (\<exists>e. r = Inl e) \<or>
      (\<exists>p x. r = Inr p \<and> is_pem p \<and> w_files w p = None \<and> w_files w' = (w_files w)(p := x))"
  proof
    assume "create_temp 10000 dir a ''.pem'' w = (r, w')"
    note res = create_temp_result [OF this]
    show ?thesis
    proof (cases r)
      case (Inl e)
      then show ?thesis using res by simp
    next
      case (Inr p)
      from res Inr have f: "w_files w p = None" "w_files w' = (w_files w)(p \<mapsto> \<lparr> f_data = [], f_perm = perm_600 \<rparr>)"
        by simp_all
      from res Inr obtain k where "p = temp_join dir (a @ dec_nat k @ ''.pem'')" by auto
      then have "is_pem p" using pem by (simp only:)
      with f Inr show ?thesis by (intro disjI2 exI [of _ p] exI conjI)
    qed
  qed simp
  then show ?thesis
  proof (elim disjE exE conjE)
    fix e assume "w_files w' = w_files w" "r = Inl e"
    then show ?thesis using lasting_same [of w' w] by simp
  next
    fix p x assume "r = Inr p" "is_pem p" "w_files w p = None" "w_files w' = (w_files w)(p := x)"
    then show ?thesis using lasting_update [of w' w p x] by simp
  qed
qed

lemma lasting_Write: "os_Write p d w = (r, w') \<Longrightarrow> is_pem p \<Longrightarrow> lasting_files w' = lasting_files w"
  by (auto simp: os_Write_def Let_def lasting_files_def fun_eq_iff split: option.splits)

lemma lasting_Close: "os_Close p w = (r, w') \<Longrightarrow> lasting_files w' = lasting_files w"
  by (auto dest: os_Close_frame intro: lasting_same)

lemma lasting_Remove: "os_Remove p w = (r, w') \<Longrightarrow> is_pem p \<Longrightarrow> lasting_files w' = lasting_files w"
  by (auto dest!: os_Remove_file intro: lasting_same lasting_update)

lemma lasting_ReadFile: "os_ReadFile p w = (r, w') \<Longrightarrow> lasting_files w' = lasting_files w"
  by (auto dest: os_ReadFile_frame intro: lasting_same)

lemmas lasting_rules = lasting_Write lasting_Close lasting_Remove lasting_ReadFile

lemma cert_file_lasting:
  assumes "keeps_lasting exec" "issue_with_cert_file X exec c p q w = (r, w')"
  shows "lasting_files w' = lasting_files w"
proof -
  obtain o1 w1 where 1: "exec (openssl_args c p q) w = (o1, w1)" by (cases "exec (openssl_args c p q) w")
  obtain o2 w2 where 2: "os_ReadFile q w1 = (o2, w2)" by (cases "os_ReadFile q w1")
  have "lasting_files w1 = lasting_files w" using assms(1) 1 by (metis keeps_lasting_def)
  moreover have "lasting_files w2 = lasting_files w1" using lasting_ReadFile [OF 2] .
  moreover have "w' = w1 \<or> w' = w2"
    using assms(2) 1 2
    by (auto simp: issue_with_cert_file_def runOpenSSLCA_def split: prod.splits option.splits sum.splits if_splits)
  ultimately show ?thesis by auto
qed

lemma cert_file_not_CA:
  "issue_with_cert_file X exec c p q w = (Inr cert, w') \<Longrightarrow> \<not> IsCA cert"
  by (auto simp: issue_with_cert_file_def split: prod.splits option.splits sum.splits if_splits)

lemma csr_file_trace:
  assumes "issue_with_csr_file X exec tmpdir c csr p w = (r, w')" "is_pem p"
  shows "lasting_files w' = lasting_files w \<and> (\<exists>e. r = Inl e) \<or>
    (\<exists>q w4 w5. is_pem q \<and> lasting_files w4 = lasting_files w \<and>
       issue_with_cert_file X exec c p q w4 = (r, w5) \<and> lasting_files w' = lasting_files w5)"
proof -
  let ?pem = "pem_EncodeToMemory ''CERTIFICATE REQUEST'' (csr_Raw csr)"
  obtain r1 w1 where 1: "os_Write p ?pem w = (r1, w1)" by (cases "os_Write p ?pem w")
  obtain r2 w2 where 2: "os_Close p w1 = (r2, w2)" by (cases "os_Close p w1")
  obtain r3 w3 where 3: "os_CreateTemp tmpdir ''estd-cert-*.pem'' w2 = (r3, w3)"
    by (cases "os_CreateTemp tmpdir ''estd-cert-*.pem'' w2")
  have l2: "lasting_files w2 = lasting_files w"
    using lasting_Write [OF 1 assms(2)] lasting_Close [OF 2] by simp
  have l3: "lasting_files w3 = lasting_files w \<and> (\<forall>q. r3 = Inr q \<longrightarrow> is_pem q)"
    using lasting_CreateTemp [OF 3, of "''estd-cert-''"] l2 by simp
  show ?thesis
  proof (cases "r1 = None \<and> r2 = None \<and> (\<exists>q. r3 = Inr q)")
    case False
    then have "(w' = w2 \<or> w' = w3) \<and> (\<exists>e. r = Inl e)"
      using assms(1) 1 2 3
      by (auto simp: issue_with_csr_file_def Let_def split: option.splits sum.splits prod.splits)
    then show ?thesis using l2 l3 by auto
  next
    case True
    then obtain q where q: "r3 = Inr q" by blast
    obtain r4 w4 where 4: "os_Close q w3 = (r4, w4)" by (cases "os_Close q w3")
    obtain r5 w5 where 5: "issue_with_cert_file X exec c p q w4 = (r5, w5)"
      by (cases "issue_with_cert_file X exec c p q w4")
    obtain r6 w6 where 6: "os_Remove q w5 = (r6, w6)" by (cases "os_Remove q w5")
    have "r = r5" "w' = w6"
      using assms(1) 1 2 3 4 5 6 True q by (auto simp: issue_with_csr_file_def Let_def)
    moreover have "lasting_files w4 = lasting_files w" using lasting_Close [OF 4] l3 by simp
    moreover have "is_pem q" using l3 q by simp
    moreover from this have "lasting_files w6 = lasting_files w5" by (rule lasting_Remove [OF 6])
    ultimately show ?thesis using 5 by blast
  qed
qed

lemma openssl_issue_trace:
  assumes run: "OpenSSL_IssueCertificate X exec tmpdir c csr w = (r, w')"
  shows "(keeps_lasting exec \<longrightarrow> lasting_files w' = lasting_files w) \<and>
    (\<forall>cert. r = Inr cert \<longrightarrow> x_CheckSignature X csr = None \<and> \<not> IsCA cert)"
proof (cases "x_CheckSignature X csr")
  case (Some e)
  then show ?thesis using run by (auto simp: OpenSSL_IssueCertificate_def)
next
  case None
  obtain r1 w1 where 1: "os_CreateTemp tmpdir ''estd-csr-*.pem'' w = (r1, w1)"
    by (cases "os_CreateTemp tmpdir ''estd-csr-*.pem'' w")
  have l1: "lasting_files w1 = lasting_files w \<and> (\<forall>p. r1 = Inr p \<longrightarrow> is_pem p)"
    using lasting_CreateTemp [OF 1, of "''estd-csr-''"] by simp
  show ?thesis
  proof (cases r1)
    case (Inl e)
    then show ?thesis using run 1 None l1 by (auto simp: OpenSSL_IssueCertificate_def)
  next
    case (Inr p)
    obtain r2 w2 where 2: "issue_with_csr_file X exec tmpdir c csr p w1 = (r2, w2)"
      by (cases "issue_with_csr_file X exec tmpdir c csr p w1")
    obtain r3 w3 where 3: "os_Remove p w2 = (r3, w3)" by (cases "os_Remove p w2")
    have res: "r = r2" "w' = w3" using run 1 2 3 None Inr by (auto simp: OpenSSL_IssueCertificate_def)
    have p: "is_pem p" using l1 Inr by simp
    from csr_file_trace [OF 2 p]
    have "(keeps_lasting exec \<longrightarrow> lasting_files w2 = lasting_files w1) \<and> (\<forall>cert. r2 = Inr cert \<longrightarrow> \<not> IsCA cert)"
      by (elim disjE exE conjE) (auto dest: cert_file_lasting cert_file_not_CA)
    with lasting_Remove [OF 3 p] res l1 None show ?thesis by simp
  qed
qed

interpretation openssl: ca_backend "openssl_backend X exec tmpdir c" "sig_verifies X" lasting_files
  "keeps_lasting exec"
proof
  fix csr w w' cert r r'
  show "\<not> sig_verifies X csr \<Longrightarrow>
      be_IssueCertificate (openssl_backend X exec tmpdir c) csr w = (Inl ErrInvalidCSRSignature, w)"
    by (auto simp: openssl_backend_def OpenSSL_IssueCertificate_def sig_verifies_def)
  show "be_IssueCertificate (openssl_backend X exec tmpdir c) csr w = (Inr cert, w') \<Longrightarrow> \<not> IsCA cert"
    using openssl_issue_trace [of X exec tmpdir c csr w "Inr cert" w'] by (simp add: openssl_backend_def)
  show "keeps_lasting exec \<Longrightarrow>
      be_IssueCertificate (openssl_backend X exec tmpdir c) csr w = (r, w') \<Longrightarrow> lasting_files w' = lasting_files w"
    using openssl_issue_trace [of X exec tmpdir c csr w r w'] by (simp add: openssl_backend_def)
  show "be_CACertificates (openssl_backend X exec tmpdir c) w = (r', w') \<Longrightarrow> lasting_files w' = lasting_files w"
    by (simp add: openssl_backend_def OpenSSL_CACertificates_def)
qed

section \<open>Temporary files\<close>

text \<open>
  What \<open>openssl ca\<close> writes: its output file and the files of its own CA directory; the ninth word of the command line
  is the argument of \<open>-out\<close>.
\<close>

definition confined :: "string set \<Rightarrow> 'z os_world_scheme subprocess \<Rightarrow> bool" where
  "confined D exec \<longleftrightarrow> (\<forall>args w q w'. exec args w = (q, w') \<longrightarrow>
     w_env w' = w_env w \<and> (\<forall>p. p \<notin> D \<and> p \<noteq> args ! 8 \<longrightarrow> w_files w' p = w_files w p))"

lemma cert_file_confined:
  assumes "confined D exec" "issue_with_cert_file X exec c p q w = (r, w')"
  shows "w_env w' = w_env w \<and> (\<forall>x. x \<notin> D \<and> x \<noteq> q \<longrightarrow> w_files w' x = w_files w x)"
proof -
  obtain o1 w1 where 1: "exec (openssl_args c p q) w = (o1, w1)" by (cases "exec (openssl_args c p q) w")
  obtain o2 w2 where 2: "os_ReadFile q w1 = (o2, w2)" by (cases "os_ReadFile q w1")
  have "openssl_args c p q ! 8 = q" by (simp add: openssl_args_def)
  then have "w_env w1 = w_env w \<and> (\<forall>x. x \<notin> D \<and> x \<noteq> q \<longrightarrow> w_files w1 x = w_files w x)"
    using assms(1) 1 unfolding confined_def by metis
  moreover have "w' = w1 \<or> w' = w2"
    using assms(2) 1 2
    by (auto simp: issue_with_cert_file_def runOpenSSLCA_def split: prod.splits option.splits sum.splits if_splits)
  ultimately show ?thesis using os_ReadFile_frame [OF 2] by auto
qed

lemma csr_file_confined:
  assumes "confined D exec" "no_faults w" "issue_with_csr_file X exec tmpdir c csr p w = (r, w')"
  shows "w_env w' = w_env w \<and> (\<forall>x. x \<notin> D \<and> x \<noteq> p \<longrightarrow> w_files w' x = w_files w x)"
proof -
  let ?pem = "pem_EncodeToMemory ''CERTIFICATE REQUEST'' (csr_Raw csr)"
  obtain r1 w1 where 1: "os_Write p ?pem w = (r1, w1)" by (cases "os_Write p ?pem w")
  obtain r2 w2 where 2: "os_Close p w1 = (r2, w2)" by (cases "os_Close p w1")
  obtain r3 w3 where 3: "os_CreateTemp tmpdir ''estd-cert-*.pem'' w2 = (r3, w3)"
    by (cases "os_CreateTemp tmpdir ''estd-cert-*.pem'' w2")
  have f2: "w_env w2 = w_env w" "x \<noteq> p \<Longrightarrow> w_files w2 x = w_files w x" for x
    using os_Write_frame [OF 1] os_Close_frame [OF 2] by simp_all
  show ?thesis
  proof (cases "r1 = None \<and> r2 = None \<and> (\<exists>q. r3 = Inr q)")
    case False
    then have "w' = w2 \<or> w' = w3 \<and> (\<exists>e. r3 = Inl e)"
      using assms(3) 1 2 3
      by (auto simp: issue_with_csr_file_def Let_def split: option.splits sum.splits prod.splits)
    then show ?thesis using f2 os_CreateTemp_frame [OF 3] by auto
  next
    case True
    then obtain q where q: "r3 = Inr q" by blast
    obtain r4 w4 where 4: "os_Close q w3 = (r4, w4)" by (cases "os_Close q w3")
    obtain r5 w5 where 5: "issue_with_cert_file X exec c p q w4 = (r5, w5)"
      by (cases "issue_with_cert_file X exec c p q w4")
    obtain r6 w6 where 6: "os_Remove q w5 = (r6, w6)" by (cases "os_Remove q w5")
    have w': "w' = w6" using assms(3) 1 2 3 4 5 6 True q by (auto simp: issue_with_csr_file_def Let_def)
    have f4: "w_env w4 = w_env w" "w_files w2 q = None" "x \<noteq> q \<Longrightarrow> w_files w4 x = w_files w2 x" for x
      using os_CreateTemp_frame [OF 3] os_Close_frame [OF 4] f2(1) q by simp_all
    note f5 = cert_file_confined [OF assms(1) 5]
    have "no_faults w5" using assms(2) f4(1) f5 no_faults_env [of w5 w] by simp
    from os_Remove_quiet [OF 6 this] f5 f4 f2 show ?thesis unfolding w' by (auto split: if_splits)
  qed
qed

lemma openssl_issue_confined:
  assumes "confined D exec" "no_faults w" "OpenSSL_IssueCertificate X exec tmpdir c csr w = (r, w')" "x \<notin> D"
  shows "w_files w' x = w_files w x"
proof (cases "x_CheckSignature X csr")
  case (Some e)
  then show ?thesis using assms(3) by (auto simp: OpenSSL_IssueCertificate_def)
next
  case None
  obtain r1 w1 where 1: "os_CreateTemp tmpdir ''estd-csr-*.pem'' w = (r1, w1)"
    by (cases "os_CreateTemp tmpdir ''estd-csr-*.pem'' w")
  note f1 = os_CreateTemp_frame [OF 1]
  show ?thesis
  proof (cases r1)
    case (Inl e)
    then show ?thesis using assms(3) 1 None f1 by (auto simp: OpenSSL_IssueCertificate_def)
  next
    case (Inr p)
    obtain r2 w2 where 2: "issue_with_csr_file X exec tmpdir c csr p w1 = (r2, w2)"
      by (cases "issue_with_csr_file X exec tmpdir c csr p w1")
    obtain r3 w3 where 3: "os_Remove p w2 = (r3, w3)" by (cases "os_Remove p w2")
    have w': "w' = w3" using assms(3) 1 2 3 None Inr by (auto simp: OpenSSL_IssueCertificate_def)
    have q: "no_faults w1" using f1 assms(2) no_faults_env by metis
    note f2 = csr_file_confined [OF assms(1) q 2]
    have "no_faults w2" using f2 q no_faults_env by metis
    from os_Remove_quiet [OF 3 this] f2 f1 Inr assms(4) show ?thesis unfolding w' by auto
  qed
qed

section \<open>A certificate comes back\<close>

text \<open>
  What \<open>openssl ca -batch\<close> is documented to do with a request it accepts: it reads the PEM request from the file after
  \<open>-in\<close> and writes the certificate to the file after \<open>-out\<close>.
\<close>

definition signs :: "'z os_world_scheme subprocess \<Rightarrow> openssl_ca \<Rightarrow> bytes \<Rightarrow> bytes \<Rightarrow> bool" where
  "signs exec c req pem \<longleftrightarrow> (\<forall>p q w f. w_files w p = Some f \<longrightarrow> f_data f = pem_EncodeToMemory ''CERTIFICATE REQUEST'' req \<longrightarrow>
     (\<exists>out w' g. exec (openssl_args c p q) w = ((None, out), w') \<and> w_env w' = w_env w \<and>
        w_files w' q = Some g \<and> f_data g = pem))"

definition ca_true_error :: "openssl_ca \<Rightarrow> go_error" where
  "ca_true_error c = ErrNew ''openssl: issued certificate has CA:TRUE; check the %q extensions section in %s''
     [FStr (oc_extensionsSection c), FStr (oc_configFile c)]"

lemma cert_file_delivers:
  assumes "signs exec c req pem" "no_faults w" "w_files w p = Some f" "f_data f = pem_EncodeToMemory ''CERTIFICATE REQUEST'' req"
    and "pem_Decode pem = Some (block, rest)" "x_ParseCertificate X (pb_Bytes block) = Inr cert"
  shows "fst (issue_with_cert_file X exec c p q w) = (if IsCA cert then Inl (ca_true_error c) else Inr cert)"
proof -
  obtain out w1 g where e: "exec (openssl_args c p q) w = ((None, out), w1)" "w_env w1 = w_env w"
    "w_files w1 q = Some g" "f_data g = pem" using assms(1,3,4) unfolding signs_def by blast
  have "os_ReadFile q w1 = (Inr pem, os_tick w1)"
    using e no_faults_env [OF e(2)] assms(2) by (simp add: os_ReadFile_def no_faults_os)
  then show ?thesis using e assms(5,6) by (simp add: issue_with_cert_file_def runOpenSSLCA_def ca_true_error_def)
qed

lemma csr_file_delivers:
  assumes "signs exec c (csr_Raw csr) pem" "no_faults w" "w_files w p = Some \<lparr> f_data = [], f_perm = perm_600 \<rparr>"
    and "pem_Decode pem = Some (block, rest)" "x_ParseCertificate X (pb_Bytes block) = Inr cert"
  shows "fst (issue_with_csr_file X exec tmpdir c csr p w) = (if IsCA cert then Inl (ca_true_error c) else Inr cert) \<or>
    (\<exists>e. fst (issue_with_csr_file X exec tmpdir c csr p w) = Inl (ErrWrap ''openssl: create temp cert file: %w'' [] e))"
proof -
  let ?pem = "pem_EncodeToMemory ''CERTIFICATE REQUEST'' (csr_Raw csr)"
  obtain r1 w1 where 1: "os_Write p ?pem w = (r1, w1)" by (cases "os_Write p ?pem w")
  obtain r2 w2 where 2: "os_Close p w1 = (r2, w2)" by (cases "os_Close p w1")
  obtain r3 w3 where 3: "os_CreateTemp tmpdir ''estd-cert-*.pem'' w2 = (r3, w3)"
    by (cases "os_CreateTemp tmpdir ''estd-cert-*.pem'' w2")
  have f1: "r1 = None" "w_files w1 p = Some \<lparr> f_data = ?pem, f_perm = perm_600 \<rparr>" "w_env w1 = w_env w"
    using 1 assms(2,3) by (auto simp: os_Write_def no_faults_os)
  have f2: "r2 = None" "w_files w2 = w_files w1" "w_env w2 = w_env w"
    using 2 f1(3) assms(2) no_faults_env [of w1 w] by (auto simp: os_Close_def no_faults_os)
  show ?thesis
  proof (cases r3)
    case (Inl e)
    then show ?thesis using 1 2 3 f1(1) f2(1) by (simp add: issue_with_csr_file_def)
  next
    case (Inr q)
    obtain r4 w4 where 4: "os_Close q w3 = (r4, w4)" by (cases "os_Close q w3")
    have f4: "w_files w4 p = Some \<lparr> f_data = ?pem, f_perm = perm_600 \<rparr>" "w_env w4 = w_env w"
      using os_CreateTemp_frame [OF 3] os_Close_frame [OF 4] Inr f1(2) f2 by auto
    have "no_faults w4" using assms(2) no_faults_env [OF f4(2)] by simp
    from cert_file_delivers [OF assms(1) this f4(1) _ assms(4,5), of q]
    have "fst (issue_with_cert_file X exec c p q w4) = (if IsCA cert then Inl (ca_true_error c) else Inr cert)" by simp
    then show ?thesis using 1 2 3 4 f1(1) f2(1) Inr by (auto simp: issue_with_csr_file_def Let_def split: prod.splits)
  qed
qed

section \<open>Properties\<close>



text \<open>A subprocess that writes a certificate to its output file, for the concrete instance.\<close>

definition demo_exec :: "os_world subprocess" where
  "demo_exec args w = ((None, []), set_file (args ! 8) (Some \<lparr> f_data = pem_EncodeToMemory ''CERTIFICATE'' [0x30, 0], f_perm = perm_600 \<rparr>) w)"

definition demo_openssl :: openssl_ca where
  "demo_openssl = NewOpenSSLCA ''openssl'' ''ca.cnf'' (dns_cert []) ''v3''"



end
