(* ===== verification/Openssl_Mutex.thy ===== *)
theory Openssl_Mutex
  imports Openssl
begin

text \<open>
  Concurrent calls of the openssl backend: a transition system over \<open>c.mu\<close> of \<open>internal/ca/openssl\<close>. The lemmas show
  that the mutex makes the runs of the subprocess one after the other and that no caller waits for ever.
\<close>

section \<open>The mutex\<close>

text \<open>
  Concurrent calls of \<open>runOpenSSLCA\<close> on one CA directory. A subprocess reads the CA's database when it
  starts and writes the database with its own entry when it ends; \<open>effect i\<close> is what the subprocess of
  caller \<open>i\<close> makes of the database it read. A caller waits at \<open>c.mu.Lock()\<close> while another one holds the
  mutex, and the deferred \<open>Unlock\<close> follows the subprocess. \<open>mx_log\<close> records the order of the writes.
\<close>

datatype 'db caller = Outside | AtLock | Entered | Subprocess 'db | Exited | Left

record 'db mutex_state =
  mx_holder :: "nat option"
  mx_caller :: "nat \<Rightarrow> 'db caller"
  mx_db :: 'db
  mx_log :: "nat list"

inductive mx_step :: "(nat \<Rightarrow> 'db \<Rightarrow> 'db) \<Rightarrow> 'db mutex_state \<Rightarrow> 'db mutex_state \<Rightarrow> bool"
  for effect :: "nat \<Rightarrow> 'db \<Rightarrow> 'db" where
  call: "mx_caller s i = Outside \<Longrightarrow>
    mx_step effect s (s \<lparr> mx_caller := (mx_caller s)(i := AtLock) \<rparr>)"
| lock: "mx_caller s i = AtLock \<Longrightarrow> mx_holder s = None \<Longrightarrow>
    mx_step effect s (s \<lparr> mx_holder := Some i, mx_caller := (mx_caller s)(i := Entered) \<rparr>)"
| start: "mx_caller s i = Entered \<Longrightarrow>
    mx_step effect s (s \<lparr> mx_caller := (mx_caller s)(i := Subprocess (mx_db s)) \<rparr>)"
| finish: "mx_caller s i = Subprocess d \<Longrightarrow>
    mx_step effect s (s \<lparr> mx_db := effect i d, mx_log := mx_log s @ [i],
                          mx_caller := (mx_caller s)(i := Exited) \<rparr>)"
| fail: "mx_caller s i = Subprocess d \<Longrightarrow>
    mx_step effect s (s \<lparr> mx_caller := (mx_caller s)(i := Exited) \<rparr>)"
| unlock: "mx_caller s i = Exited \<Longrightarrow>
    mx_step effect s (s \<lparr> mx_holder := None, mx_caller := (mx_caller s)(i := Left) \<rparr>)"

inductive mx_reach :: "(nat \<Rightarrow> 'db \<Rightarrow> 'db) \<Rightarrow> 'db \<Rightarrow> 'db mutex_state \<Rightarrow> bool"
  for effect :: "nat \<Rightarrow> 'db \<Rightarrow> 'db" and db :: 'db where
  mx_start: "mx_reach effect db \<lparr> mx_holder = None, mx_caller = (\<lambda>_. Outside), mx_db = db, mx_log = [] \<rparr>"
| mx_next: "mx_reach effect db s \<Longrightarrow> mx_step effect s s' \<Longrightarrow> mx_reach effect db s'"

fun inside :: "'db caller \<Rightarrow> bool" where
  "inside Entered = True"
| "inside (Subprocess d) = True"
| "inside Exited = True"
| "inside _ = False"

fun logged :: "'db caller \<Rightarrow> bool" where
  "logged Exited = True"
| "logged Left = True"
| "logged _ = False"

text \<open>
  The holder is the one caller inside; a running subprocess has read the current database; the database
  is the effect of the logged callers in order, each of which is logged once.
\<close>

definition mx_inv :: "(nat \<Rightarrow> 'db \<Rightarrow> 'db) \<Rightarrow> 'db \<Rightarrow> 'db mutex_state \<Rightarrow> bool" where
  "mx_inv effect db s \<longleftrightarrow>
     (\<forall>i. inside (mx_caller s i) \<longleftrightarrow> mx_holder s = Some i) \<and>
     (\<forall>i d. mx_caller s i = Subprocess d \<longrightarrow> d = mx_db s) \<and>
     mx_db s = fold effect (mx_log s) db \<and> distinct (mx_log s) \<and>
     (\<forall>i\<in>set (mx_log s). logged (mx_caller s i))"

lemma mx_inv_step:
  assumes "mx_step effect s s'" "mx_inv effect db s"
  shows "mx_inv effect db s'"
  using assms(1)
proof (cases rule: mx_step.cases)
  case (finish i d)
  have "i \<notin> set (mx_log s)" using finish assms(2) by (auto simp: mx_inv_def)
  moreover have "mx_caller s j \<noteq> Subprocess d'" if "j \<noteq> i" for j d'
    using that finish assms(2) unfolding mx_inv_def by (metis inside.simps(2) option.inject)
  ultimately show ?thesis using finish assms(2) by (auto simp: mx_inv_def split: if_splits)
next
  case (lock i)
  then show ?thesis using assms(2) by (auto simp: mx_inv_def split: if_splits)
next
  case (unlock i)
  then have "mx_holder s = Some i" using assms(2) by (auto simp: mx_inv_def)
  then show ?thesis using unlock assms(2) by (auto simp: mx_inv_def split: if_splits)
next
  case (call i)
  then have "mx_holder s \<noteq> Some i" using assms(2) unfolding mx_inv_def by (metis inside.simps(4))
  then show ?thesis using call assms(2) by (auto simp: mx_inv_def split: if_splits)
next
  case (start i)
  then show ?thesis using assms(2) by (auto simp: mx_inv_def split: if_splits)
next
  case (fail i d)
  then show ?thesis using assms(2) by (auto simp: mx_inv_def split: if_splits)
qed

lemma mx_inv_reach: "mx_reach effect db s \<Longrightarrow> mx_inv effect db s"
  by (induction rule: mx_reach.induct) (simp add: mx_inv_def, rule mx_inv_step)

section \<open>Progress\<close>

text \<open>How many steps a caller has before it.\<close>

fun stage :: "'db caller \<Rightarrow> nat" where
  "stage Outside = 5"
| "stage AtLock = 4"
| "stage Entered = 3"
| "stage (Subprocess d) = 2"
| "stage Exited = 1"
| "stage Left = 0"

lemma mx_step_stage:
  "mx_step effect s s' \<Longrightarrow> \<exists>i c. mx_caller s' = (mx_caller s)(i := c) \<and> stage (mx_caller s i) = Suc (stage c)"
  by (cases rule: mx_step.cases, assumption) (auto intro!: exI)

lemma stage_Outside: "stage c \<le> 5"
  by (cases c) simp_all

lemma mx_run_reach: "(mx_step effect ^^ n) s s' \<Longrightarrow> mx_reach effect db s \<Longrightarrow> mx_reach effect db s'"
  by (induction n arbitrary: s') (auto intro: mx_next)

text \<open>Every step takes one caller one stage further.\<close>

lemma mx_run_work:
  assumes "finite I"
  shows "(mx_step effect ^^ n) s0 s \<Longrightarrow> \<forall>i. mx_caller s0 i = Outside \<Longrightarrow> \<forall>i. i \<notin> I \<longrightarrow> mx_caller s i = Outside \<Longrightarrow>
    n + (\<Sum>i\<in>I. stage (mx_caller s i)) = 5 * card I"
proof (induction n arbitrary: s)
  case 0
  then show ?case by simp
next
  case (Suc n)
  then obtain t where t: "(mx_step effect ^^ n) s0 t" "mx_step effect t s" by auto
  from mx_step_stage [OF t(2)] obtain i c where c: "mx_caller s = (mx_caller t)(i := c)"
    "stage (mx_caller t i) = Suc (stage c)" by blast
  have "c \<noteq> Outside" using c(2) stage_Outside [of "mx_caller t i"] by auto
  then have i: "i \<in> I" using c(1) Suc.prems(3) by auto
  then have "\<forall>j. j \<notin> I \<longrightarrow> mx_caller t j = Outside" using c(1) Suc.prems(3) by (auto split: if_splits)
  with Suc.IH [OF t(1) Suc.prems(2)] have n: "n + (\<Sum>j\<in>I. stage (mx_caller t j)) = 5 * card I" by blast
  have "(\<Sum>j\<in>I. stage (mx_caller s j)) = stage c + (\<Sum>j\<in>I - {i}. stage (mx_caller t j))"
  proof -
    have "(\<Sum>j\<in>I - {i}. stage (mx_caller s j)) = (\<Sum>j\<in>I - {i}. stage (mx_caller t j))"
      by (rule sum.cong) (simp_all add: c(1))
    then show ?thesis using sum.remove [OF assms i, of "\<lambda>j. stage (mx_caller s j)"] c(1) by simp
  qed
  moreover have "(\<Sum>j\<in>I. stage (mx_caller t j)) = Suc (stage c) + (\<Sum>j\<in>I - {i}. stage (mx_caller t j))"
    using sum.remove [OF assms i, of "\<lambda>j. stage (mx_caller t j)"] c(2) by simp
  ultimately show ?case using n by simp
qed

text \<open>The caller inside can go on, and if there is none the others can.\<close>

lemma mx_enabled:
  assumes "mx_inv effect db s" "mx_caller s i \<noteq> Left"
  shows "\<exists>j s'. mx_caller s j \<noteq> Left \<and> (mx_caller s j = Outside \<longrightarrow> j = i) \<and> mx_step effect s s' \<and> mx_caller s' j \<noteq> mx_caller s j"
proof -
  obtain j where j: "mx_caller s j \<noteq> Left" "mx_caller s j = Outside \<longrightarrow> j = i" "mx_caller s j = AtLock \<longrightarrow> mx_holder s = None"
  proof (cases "mx_holder s")
    case None
    then show ?thesis using that [of i] assms(2) by simp
  next
    case (Some j)
    then have "inside (mx_caller s j)" using assms(1) by (auto simp: mx_inv_def)
    then show ?thesis using that [of j] by (cases "mx_caller s j") simp_all
  qed
  show ?thesis
  proof (cases "mx_caller s j")
    case Outside
    show ?thesis using mx_step.call [OF Outside, of effect] j Outside by fastforce
  next
    case AtLock
    show ?thesis using mx_step.lock [OF AtLock, of effect] j AtLock by fastforce
  next
    case Entered
    show ?thesis using mx_step.start [OF Entered, of effect] j Entered by fastforce
  next
    case (Subprocess d)
    show ?thesis using mx_step.fail [OF Subprocess, of effect] j Subprocess by fastforce
  next
    case Exited
    show ?thesis using mx_step.unlock [OF Exited, of effect] j Exited by fastforce
  next
    case Left
    then show ?thesis using j by simp
  qed
qed

section \<open>Properties\<close>

text \<open>
  C23: The mutex makes concurrent \<open>openssl ca\<close> runs serial: at any moment at most one caller is between
  lock and unlock, and the CA database is the result of running the subprocesses of the callers that
  have finished one after the other, each exactly once, so that no issued entry is lost.
\<close>

theorem openssl_runs_serialized:
  assumes "mx_reach effect db s"
  shows "(\<forall>i j. inside (mx_caller s i) \<longrightarrow> inside (mx_caller s j) \<longrightarrow> i = j) \<and>
     distinct (mx_log s) \<and> mx_db s = fold effect (mx_log s) db"
  using mx_inv_reach [OF assms] unfolding mx_inv_def by (metis option.inject)

lemma openssl_runs_serialized_witness:
  "\<exists>s. mx_reach (\<lambda>i db. i # db) [] s \<and> mx_log s = [1 :: nat] \<and> mx_db s = [1]"
proof -
  let ?e = "\<lambda>(i::nat) db. i # db"
  obtain s1 where s1: "mx_reach ?e [] s1" "mx_caller s1 1 = AtLock" "mx_holder s1 = None" "mx_log s1 = []"
    using mx_next [OF mx_start [of ?e "[]"] mx_step.call [where i = 1 and effect = ?e]] by auto
  obtain s2 where s2: "mx_reach ?e [] s2" "mx_caller s2 1 = Entered" "mx_log s2 = []"
    using mx_next [OF s1(1) mx_step.lock [where i = 1 and effect = ?e]] s1 by auto
  obtain s3 where s3: "mx_reach ?e [] s3" "mx_caller s3 1 = Subprocess (mx_db s3)" "mx_log s3 = []"
    using mx_next [OF s2(1) mx_step.start [where i = 1 and effect = ?e]] s2 by auto
  obtain s4 where s4: "mx_reach ?e [] s4" "mx_log s4 = [1]"
    using mx_next [OF s3(1) mx_step.finish [where i = 1 and effect = ?e and d = "mx_db s3"]] s3 by auto
  with openssl_runs_serialized [OF s4(1)] show ?thesis by auto
qed

text \<open>
  C24: No caller waits for ever: when finitely many requests call the backend and every subprocess ends, then whatever the
  scheduler does and whichever subprocesses fail, the run is over after at most five steps for each of them, and as
  long as one of them has not returned, one of them can take a step. So every run that goes on while it can ends with
  all of them returned.
\<close>

theorem openssl_callers_return:
  assumes "(mx_step effect ^^ n) \<lparr> mx_holder = None, mx_caller = (\<lambda>_. Outside), mx_db = db, mx_log = [] \<rparr> s"
    and "finite I" "\<forall>i. i \<notin> I \<longrightarrow> mx_caller s i = Outside"
  shows "n \<le> 5 * card I \<and>
    ((\<forall>i\<in>I. mx_caller s i = Left) \<or> (\<exists>i\<in>I. \<exists>s'. mx_step effect s s' \<and> mx_caller s' i \<noteq> mx_caller s i))"
proof
  show "n \<le> 5 * card I" using mx_run_work [OF assms(2,1) _ assms(3)] by simp
  have inv: "mx_inv effect db s" using mx_inv_reach [OF mx_run_reach [OF assms(1) mx_start]] .
  show "(\<forall>i\<in>I. mx_caller s i = Left) \<or> (\<exists>i\<in>I. \<exists>s'. mx_step effect s s' \<and> mx_caller s' i \<noteq> mx_caller s i)"
  proof (rule disjCI)
    assume stuck: "\<not> (\<exists>i\<in>I. \<exists>s'. mx_step effect s s' \<and> mx_caller s' i \<noteq> mx_caller s i)"
    show "\<forall>i\<in>I. mx_caller s i = Left"
    proof (rule ccontr)
      assume "\<not> ?thesis"
      then obtain i where i: "i \<in> I" "mx_caller s i \<noteq> Left" by blast
      from mx_enabled [OF inv i(2)] obtain j s' where "mx_caller s j = Outside \<longrightarrow> j = i"
        "mx_step effect s s'" "mx_caller s' j \<noteq> mx_caller s j" by blast
      moreover from this(1) have "j \<in> I" using i(1) assms(3) by blast
      ultimately show False using stuck by blast
    qed
  qed
qed

lemma openssl_callers_return_witness:
  "\<exists>s :: nat list mutex_state. mx_caller s 1 = AtLock \<and> (\<exists>s'. mx_step (\<lambda>i db. i # db) s s' \<and> mx_caller s' 1 \<noteq> mx_caller s 1)"
proof -
  let ?e = "\<lambda>(i::nat) db. i # db"
  let ?init = "\<lparr> mx_holder = None, mx_caller = (\<lambda>_. Outside), mx_db = [], mx_log = [] \<rparr> :: nat list mutex_state"
  let ?s = "?init \<lparr> mx_caller := (\<lambda>_. Outside)(1 := AtLock) \<rparr>"
  have "mx_step ?e ?init ?s" using mx_step.call [of ?init 1 ?e] by simp
  then have r: "(mx_step ?e ^^ 1) ?init ?s" by (simp only: relpowp_1)
  from openssl_callers_return [OF r, of "{1}"] have "\<exists>s'. mx_step ?e ?s s' \<and> mx_caller s' 1 \<noteq> mx_caller ?s 1" by simp
  moreover have "mx_caller ?s 1 = AtLock" by simp
  ultimately show ?thesis by blast
qed

end
