(* ===== verification/Go_JSON_Types.thy ===== *)
theory Go_JSON_Types
  imports Go_JSON_Text
begin

text \<open>
  What a Go program may rely on after \<open>json.Unmarshal\<close>: the strings of a document that parses are UTF-8, whatever
  bytes it is made of, and a decoder built from the ones for the basic types leaves a value of its type.
\<close>

section \<open>Encoded runes\<close>

definition scalar :: "nat \<Rightarrow> bool" where
  "scalar r \<longleftrightarrow> r \<le> 0x10FFFF \<and> \<not> surrogate r"

lemma byte_code_char: "b < 256 \<Longrightarrow> byte_code (char_of b) = b" for b :: nat
  by (simp add: byte_code_def)

lemma digits64:
  fixes r :: nat
  obtains y z where "r = y * 64 + z" "z < 64" "r div 64 = y" "r mod 64 = z"
  using div_mult_mod_eq [of r 64] by (metis mod_less_divisor zero_less_numeral)

lemma decode_encode_rune:
  assumes "scalar r"
  shows "decode_rune (map byte_code (encode_rune r @ t)) = (r, length (encode_rune r)) \<and>
     encode_rune r \<noteq> [] \<and> (length (encode_rune r) = 1 \<longrightarrow> r < 0x80)"
proof -
  have r: "r \<le> 0x10FFFF" "\<not> (0xD800 \<le> r \<and> r < 0xE000)" using assms by (auto simp: scalar_def surrogate_def)
  obtain q z where q: "r = q * 64 + z" "z < 64" "r div 64 = q" "r mod 64 = z" by (rule digits64)
  obtain p y where p: "q = p * 64 + y" "y < 64" "q div 64 = p" "q mod 64 = y" by (rule digits64)
  obtain u x where u: "p = u * 64 + x" "x < 64" "p div 64 = u" "p mod 64 = x" by (rule digits64)
  have d: "r div 4096 = p" "r div 262144 = u"
    using q(3) p(3) u(3) div_mult2_eq [of r 64 64] div_mult2_eq [of r 4096 64] by simp_all
  consider "r < 0x80" | "0x80 \<le> r" "r < 0x800" | "0x800 \<le> r" "r < 0x10000" | "0x10000 \<le> r" by linarith
  then show ?thesis
  proof cases
    case 1
    then show ?thesis by (simp add: encode_rune_def byte_code_char decode_rune.simps(2))
  next
    case 2
    then have "2 \<le> q" "q < 32" using q by linarith+
    then show ?thesis using 2 q by (simp add: encode_rune_def byte_code_char decode_rune.simps(2) utf8_cont_def)
  next
    case 3
    then have b: "p < 16" "p = 0 \<longrightarrow> 32 \<le> y" "p = 13 \<longrightarrow> y < 32" using q p r by auto
    have "encode_rune r = map char_of [0xE0 + p, 0x80 + y, 0x80 + z]"
      using 3 d(1) q(3,4) p(4) by (simp add: encode_rune_def)
    moreover have "decode_rune ((0xE0 + p) # (0x80 + y) # (0x80 + z) # xs) = (p * 4096 + y * 64 + z, 3)" for xs
      using b q(2) p(2) by (cases "p = 0"; cases "p = 13"; simp add: decode_rune.simps(2) utf8_cont_def)
    moreover have "p * 4096 + y * 64 + z = r" using q(1) p(1) by simp
    ultimately show ?thesis using b(1) q(2) p(2) by (simp add: byte_code_char)
  next
    case 4
    then have b: "u \<le> 4" "u = 0 \<longrightarrow> 16 \<le> x" "u = 4 \<longrightarrow> x < 16" using q p u r by auto
    have "encode_rune r = map char_of [0xF0 + u, 0x80 + x, 0x80 + y, 0x80 + z]"
      using 4 d q(3,4) p(4) u(4) by (simp add: encode_rune_def)
    moreover have "decode_rune ((0xF0 + u) # (0x80 + x) # (0x80 + y) # (0x80 + z) # xs) =
        (u * 262144 + x * 4096 + y * 64 + z, 4)" for xs
      using b q(2) p(2) u(2) by (cases "u = 0"; cases "u = 4"; simp add: decode_rune.simps(2) utf8_cont_def)
    moreover have "u * 262144 + x * 4096 + y * 64 + z = r" using q(1) p(1) u(1) by simp
    ultimately show ?thesis using b(1) q(2) p(2) u(2) by (simp add: byte_code_char)
  qed
qed

lemma utf8_rune: "scalar r \<Longrightarrow> utf8_valid (encode_rune r @ t) = utf8_valid t"
  using decode_encode_rune [of r t]
  by (auto simp: utf8_valid.simps [of "encode_rune r @ t"] rune_error_def)

lemma utf8_byte: "byte_code c < 0x80 \<Longrightarrow> utf8_valid (c # t) = utf8_valid t"
  by (simp add: utf8_valid.simps [of "c # t"] decode_rune.simps(2) rune_error_def)

section \<open>Strings that were scanned\<close>

text \<open>The raw text between the quotes of a string literal.\<close>

inductive raw_text :: "string \<Rightarrow> bool" where
  raw_end: "raw_text []"
| raw_plain: "raw_text s \<Longrightarrow> c \<noteq> CHR 0x5C \<Longrightarrow> raw_text (c # s)"
| raw_escape: "raw_text s \<Longrightarrow> simple_escape e \<Longrightarrow> raw_text (CHR 0x5C # e # s)"
| raw_u: "raw_text s \<Longrightarrow> list_all (\<lambda>h. hex_val h \<noteq> None) [h1, h2, h3, h4] \<Longrightarrow>
    raw_text (CHR 0x5C # CHR ''u'' # h1 # h2 # h3 # h4 # s)"

inductive_cases raw_ConsE: "raw_text (c # s)"

lemma scan_string_raw: "scan_string s = Some (raw, r) \<Longrightarrow> raw_text raw"
proof (induction s arbitrary: raw r rule: scan_string.induct)
  case 1
  then show ?case by (simp add: scan_string.simps)
next
  case (2 c s)
  note run = 2(4) [unfolded scan_string.simps(2) [of c s]]
  show ?case
  proof (cases "c = CHR 0x5C")
    case False
    then show ?thesis using run 2(3)
      by (cases "c = CHR 0x22"; cases "byte_code c < 0x20") (auto intro: raw_end raw_plain)
  next
    case esc: True
    then obtain e s1 where s: "s = e # s1" using run by (cases s) auto
    show ?thesis
    proof (cases "simple_escape e")
      case True
      then show ?thesis using run 2(1) [OF _ esc s True] esc s by (auto intro!: raw_escape)
    next
      case False
      then have e: "e = CHR ''u''" using run esc s by (simp split: if_splits)
      then obtain h1 h2 h3 h4 s2 where h: "s1 = h1 # h2 # h3 # h4 # s2" "list_all (\<lambda>h. hex_val h \<noteq> None) [h1, h2, h3, h4]"
        using run esc s False by (auto split: list.splits if_splits)
      then obtain raw' where r: "scan_string s2 = Some (raw', r)" "raw = c # e # h1 # h2 # h3 # h4 # raw'"
        using run esc s False e by auto
      have "raw_text raw'" by (rule 2(2) [OF _ esc s False e h(1) refl refl refl h(2) r(1)]) (use esc in simp)
      then show ?thesis using r(2) esc e raw_u [OF _ h(2)] by simp
    qed
  qed
qed

lemma getu4_scalar: "getu4 s = Some v \<Longrightarrow> v < 0x10000"
proof -
  have h: "hex_val c = Some v \<Longrightarrow> v < 16" for c v by (auto simp: hex_val_def Let_def split: if_splits)
  assume "getu4 s = Some v"
  then obtain a b c d where "v = a * 4096 + b * 256 + c * 16 + d" "a < 16" "b < 16" "c < 16" "d < 16"
    by (auto simp: getu4_def split: list.splits if_splits option.splits dest!: h)
  then show ?thesis by linarith
qed

lemma utf16_scalar: "utf16_rune a b = Some d \<Longrightarrow> scalar d"
  by (auto simp: utf16_rune_def scalar_def surrogate_def split: if_splits)

lemma scalar_error: "scalar rune_error"
  by (simp add: scalar_def surrogate_def rune_error_def)

lemma decoded_scalar: "decode_rune xs = (r, n) \<Longrightarrow> xs \<noteq> [] \<Longrightarrow> scalar r"
  using encode_decode_rune [of xs r n] scalar_error by (auto simp: scalar_def surrogate_def)

lemma raw_drop_high:
  "raw_text s \<Longrightarrow> n \<le> length s \<Longrightarrow> \<forall>c\<in>set (take n s). 0x80 \<le> byte_code c \<Longrightarrow> raw_text (drop n s)"
proof (induction n arbitrary: s)
  case (Suc n)
  then obtain c t where s: "s = c # t" by (cases s) auto
  have "c \<noteq> CHR 0x5C" using Suc.prems(3) s by (auto simp: byte_code_def)
  then have "raw_text t" using Suc.prems(1) s by (auto elim: raw_ConsE)
  then show ?case using Suc s by simp
qed simp

lemma getu4_form:
  assumes "getu4 s = Some v"
  obtains h1 h2 h3 h4 t where "s = CHR 0x5C # CHR ''u'' # h1 # h2 # h3 # h4 # t"
  using assms by (auto simp: getu4_def split: list.splits if_splits)

lemma raw_drop_u: "raw_text s \<Longrightarrow> getu4 s = Some v \<Longrightarrow> raw_text (drop 6 s)"
  by (erule getu4_form) (auto elim!: raw_ConsE simp: simple_escape_def)

lemma getu4_raw_None:
  assumes "raw_text (CHR 0x5C # t)" "getu4 (CHR 0x5C # t) = None"
  obtains e u where "t = e # u" "simple_escape e" "raw_text u"
  using assms(1) by (rule raw_ConsE) (use assms(2) that in \<open>auto simp: getu4_def split: option.splits\<close>)

lemma unescape_low: "simple_escape e \<Longrightarrow> byte_code (unescape e) < 0x80"
  by (auto simp: simple_escape_def) code_simp+

lemma unquote_step_raw:
  assumes "raw_text s" "s \<noteq> []" "unquote_step s = (x, n)"
  shows "raw_text (drop n s) \<and> utf8_valid (x @ t) = utf8_valid t"
proof (cases "hd s = CHR 0x5C")
  case True
  then obtain s' where s: "s = CHR 0x5C # s'" using assms(2) by (cases s) auto
  show ?thesis
  proof (cases "getu4 s")
    case None
    with assms(1) s obtain e u where e: "s' = e # u" "simple_escape e" "raw_text u" by (metis getu4_raw_None)
    then have "x = [unescape e]" "n = 2" using assms(3) s None by (auto simp: unquote_step_def)
    then show ?thesis using s e by (simp add: utf8_byte unescape_low)
  next
    case (Some v)
    note d = raw_drop_u [OF assms(1) Some]
    consider "x = encode_rune rune_error" "n = 6" | "\<not> surrogate v" "x = encode_rune v" "n = 6"
      | v1 w where "getu4 (drop 6 s) = Some v1" "utf16_rune v v1 = Some w" "x = encode_rune w" "n = 12"
      using assms(3) Some True by (auto simp: unquote_step_def split: if_splits option.splits)
    then show ?thesis
    proof cases
      case 1
      then show ?thesis using d by (simp add: utf8_rune scalar_error)
    next
      case 2
      then show ?thesis using d getu4_scalar [OF Some] by (simp add: utf8_rune scalar_def)
    next
      case 3
      then show ?thesis using raw_drop_u [OF d 3(1)] by (simp add: utf8_rune utf16_scalar)
    qed
  qed
next
  case False
  then have tl: "raw_text (drop 1 s)" using assms(1,2) by (cases s) (auto elim: raw_ConsE)
  show ?thesis
  proof (cases "byte_code (hd s) < 0x80")
    case True
    then show ?thesis using assms(3) False tl by (auto simp: unquote_step_def utf8_byte)
  next
    case high: False
    obtain r m where d: "decode_rune (map byte_code s) = (r, m)" by (cases "decode_rune (map byte_code s)")
    then have x: "x = encode_rune r" "n = m" using assms(3) False high by (simp_all add: unquote_step_def)
    have "scalar r" using decoded_scalar [OF d] assms(2) by simp
    moreover have "raw_text (drop m s)"
    proof (cases "r = rune_error \<and> m = 1")
      case True
      then show ?thesis using tl by simp
    next
      case False
      show ?thesis using raw_drop_high [OF assms(1)] multi_bytes(3,4) [OF d False assms(2) high] by blast
    qed
    ultimately show ?thesis using x by (simp add: utf8_rune)
  qed
qed

lemma unquote_utf8: "raw_text s \<Longrightarrow> utf8_valid (unquote s)"
proof (induction s rule: unquote.induct)
  case (1 s)
  show ?case
  proof (cases "s = []")
    case True
    then show ?thesis by (simp add: unquote.simps utf8_valid.simps)
  next
    case False
    obtain x n where x: "unquote_step s = (x, n)" by (cases "unquote_step s")
    have "unquote s = x @ unquote (drop n s)" using False x by (simp add: unquote.simps [of s])
    then show ?thesis using unquote_step_raw [OF 1(2) False x] 1(1) [OF False x [symmetric]] by simp
  qed
qed

section \<open>Documents\<close>

fun json_utf8 :: "json \<Rightarrow> bool" where
  "json_utf8 (JString s) = utf8_valid s"
| "json_utf8 (JArray js) = (\<forall>j\<in>set js. json_utf8 j)"
| "json_utf8 (JObject ms) = (\<forall>m\<in>set ms. utf8_valid (fst m) \<and> json_utf8 (snd m))"
| "json_utf8 _ = True"

definition yields_utf8 :: "json_parser \<Rightarrow> bool" where
  "yields_utf8 p \<longleftrightarrow> (\<forall>s j r. p s = Some (j, r) \<longrightarrow> json_utf8 j)"

lemma parse_elems_utf8: "yields_utf8 p \<Longrightarrow> parse_elems p s = Some (js, r) \<Longrightarrow> \<forall>j\<in>set js. json_utf8 j"
proof (induction p s arbitrary: js r rule: parse_elems.induct)
  case (1 p s)
  from 1(3) obtain j t c r1 where p: "p s = Some (j, t)" "skip_space t = c # r1"
    "(if c = CHR '']'' then Some ([j], r1)
      else if c = CHR '','' \<and> length r1 < length s then map_option (\<lambda>(js, t). (j # js, t)) (parse_elems p r1) else None)
      = Some (js, r)"
    by (subst (asm) parse_elems.simps) (auto split: option.splits list.splits)
  have "json_utf8 j" using p(1) 1(2) unfolding yields_utf8_def by blast
  then show ?case using p(3) 1(1) [OF p(1) refl p(2)] 1(2) by (auto split: if_splits)
qed

lemma parse_members_utf8:
  "yields_utf8 p \<Longrightarrow> parse_members p s = Some (ms, r) \<Longrightarrow> \<forall>m\<in>set ms. utf8_valid (fst m) \<and> json_utf8 (snd m)"
proof (induction p s arbitrary: ms r rule: parse_members.induct)
  case (1 p s)
  from 1(3) obtain q s1 raw s2 k s3 j t c r1 where p: "skip_space s = q # s1" "q = CHR 0x22" "scan_string s1 = Some (raw, s2)"
    "skip_space s2 = k # s3" "k = CHR '':''" "p s3 = Some (j, t)" "skip_space t = c # r1"
    "(if c = CHR ''}'' then Some ([(unquote raw, j)], r1)
      else if c = CHR '','' \<and> length r1 < length s then map_option (\<lambda>(ms, t). ((unquote raw, j) # ms, t)) (parse_members p r1)
      else None) = Some (ms, r)"
    by (subst (asm) parse_members.simps) (auto split: option.splits list.splits if_splits)
  have "json_utf8 j" "utf8_valid (unquote raw)"
    using p(6) 1(2) unquote_utf8 [OF scan_string_raw [OF p(3)]] unfolding yields_utf8_def by blast+
  then show ?case
    using p(8) 1(1) [OF p(1) _ p(3) refl p(4) _ p(6) refl p(7)] p(2,5) 1(2) by (fastforce split: if_splits)
qed

lemma scan_word_result: "scan_word t j s = Some (i, r) \<Longrightarrow> i = j"
  by (simp add: scan_word_def split: if_splits)

lemma parse_value_utf8: "yields_utf8 (parse_value d)"
proof (induction "nat d" arbitrary: d rule: less_induct)
  case less
  show ?case unfolding yields_utf8_def
  proof (intro allI impI)
    fix s j r
    assume run: "parse_value d s = Some (j, r)"
    obtain c t where s: "skip_space s = c # t" using run by (cases "skip_space s") (auto simp: parse_value.simps)
    have sub: "yields_utf8 (\<lambda>u. parse_value (d - 1) u)" if "\<not> d \<le> 0" using less [of "d - 1"] that by simp
    consider "c = CHR 0x22" | "c = CHR ''[''" | "c = CHR ''{''" | "\<forall>x. j \<noteq> JString x" "\<forall>js. j \<noteq> JArray js" "\<forall>ms. j \<noteq> JObject ms"
      using run s by (subst (asm) parse_value.simps) (auto dest!: scan_word_result split: if_splits)
    then show "json_utf8 j"
    proof cases
      case 1
      then show ?thesis using run s by (subst (asm) parse_value.simps) (auto dest!: scan_string_raw [THEN unquote_utf8])
    next
      case 2
      then show ?thesis using run s parse_elems_utf8 [OF sub]
        by (subst (asm) parse_value.simps) (fastforce split: if_splits list.splits)
    next
      case 3
      then show ?thesis using run s parse_members_utf8 [OF sub]
        by (subst (asm) parse_value.simps) (fastforce split: if_splits list.splits)
    next
      case 4
      then show ?thesis by (cases j) auto
    qed
  qed
qed

lemma json_parse_utf8: "json_parse b = Inr j \<Longrightarrow> json_utf8 j"
  using parse_value_utf8 [of 10000, unfolded yields_utf8_def]
  by (force simp: json_parse_def split: option.splits if_splits)

section \<open>Decoders\<close>

text \<open>A decoder keeps a type when it turns a value of the type into one, whatever document it is given.\<close>

definition keeps_type :: "('a \<Rightarrow> bool) \<Rightarrow> 'a decoder \<Rightarrow> bool" where
  "keeps_type P dec \<longleftrightarrow> (\<forall>j e x e' x'. json_utf8 j \<longrightarrow> P x \<longrightarrow> dec j (e, x) = Inr (e', x') \<longrightarrow> P x')"

lemma keeps_typeI [intro?]:
  "(\<And>j e x e' x'. json_utf8 j \<Longrightarrow> P x \<Longrightarrow> dec j (e, x) = Inr (e', x') \<Longrightarrow> P x') \<Longrightarrow> keeps_type P dec"
  unfolding keeps_type_def by blast

lemma keeps_typeD:
  "keeps_type P dec \<Longrightarrow> json_utf8 j \<Longrightarrow> P x \<Longrightarrow> dec j (e, x) = Inr (e', x') \<Longrightarrow> P x'"
  unfolding keeps_type_def by blast

lemma type_error_value: "type_error t (e, x) = Inr (e', x') \<Longrightarrow> x' = x"
  by (auto simp: type_error_def split: option.splits)

lemma keeps_string: "keeps_type utf8_valid decode_string"
  by (rule keeps_typeI) (auto simp: decode_string_def dest: type_error_value split: json.splits)

lemma keeps_bool: "keeps_type (\<lambda>_. True) decode_bool"
  by (simp add: keeps_type_def)

text \<open>The integers of 64 bits.\<close>

definition int64 :: "int \<Rightarrow> bool" where
  "int64 n \<longleftrightarrow> - (2 ^ 63) \<le> n \<and> n < 2 ^ 63"

lemma Atoi_int64: "Atoi t = Inr n \<Longrightarrow> int64 n"
  by (auto simp: Atoi_def int64_def Let_def dest: parse_uint64_nonneg split: if_splits sum.splits)

lemma keeps_int: "keeps_type int64 decode_int"
  by (rule keeps_typeI) (auto simp: decode_int_def dest: type_error_value Atoi_int64 split: json.splits sum.splits)

lemma keeps_ptr:
  assumes "keeps_type P dec" "P zero"
  shows "keeps_type (pred_option P) (decode_ptr zero dec)"
proof
  fix j e x e' x'
  assume j: "json_utf8 j" and x: "pred_option P x" and run: "decode_ptr zero dec j (e, x) = Inr (e', x')"
  let ?old = "case x of None \<Rightarrow> zero | Some y \<Rightarrow> y"
  have "P ?old" using assms(2) x by (cases x) simp_all
  moreover have "x' = None \<or> (\<exists>y. x' = Some y \<and> dec j (e, ?old) = Inr (e', y))"
    using run by (cases j) (auto simp: decode_ptr_def split: sum.splits)
  ultimately show "pred_option P x'" using keeps_typeD [OF assms(1) j] by auto
qed

lemma keeps_elems:
  assumes "keeps_type P dec" "P zero"
  shows "\<forall>j\<in>set js. json_utf8 j \<Longrightarrow> list_all P old \<Longrightarrow> decode_elems zero dec js old e = Inr (e', xs) \<Longrightarrow> list_all P xs"
proof (induction js arbitrary: old e xs)
  case (Cons j js)
  let ?old = "case old of [] \<Rightarrow> zero | x # _ \<Rightarrow> x"
  obtain e1 x ys where x: "dec j (e, ?old) = Inr (e1, x)" "decode_elems zero dec js (tl old) e1 = Inr (e', ys)" "xs = x # ys"
    using Cons.prems(3) by (auto split: sum.splits)
  have "P ?old" "list_all P (tl old)" using assms(2) Cons.prems(2) by (cases old; simp)+
  then show ?case using Cons.IH [OF _ _ x(2)] keeps_typeD [OF assms(1) _ _ x(1)] Cons.prems(1) x(3) by simp
qed simp

lemma keeps_slice: "keeps_type P dec \<Longrightarrow> P zero \<Longrightarrow> keeps_type (list_all P) (decode_slice zero dec)"
  by (rule keeps_typeI) (auto simp: decode_slice_def dest: type_error_value intro: keeps_elems split: json.splits)

lemma keeps_field:
  assumes "keeps_type F dec" "\<And>x. P x \<Longrightarrow> F (get x)" "\<And>x v. P x \<Longrightarrow> F v \<Longrightarrow> P (put v x)"
  shows "keeps_type P (json_field dec get put)"
proof
  fix j e x e' x'
  assume j: "json_utf8 j" and x: "P x" and run: "json_field dec get put j (e, x) = Inr (e', x')"
  obtain v where v: "dec j (e, get x) = Inr (e', v)" "x' = put v x"
    using run by (auto simp: json_field_def split: sum.splits)
  have "F v" using keeps_typeD [OF assms(1) j assms(2) [OF x] v(1)] .
  with v(2) show "P x'" using assms(3) x by simp
qed

lemma find_field_decoder: "find_field fields k = Some dec \<Longrightarrow> dec \<in> snd ` set fields"
  by (force simp: find_field_def find_Some_iff in_set_conv_nth dest: map_of_SomeD split: option.splits)

lemma keeps_members:
  assumes "\<forall>dec\<in>snd ` set fields. keeps_type P dec"
  shows "\<forall>m\<in>set ms. json_utf8 (snd m) \<Longrightarrow> P (snd s) \<Longrightarrow> decode_members fields ms s = Inr s' \<Longrightarrow> P (snd s')"
proof (induction ms arbitrary: s)
  case (Cons m ms)
  obtain k v where m: "m = (k, v)" by (cases m)
  show ?case
  proof (cases "find_field fields k")
    case None
    then show ?thesis using Cons m by simp
  next
    case (Some dec)
    then obtain s1 where s1: "dec v s = Inr s1" "decode_members fields ms s1 = Inr s'"
      using Cons.prems(3) m by (auto split: sum.splits)
    have "keeps_type P dec" using assms find_field_decoder [OF Some] by blast
    then have "P (snd s1)"
      using keeps_typeD [of P dec v "snd s" "fst s" "fst s1" "snd s1"] s1(1) Cons.prems(1,2) m by simp
    then show ?thesis using Cons s1(2) by simp
  qed
qed simp

lemma keeps_struct:
  assumes "\<forall>dec\<in>snd ` set fields. keeps_type P dec"
  shows "keeps_type P (decode_struct name fields)"
proof
  fix j e x e' x'
  assume j: "json_utf8 j" and x: "P x" and run: "decode_struct name fields j (e, x) = Inr (e', x')"
  show "P x'"
  proof (cases j)
    case (JObject ms)
    then show ?thesis using keeps_members [OF assms, of ms "(e, x)" "(e', x')"] j x run by (simp add: decode_struct_def)
  qed (use x run in \<open>auto simp: decode_struct_def dest: type_error_value\<close>)
qed

lemma Unmarshal_typed:
  "keeps_type P dec \<Longrightarrow> P x \<Longrightarrow> json_Unmarshal dec x d = Inr y \<Longrightarrow> P y"
  by (auto simp: json_Unmarshal_def dest: json_parse_utf8 keeps_typeD split: sum.splits prod.splits option.splits)

lemmas keeps_rules = keeps_string keeps_bool keeps_int keeps_ptr keeps_slice keeps_field keeps_struct

end
