(* ===== verification/Config.thy ===== *)
theory Config
  imports Go_OS Go_Time Go_JSON_Types
begin

text \<open>
  \<open>internal/config\<close>: the configuration file. The structs and their JSON names, the duration type, \<open>Load\<close>
  and \<open>Validate\<close>, which also fills in the defaults. The order in which \<open>range\<close> visits a map and the
  search of \<open>exec.LookPath\<close> are arguments. The lemmas show that a written configuration is read back,
  exactly which configurations are accepted, and that the map order matters for the message only.
\<close>

section \<open>Durations\<close>

definition Duration_MarshalJSON :: "int \<Rightarrow> json" where
  "Duration_MarshalJSON d = JString (Duration_String d)"

text \<open>A \<open>null\<close> leaves the text empty, which is no duration.\<close>

definition Duration_UnmarshalJSON :: "int decoder" where
  "Duration_UnmarshalJSON j s =
     (case decode_string j (None, []) of
        Inl e \<Rightarrow> Inl e
      | Inr (Some e, _) \<Rightarrow> Inl e
      | Inr (None, t) \<Rightarrow>
          (case ParseDuration t of
             Inl e \<Rightarrow> Inl (ErrWrap ''invalid duration %q: %w'' [FStr t] e)
           | Inr parsed \<Rightarrow> Inr (fst s, parsed)))"

section \<open>The structs\<close>

record key_algorithm_config =
  kc_OID :: string
  kc_CurveOID :: string
  kc_RSAModulusBits :: int

record extension_config =
  xc_OID :: string
  xc_Critical :: bool
  xc_ValueHex :: string

record rdn_config =
  rc_OID :: string
  rc_Value :: "string option"

record template_extension_config =
  tx_OID :: string
  tx_Critical :: bool
  tx_ValueHex :: "string option"

record template_config =
  tc_Subject :: "rdn_config list"
  tc_KeyType :: "key_algorithm_config option"
  tc_Extensions :: "template_extension_config list"

record csr_attrs_config =
  ac_ChallengePassword :: bool
  ac_KeyAlgorithm :: "key_algorithm_config option"
  ac_RequiredExtensions :: "extension_config list"
  ac_ExtraOIDs :: "string list"
  ac_Template :: "template_config option"

record openssl_config =
  os_OpenSSLPath :: string
  os_ConfigFile :: string
  os_ExtensionsSection :: string

record ejbca_config =
  jc_BaseURL :: string
  jc_ClientCertFile :: string
  jc_ClientKeyFile :: string
  jc_ServerCAFile :: string
  jc_CAName :: string
  jc_CASubjectDN :: string
  jc_CertificateProfileName :: string
  jc_EndEntityProfileName :: string

record config =
  cf_ListenAddr :: string
  cf_ServerCertFile :: string
  cf_ServerKeyFile :: string
  cf_ClientCAFiles :: "string list"
  cf_StoreDir :: string
  cf_CertValidity :: int
  cf_CABackend :: string
  cf_CACertFile :: string
  cf_CAKeyFile :: string
  cf_OpenSSLCA :: "openssl_config option"
  cf_EJBCACA :: "ejbca_config option"
  cf_CSRAttrs :: "csr_attrs_config option"

section \<open>Their zero values and JSON names\<close>

definition zero_key_algorithm :: key_algorithm_config where
  "zero_key_algorithm = \<lparr> kc_OID = [], kc_CurveOID = [], kc_RSAModulusBits = 0 \<rparr>"

definition decode_key_algorithm :: "key_algorithm_config decoder" where
  "decode_key_algorithm = decode_struct ''config.KeyAlgorithmConfig''
     [(''oid'', json_field decode_string kc_OID (\<lambda>v. kc_OID_update (\<lambda>_. v))),
      (''curve_oid'', json_field decode_string kc_CurveOID (\<lambda>v. kc_CurveOID_update (\<lambda>_. v))),
      (''rsa_modulus_bits'', json_field decode_int kc_RSAModulusBits (\<lambda>v. kc_RSAModulusBits_update (\<lambda>_. v)))]"

definition zero_extension :: extension_config where
  "zero_extension = \<lparr> xc_OID = [], xc_Critical = False, xc_ValueHex = [] \<rparr>"

definition decode_extension :: "extension_config decoder" where
  "decode_extension = decode_struct ''config.ExtensionConfig''
     [(''oid'', json_field decode_string xc_OID (\<lambda>v. xc_OID_update (\<lambda>_. v))),
      (''critical'', json_field decode_bool xc_Critical (\<lambda>v. xc_Critical_update (\<lambda>_. v))),
      (''value_hex'', json_field decode_string xc_ValueHex (\<lambda>v. xc_ValueHex_update (\<lambda>_. v)))]"

definition zero_rdn :: rdn_config where
  "zero_rdn = \<lparr> rc_OID = [], rc_Value = None \<rparr>"

definition decode_rdn :: "rdn_config decoder" where
  "decode_rdn = decode_struct ''config.RDNConfig''
     [(''oid'', json_field decode_string rc_OID (\<lambda>v. rc_OID_update (\<lambda>_. v))),
      (''value'', json_field (decode_ptr [] decode_string) rc_Value (\<lambda>v. rc_Value_update (\<lambda>_. v)))]"

definition zero_template_extension :: template_extension_config where
  "zero_template_extension = \<lparr> tx_OID = [], tx_Critical = False, tx_ValueHex = None \<rparr>"

definition decode_template_extension :: "template_extension_config decoder" where
  "decode_template_extension = decode_struct ''config.TemplateExtensionConfig''
     [(''oid'', json_field decode_string tx_OID (\<lambda>v. tx_OID_update (\<lambda>_. v))),
      (''critical'', json_field decode_bool tx_Critical (\<lambda>v. tx_Critical_update (\<lambda>_. v))),
      (''value_hex'', json_field (decode_ptr [] decode_string) tx_ValueHex (\<lambda>v. tx_ValueHex_update (\<lambda>_. v)))]"

definition zero_template :: template_config where
  "zero_template = \<lparr> tc_Subject = [], tc_KeyType = None, tc_Extensions = [] \<rparr>"

definition decode_template :: "template_config decoder" where
  "decode_template = decode_struct ''config.TemplateConfig''
     [(''subject'', json_field (decode_slice zero_rdn decode_rdn) tc_Subject (\<lambda>v. tc_Subject_update (\<lambda>_. v))),
      (''key_type'', json_field (decode_ptr zero_key_algorithm decode_key_algorithm) tc_KeyType
         (\<lambda>v. tc_KeyType_update (\<lambda>_. v))),
      (''extensions'', json_field (decode_slice zero_template_extension decode_template_extension) tc_Extensions
         (\<lambda>v. tc_Extensions_update (\<lambda>_. v)))]"

definition zero_csr_attrs :: csr_attrs_config where
  "zero_csr_attrs = \<lparr> ac_ChallengePassword = False, ac_KeyAlgorithm = None, ac_RequiredExtensions = [],
     ac_ExtraOIDs = [], ac_Template = None \<rparr>"

definition decode_csr_attrs :: "csr_attrs_config decoder" where
  "decode_csr_attrs = decode_struct ''config.CSRAttrsConfig''
     [(''challenge_password'', json_field decode_bool ac_ChallengePassword (\<lambda>v. ac_ChallengePassword_update (\<lambda>_. v))),
      (''key_algorithm'', json_field (decode_ptr zero_key_algorithm decode_key_algorithm) ac_KeyAlgorithm
         (\<lambda>v. ac_KeyAlgorithm_update (\<lambda>_. v))),
      (''required_extensions'', json_field (decode_slice zero_extension decode_extension) ac_RequiredExtensions
         (\<lambda>v. ac_RequiredExtensions_update (\<lambda>_. v))),
      (''extra_oids'', json_field (decode_slice [] decode_string) ac_ExtraOIDs (\<lambda>v. ac_ExtraOIDs_update (\<lambda>_. v))),
      (''template'', json_field (decode_ptr zero_template decode_template) ac_Template
         (\<lambda>v. ac_Template_update (\<lambda>_. v)))]"

definition zero_openssl :: openssl_config where
  "zero_openssl = \<lparr> os_OpenSSLPath = [], os_ConfigFile = [], os_ExtensionsSection = [] \<rparr>"

definition decode_openssl :: "openssl_config decoder" where
  "decode_openssl = decode_struct ''config.OpenSSLCAConfig''
     [(''openssl_path'', json_field decode_string os_OpenSSLPath (\<lambda>v. os_OpenSSLPath_update (\<lambda>_. v))),
      (''config_file'', json_field decode_string os_ConfigFile (\<lambda>v. os_ConfigFile_update (\<lambda>_. v))),
      (''extensions_section'', json_field decode_string os_ExtensionsSection (\<lambda>v. os_ExtensionsSection_update (\<lambda>_. v)))]"

definition zero_ejbca :: ejbca_config where
  "zero_ejbca = \<lparr> jc_BaseURL = [], jc_ClientCertFile = [], jc_ClientKeyFile = [], jc_ServerCAFile = [], jc_CAName = [],
     jc_CASubjectDN = [], jc_CertificateProfileName = [], jc_EndEntityProfileName = [] \<rparr>"

definition decode_ejbca :: "ejbca_config decoder" where
  "decode_ejbca = decode_struct ''config.EJBCACAConfig''
     [(''base_url'', json_field decode_string jc_BaseURL (\<lambda>v. jc_BaseURL_update (\<lambda>_. v))),
      (''client_cert_file'', json_field decode_string jc_ClientCertFile (\<lambda>v. jc_ClientCertFile_update (\<lambda>_. v))),
      (''client_key_file'', json_field decode_string jc_ClientKeyFile (\<lambda>v. jc_ClientKeyFile_update (\<lambda>_. v))),
      (''server_ca_file'', json_field decode_string jc_ServerCAFile (\<lambda>v. jc_ServerCAFile_update (\<lambda>_. v))),
      (''ca_name'', json_field decode_string jc_CAName (\<lambda>v. jc_CAName_update (\<lambda>_. v))),
      (''ca_subject_dn'', json_field decode_string jc_CASubjectDN (\<lambda>v. jc_CASubjectDN_update (\<lambda>_. v))),
      (''certificate_profile_name'', json_field decode_string jc_CertificateProfileName
         (\<lambda>v. jc_CertificateProfileName_update (\<lambda>_. v))),
      (''end_entity_profile_name'', json_field decode_string jc_EndEntityProfileName
         (\<lambda>v. jc_EndEntityProfileName_update (\<lambda>_. v)))]"

definition zero_config :: config where
  "zero_config = \<lparr> cf_ListenAddr = [], cf_ServerCertFile = [], cf_ServerKeyFile = [], cf_ClientCAFiles = [],
     cf_StoreDir = [], cf_CertValidity = 0, cf_CABackend = [], cf_CACertFile = [], cf_CAKeyFile = [],
     cf_OpenSSLCA = None, cf_EJBCACA = None, cf_CSRAttrs = None \<rparr>"

definition decode_config :: "config decoder" where
  "decode_config = decode_struct ''config.Config''
     [(''listen_addr'', json_field decode_string cf_ListenAddr (\<lambda>v. cf_ListenAddr_update (\<lambda>_. v))),
      (''server_cert_file'', json_field decode_string cf_ServerCertFile (\<lambda>v. cf_ServerCertFile_update (\<lambda>_. v))),
      (''server_key_file'', json_field decode_string cf_ServerKeyFile (\<lambda>v. cf_ServerKeyFile_update (\<lambda>_. v))),
      (''client_ca_files'', json_field (decode_slice [] decode_string) cf_ClientCAFiles (\<lambda>v. cf_ClientCAFiles_update (\<lambda>_. v))),
      (''store_dir'', json_field decode_string cf_StoreDir (\<lambda>v. cf_StoreDir_update (\<lambda>_. v))),
      (''cert_validity'', json_field Duration_UnmarshalJSON cf_CertValidity (\<lambda>v. cf_CertValidity_update (\<lambda>_. v))),
      (''ca_backend'', json_field decode_string cf_CABackend (\<lambda>v. cf_CABackend_update (\<lambda>_. v))),
      (''ca_cert_file'', json_field decode_string cf_CACertFile (\<lambda>v. cf_CACertFile_update (\<lambda>_. v))),
      (''ca_key_file'', json_field decode_string cf_CAKeyFile (\<lambda>v. cf_CAKeyFile_update (\<lambda>_. v))),
      (''openssl_ca'', json_field (decode_ptr zero_openssl decode_openssl) cf_OpenSSLCA (\<lambda>v. cf_OpenSSLCA_update (\<lambda>_. v))),
      (''ejbca_ca'', json_field (decode_ptr zero_ejbca decode_ejbca) cf_EJBCACA (\<lambda>v. cf_EJBCACA_update (\<lambda>_. v))),
      (''csr_attrs'', json_field (decode_ptr zero_csr_attrs decode_csr_attrs) cf_CSRAttrs (\<lambda>v. cf_CSRAttrs_update (\<lambda>_. v)))]"

definition Load :: "string \<Rightarrow> (config result, 'z) os_call" where
  "Load path w =
     (case os_ReadFile path w of
        (Inl e, w) \<Rightarrow> (Inl (ErrWrap ''config: read %s: %w'' [FStr path] e), w)
      | (Inr d, w) \<Rightarrow>
          (wrap_err ''config: parse %s: %w'' [FStr path] (json_Unmarshal decode_config zero_config d), w))"

section \<open>Written and read back\<close>

text \<open>What \<open>json.Marshal\<close> makes of the structs by their tags.\<close>

definition key_algorithm_json :: "key_algorithm_config \<Rightarrow> json" where
  "key_algorithm_json k = JObject
     ((''oid'', JString (kc_OID k)) #
      omit_if (kc_CurveOID k = []) ''curve_oid'' (JString (kc_CurveOID k)) @
      omit_if (kc_RSAModulusBits k = 0) ''rsa_modulus_bits'' (JNumber (int_text (kc_RSAModulusBits k))))"

definition extension_json :: "extension_config \<Rightarrow> json" where
  "extension_json x = JObject
     ((''oid'', JString (xc_OID x)) #
      omit_if (\<not> xc_Critical x) ''critical'' (JBool (xc_Critical x)) @
      [(''value_hex'', JString (xc_ValueHex x))])"

definition rdn_json :: "rdn_config \<Rightarrow> json" where
  "rdn_json r = JObject
     ((''oid'', JString (rc_OID r)) # omit_if (rc_Value r = None) ''value'' (JString (the (rc_Value r))))"

definition template_extension_json :: "template_extension_config \<Rightarrow> json" where
  "template_extension_json x = JObject
     ((''oid'', JString (tx_OID x)) #
      omit_if (\<not> tx_Critical x) ''critical'' (JBool (tx_Critical x)) @
      omit_if (tx_ValueHex x = None) ''value_hex'' (JString (the (tx_ValueHex x))))"

definition template_json :: "template_config \<Rightarrow> json" where
  "template_json t = JObject
     (omit_if (tc_Subject t = []) ''subject'' (JArray (map rdn_json (tc_Subject t))) @
      omit_if (tc_KeyType t = None) ''key_type'' (key_algorithm_json (the (tc_KeyType t))) @
      omit_if (tc_Extensions t = []) ''extensions'' (JArray (map template_extension_json (tc_Extensions t))))"

definition csr_attrs_json :: "csr_attrs_config \<Rightarrow> json" where
  "csr_attrs_json a = JObject
     ((''challenge_password'', JBool (ac_ChallengePassword a)) #
      omit_if (ac_KeyAlgorithm a = None) ''key_algorithm'' (key_algorithm_json (the (ac_KeyAlgorithm a))) @
      omit_if (ac_RequiredExtensions a = []) ''required_extensions'' (JArray (map extension_json (ac_RequiredExtensions a))) @
      omit_if (ac_ExtraOIDs a = []) ''extra_oids'' (JArray (map JString (ac_ExtraOIDs a))) @
      omit_if (ac_Template a = None) ''template'' (template_json (the (ac_Template a))))"

definition openssl_json :: "openssl_config \<Rightarrow> json" where
  "openssl_json oc = JObject
     (omit_if (os_OpenSSLPath oc = []) ''openssl_path'' (JString (os_OpenSSLPath oc)) @
      (''config_file'', JString (os_ConfigFile oc)) #
      omit_if (os_ExtensionsSection oc = []) ''extensions_section'' (JString (os_ExtensionsSection oc)))"

definition ejbca_json :: "ejbca_config \<Rightarrow> json" where
  "ejbca_json e = JObject
     ((''base_url'', JString (jc_BaseURL e)) # (''client_cert_file'', JString (jc_ClientCertFile e)) #
      (''client_key_file'', JString (jc_ClientKeyFile e)) #
      omit_if (jc_ServerCAFile e = []) ''server_ca_file'' (JString (jc_ServerCAFile e)) @
      [(''ca_name'', JString (jc_CAName e)), (''ca_subject_dn'', JString (jc_CASubjectDN e)),
       (''certificate_profile_name'', JString (jc_CertificateProfileName e)),
       (''end_entity_profile_name'', JString (jc_EndEntityProfileName e))])"

definition config_json :: "config \<Rightarrow> json" where
  "config_json c = JObject
     ((''listen_addr'', JString (cf_ListenAddr c)) # (''server_cert_file'', JString (cf_ServerCertFile c)) #
      (''server_key_file'', JString (cf_ServerKeyFile c)) # (''client_ca_files'', JArray (map JString (cf_ClientCAFiles c))) #
      (''store_dir'', JString (cf_StoreDir c)) # (''cert_validity'', Duration_MarshalJSON (cf_CertValidity c)) #
      omit_if (cf_CABackend c = []) ''ca_backend'' (JString (cf_CABackend c)) @
      omit_if (cf_CACertFile c = []) ''ca_cert_file'' (JString (cf_CACertFile c)) @
      omit_if (cf_CAKeyFile c = []) ''ca_key_file'' (JString (cf_CAKeyFile c)) @
      omit_if (cf_OpenSSLCA c = None) ''openssl_ca'' (openssl_json (the (cf_OpenSSLCA c))) @
      omit_if (cf_EJBCACA c = None) ''ejbca_ca'' (ejbca_json (the (cf_EJBCACA c))) @
      omit_if (cf_CSRAttrs c = None) ''csr_attrs'' (csr_attrs_json (the (cf_CSRAttrs c))))"

text \<open>The integers of a configuration.\<close>

definition key_fits :: "key_algorithm_config option \<Rightarrow> bool" where
  "key_fits k = (case k of None \<Rightarrow> True | Some k \<Rightarrow> int64 (kc_RSAModulusBits k))"

definition config_fits :: "config \<Rightarrow> bool" where
  "config_fits c \<longleftrightarrow> int64 (cf_CertValidity c) \<and>
     (case cf_CSRAttrs c of None \<Rightarrow> True
      | Some a \<Rightarrow> key_fits (ac_KeyAlgorithm a) \<and>
          (case ac_Template a of None \<Rightarrow> True | Some t \<Rightarrow> key_fits (tc_KeyType t)))"

text \<open>The strings of a configuration.\<close>

definition key_strings :: "key_algorithm_config option \<Rightarrow> string list" where
  "key_strings k = (case k of None \<Rightarrow> [] | Some k \<Rightarrow> [kc_OID k, kc_CurveOID k])"

definition option_list :: "'a option \<Rightarrow> 'a list" where
  "option_list x = (case x of None \<Rightarrow> [] | Some y \<Rightarrow> [y])"

definition template_strings :: "template_config \<Rightarrow> string list" where
  "template_strings t =
     concat (map (\<lambda>r. rc_OID r # option_list (rc_Value r)) (tc_Subject t)) @ key_strings (tc_KeyType t) @
     concat (map (\<lambda>x. tx_OID x # option_list (tx_ValueHex x)) (tc_Extensions t))"

definition csr_attrs_strings :: "csr_attrs_config \<Rightarrow> string list" where
  "csr_attrs_strings a =
     key_strings (ac_KeyAlgorithm a) @ concat (map (\<lambda>x. [xc_OID x, xc_ValueHex x]) (ac_RequiredExtensions a)) @
     ac_ExtraOIDs a @ (case ac_Template a of None \<Rightarrow> [] | Some t \<Rightarrow> template_strings t)"

definition config_strings :: "config \<Rightarrow> string list" where
  "config_strings c =
     [cf_ListenAddr c, cf_ServerCertFile c, cf_ServerKeyFile c, cf_StoreDir c, cf_CABackend c, cf_CACertFile c, cf_CAKeyFile c] @
     cf_ClientCAFiles c @
     (case cf_OpenSSLCA c of None \<Rightarrow> []
      | Some oc \<Rightarrow> [os_OpenSSLPath oc, os_ConfigFile oc, os_ExtensionsSection oc]) @
     (case cf_EJBCACA c of None \<Rightarrow> []
      | Some e \<Rightarrow> [jc_BaseURL e, jc_ClientCertFile e, jc_ClientKeyFile e, jc_ServerCAFile e, jc_CAName e, jc_CASubjectDN e,
                   jc_CertificateProfileName e, jc_EndEntityProfileName e]) @
     (case cf_CSRAttrs c of None \<Rightarrow> [] | Some a \<Rightarrow> csr_attrs_strings a)"

lemma ascii_fraction: "is_fraction i m fr \<Longrightarrow> ascii fr"
  unfolding is_fraction_def using ascii_digit by (auto simp: list_all_iff) (simp add: byte_code_def)

lemma fmtFrac_utf8: "utf8_valid buf \<Longrightarrow> utf8_valid (case fmtFrac i False buf u of (b, v) \<Rightarrow> dec_nat v @ b)"
  using fmtFrac_fraction [of i buf u] ascii_fraction utf8_ascii [OF ascii_dec] utf8_ascii by fastforce

lemma unit_utf8: "utf8_valid ''s''" "utf8_valid ''ns''" "utf8_valid ''ms''" "utf8_valid [CHR 0xC2, CHR 0xB5, CHR ''s'']" "utf8_valid ''0s''"
  by (simp_all add: utf8_valid.simps [of "_ # _"] utf8_valid.simps [of "[]"] decode_rune.simps utf8_cont_def rune_error_def byte_code_def)

lemma Duration_utf8: "utf8_valid (Duration_String d)"
proof -
  have m: "utf8_valid (magnitude_text u)" for u
  proof (cases "u < 10 ^ 9")
    case True
    then show ?thesis
      using fmtFrac_utf8 [OF unit_utf8(2), of 0 u] fmtFrac_utf8 [OF unit_utf8(3), of 6 u] fmtFrac_utf8 [OF unit_utf8(4), of 3 u]
        unit_utf8(5)
      by (simp add: magnitude_text_def)
  next
    case False
    obtain fr where fr: "fmtFrac 9 False ''s'' u = (fr @ ''s'', u div 10 ^ 9)" "ascii fr"
      using fmtFrac_fraction [of 9 "''s''" u] ascii_fraction by blast
    have "ascii ''s''" "ascii ''m''" "ascii ''h''" by (simp_all add: byte_code_def)
    with ascii_dec fr(2) have "ascii (dec_nat i @ fr @ ''s'')" "ascii (dec_nat i @ ''m'' @ dec_nat j @ fr @ ''s'')"
      "ascii (dec_nat i @ ''h'' @ dec_nat j @ ''m'' @ dec_nat k @ fr @ ''s'')" for i j k
      by (simp_all only: list_all_append simp_thms)
    then show ?thesis using False by (simp add: magnitude_text_def fr(1) Let_def utf8_literal)
  qed
  have "utf8_valid (CHR ''-'' # t) = utf8_valid t" for t using utf8_ascii [of "''-''" t] by (simp add: byte_code_def)
  then show ?thesis using m by (simp add: Duration_String_text)
qed

text \<open>A configuration is within what the writer and the reader agree on.\<close>

lemma fits_members:
  "json_fits d (JObject ms) \<longleftrightarrow> 0 < d \<and> list_all (\<lambda>(k, j). utf8_valid k \<and> json_fits (d - 1) j) ms"
  "json_fits d (JArray js) \<longleftrightarrow> 0 < d \<and> list_all (json_fits (d - 1)) js"
  "list_all P (omit_if b k j) \<longleftrightarrow> b \<or> P (k, j)"
  by (auto simp: list_all_iff omit_if_def)

lemma list_all_concat: "list_all P (concat xss) = list_all (list_all P) xss"
  by (auto simp: list_all_iff)

lemmas text_defs = utf8_literal byte_code_def fits_members list_all_concat list.pred_map comp_def

lemma key_algorithm_text:
  "list_all utf8_valid (key_strings (Some k)) \<Longrightarrow> 0 < d \<Longrightarrow> json_fits d (key_algorithm_json k)"
  by (auto simp: key_strings_def key_algorithm_json_def text_defs simp del: json_fits.simps(3,4))

lemma rdn_text: "utf8_valid (rc_OID r) \<Longrightarrow> list_all utf8_valid (option_list (rc_Value r)) \<Longrightarrow> 0 < d \<Longrightarrow> json_fits d (rdn_json r)"
  by (cases "rc_Value r") (simp_all add: rdn_json_def option_list_def text_defs del: json_fits.simps(3,4))

lemma template_extension_text:
  "utf8_valid (tx_OID x) \<Longrightarrow> list_all utf8_valid (option_list (tx_ValueHex x)) \<Longrightarrow> 0 < d \<Longrightarrow>
     json_fits d (template_extension_json x)"
  by (cases "tx_ValueHex x")
    (simp_all add: template_extension_json_def option_list_def text_defs del: json_fits.simps(3,4))

lemma list_all_weaken: "list_all P xs \<Longrightarrow> (\<And>x. P x \<Longrightarrow> Q x) \<Longrightarrow> list_all Q xs"
  by (auto simp: list_all_iff)

lemma template_text:
  assumes "list_all utf8_valid (template_strings t)" "3 < d"
  shows "json_fits d (template_json t)"
proof -
  have r: "list_all (\<lambda>r. json_fits (d - 2) (rdn_json r)) (tc_Subject t)"
    by (rule list_all_weaken [where P = "\<lambda>r. utf8_valid (rc_OID r) \<and> list_all utf8_valid (option_list (rc_Value r))"])
      (use assms in \<open>auto simp: template_strings_def list_all_concat list.pred_map comp_def intro!: rdn_text\<close>)
  have x: "list_all (\<lambda>x. json_fits (d - 2) (template_extension_json x)) (tc_Extensions t)"
    by (rule list_all_weaken [where P = "\<lambda>x. utf8_valid (tx_OID x) \<and> list_all utf8_valid (option_list (tx_ValueHex x))"])
      (use assms in \<open>auto simp: template_strings_def list_all_concat list.pred_map comp_def intro!: template_extension_text\<close>)
  have k: "tc_KeyType t = Some k \<Longrightarrow> json_fits (d - 1) (key_algorithm_json k)" for k
    using assms by (intro key_algorithm_text) (simp_all add: template_strings_def)
  show ?thesis using r x k assms(2)
    by (cases "tc_KeyType t") (simp_all add: template_json_def text_defs del: json_fits.simps(3,4))
qed

lemma csr_attrs_text:
  assumes "list_all utf8_valid (csr_attrs_strings a)" "4 < d"
  shows "json_fits d (csr_attrs_json a)"
proof -
  have x: "list_all (\<lambda>x. json_fits (d - 2) (extension_json x)) (ac_RequiredExtensions a)"
    by (rule list_all_weaken [where P = "\<lambda>x. utf8_valid (xc_OID x) \<and> utf8_valid (xc_ValueHex x)"])
      (use assms in \<open>auto simp: csr_attrs_strings_def extension_json_def text_defs simp del: json_fits.simps(3,4)\<close>)
  have k: "ac_KeyAlgorithm a = Some k \<Longrightarrow> json_fits (d - 1) (key_algorithm_json k)" for k
    using assms by (intro key_algorithm_text) (simp_all add: csr_attrs_strings_def)
  have t: "ac_Template a = Some t \<Longrightarrow> json_fits (d - 1) (template_json t)" for t
    using assms by (intro template_text) (simp_all add: csr_attrs_strings_def)
  have "list_all utf8_valid (ac_ExtraOIDs a)" using assms(1) by (simp add: csr_attrs_strings_def)
  with x k t assms(2) show ?thesis
    by (cases "ac_KeyAlgorithm a"; cases "ac_Template a")
      (simp_all add: csr_attrs_json_def text_defs del: json_fits.simps(3,4))
qed

lemma config_text:
  assumes "list_all utf8_valid (config_strings c)"
  shows "json_fits 10000 (config_json c)"
proof -
  have a: "cf_CSRAttrs c \<noteq> None \<Longrightarrow> json_fits 9999 (csr_attrs_json (the (cf_CSRAttrs c)))"
    using assms by (intro csr_attrs_text) (auto simp: config_strings_def)
  have o: "cf_OpenSSLCA c \<noteq> None \<Longrightarrow> json_fits 9999 (openssl_json (the (cf_OpenSSLCA c)))"
    using assms by (auto simp: config_strings_def openssl_json_def text_defs simp del: json_fits.simps(3,4))
  have e: "cf_EJBCACA c \<noteq> None \<Longrightarrow> json_fits 9999 (ejbca_json (the (cf_EJBCACA c)))"
    using assms by (auto simp: config_strings_def ejbca_json_def text_defs simp del: json_fits.simps(3,4))
  have "list_all utf8_valid
      (cf_ClientCAFiles c @ [cf_ListenAddr c, cf_ServerCertFile c, cf_ServerKeyFile c, cf_StoreDir c, cf_CABackend c,
        cf_CACertFile c, cf_CAKeyFile c])"
    using assms by (simp add: config_strings_def)
  with a o e show ?thesis
    by (cases "cf_OpenSSLCA c"; cases "cf_EJBCACA c"; cases "cf_CSRAttrs c")
      (simp_all add: config_json_def Duration_MarshalJSON_def Duration_utf8 text_defs del: json_fits.simps(3,4))
qed

lemma Duration_roundtrip:
  "int64 d \<Longrightarrow> Duration_UnmarshalJSON (Duration_MarshalJSON d) (e, x) = Inr (e, d)"
  by (simp add: Duration_UnmarshalJSON_def Duration_MarshalJSON_def decode_string_def int64_def ParseDuration_String)

lemma decode_int_written [simp]: "int64 n \<Longrightarrow> decode_int (JNumber (int_text n)) (e, x) = Inr (e, n)"
  by (simp add: decode_int_def int64_def Atoi_int_text)

lemma decode_leaf [simp]:
  "decode_string (JString t) (e, x) = Inr (e, t)" "decode_bool (JBool b) (e, y) = Inr (e, b)"
  by (simp_all add: decode_string_def decode_bool_def)

lemma decode_ptr_written:
  "dec j (e, zero) = Inr (e, v) \<Longrightarrow> j \<noteq> JNull \<Longrightarrow> decode_ptr zero dec j (e, None) = Inr (e, Some v)"
  by (cases j) (simp_all add: decode_ptr_def)

lemmas written_defs = decode_struct_def json_field_def find_field_def omit_if_def decode_ptr_written

lemma decode_key_algorithm_json:
  "int64 (kc_RSAModulusBits k) \<Longrightarrow> decode_key_algorithm (key_algorithm_json k) (e, zero_key_algorithm) = Inr (e, k)"
  by (simp add: decode_key_algorithm_def key_algorithm_json_def zero_key_algorithm_def written_defs)

lemma decode_extension_json: "decode_extension (extension_json x) (e, zero_extension) = Inr (e, x)"
  by (simp add: decode_extension_def extension_json_def zero_extension_def written_defs)

lemma decode_rdn_json: "decode_rdn (rdn_json r) (e, zero_rdn) = Inr (e, r)"
  by (cases "rc_Value r") (simp_all add: decode_rdn_def rdn_json_def zero_rdn_def written_defs)

lemma decode_template_extension_json:
  "decode_template_extension (template_extension_json x) (e, zero_template_extension) = Inr (e, x)"
  by (cases "tx_ValueHex x")
    (simp_all add: decode_template_extension_def template_extension_json_def zero_template_extension_def written_defs)

lemma json_objects [simp]:
  "key_algorithm_json k \<noteq> JNull" "template_json t \<noteq> JNull" "openssl_json oc \<noteq> JNull" "ejbca_json j \<noteq> JNull"
  "csr_attrs_json a \<noteq> JNull"
  by (simp_all add: key_algorithm_json_def template_json_def openssl_json_def ejbca_json_def csr_attrs_json_def)

lemma decode_template_json:
  "key_fits (tc_KeyType t) \<Longrightarrow> decode_template (template_json t) (e, zero_template) = Inr (e, t)"
  by (cases "tc_KeyType t")
    (simp_all add: decode_template_def template_json_def zero_template_def written_defs key_fits_def
      decode_key_algorithm_json decode_slice_written decode_rdn_json decode_template_extension_json)

lemma decode_csr_attrs_json:
  "key_fits (ac_KeyAlgorithm a) \<Longrightarrow> (case ac_Template a of None \<Rightarrow> True | Some t \<Rightarrow> key_fits (tc_KeyType t)) \<Longrightarrow>
     decode_csr_attrs (csr_attrs_json a) (e, zero_csr_attrs) = Inr (e, a)"
  by (cases "ac_KeyAlgorithm a"; cases "ac_Template a")
    (simp_all add: decode_csr_attrs_def csr_attrs_json_def zero_csr_attrs_def written_defs key_fits_def
      decode_key_algorithm_json decode_slice_written decode_extension_json decode_template_json)

lemma decode_openssl_json: "decode_openssl (openssl_json oc) (e, zero_openssl) = Inr (e, oc)"
  by (simp add: decode_openssl_def openssl_json_def zero_openssl_def written_defs)

lemma decode_ejbca_json: "decode_ejbca (ejbca_json j) (e, zero_ejbca) = Inr (e, j)"
  by (simp add: decode_ejbca_def ejbca_json_def zero_ejbca_def written_defs)

lemma decode_config_json:
  assumes "config_fits c"
  shows "decode_config (config_json c) (e, zero_config) = Inr (e, c)"
proof -
  have t: "int64 (cf_CertValidity c)" using assms by (simp add: config_fits_def)
  have o: "cf_OpenSSLCA c \<noteq> None \<Longrightarrow> decode_ptr zero_openssl decode_openssl (openssl_json (the (cf_OpenSSLCA c))) (e, None)
      = Inr (e, cf_OpenSSLCA c)"
    by (auto intro!: decode_ptr_written decode_openssl_json)
  have j: "cf_EJBCACA c \<noteq> None \<Longrightarrow> decode_ptr zero_ejbca decode_ejbca (ejbca_json (the (cf_EJBCACA c))) (e, None)
      = Inr (e, cf_EJBCACA c)"
    by (auto intro!: decode_ptr_written decode_ejbca_json)
  have a: "cf_CSRAttrs c \<noteq> None \<Longrightarrow>
      decode_ptr zero_csr_attrs decode_csr_attrs (csr_attrs_json (the (cf_CSRAttrs c))) (e, None) = Inr (e, cf_CSRAttrs c)"
    using assms by (auto simp: config_fits_def intro!: decode_ptr_written decode_csr_attrs_json)
  note defs = decode_config_def config_json_def zero_config_def decode_struct_def
  show ?thesis
    unfolding defs json.case append_Cons
    by ((subst decode_member decode_omitted decode_last_omitted, simp add: find_field_def,
          simp add: decode_slice_written Duration_roundtrip t o j a, (simp; fail)?)+, simp)
qed

section \<open>Validation\<close>

text \<open>\<open>os.Stat\<close>.\<close>

definition os_Stat :: "string \<Rightarrow> (go_error option, 'z) os_call" where
  "os_Stat p w =
     (case os_fault w of
        Some e \<Rightarrow> (Some e, os_tick w)
      | None \<Rightarrow>
          (if w_files w p \<noteq> None \<or> p \<in> w_dirs w then None else Some (ErrVar ''os.ErrNotExist''), os_tick w))"

fun stat_all :: "string list \<Rightarrow> (go_error option, 'z) os_call" where
  "stat_all [] w = (None, w)"
| "stat_all (f # fs) w =
     (case os_Stat f w of
        (Some e, w) \<Rightarrow> (Some (ErrWrap ''config: %s: %w'' [FStr f] e), w)
      | (None, w) \<Rightarrow> stat_all fs w)"

text \<open>
  \<open>for field, value := range m\<close> stops at the first empty value in an order of its own: \<open>order\<close> puts the entries of
  the map in the order of this run.
\<close>

type_synonym map_order = "(string \<times> string) list \<Rightarrow> (string \<times> string) list"

definition missing_field :: "map_order \<Rightarrow> (string \<times> string) list \<Rightarrow> go_error option" where
  "missing_field order m =
     map_option (\<lambda>(f, _). ErrNew ''config: %s is required'' [FStr f]) (find (\<lambda>(_, v). v = []) (order m))"

definition config_error :: "string \<Rightarrow> go_error" where
  "config_error m = ErrNew m []"

text \<open>The \<open>switch\<close> on the backend: the configuration with its defaults, and the files to look for.\<close>

definition validate_backend ::
  "map_order \<Rightarrow> (string \<Rightarrow> go_error option) \<Rightarrow> config \<Rightarrow> string list \<Rightarrow> string list result \<times> config" where
  "validate_backend order look c files =
     (if cf_CABackend c = ''local'' then
        (if cf_CACertFile c = [] then
           (Inl (config_error ''config: ca_cert_file is required when ca_backend is \"local\"''), c)
         else if cf_CAKeyFile c = [] then
           (Inl (config_error ''config: ca_key_file is required when ca_backend is \"local\"''), c)
         else (Inr (files @ [cf_CACertFile c, cf_CAKeyFile c]), c))
      else if cf_CABackend c = ''openssl'' then
        (if cf_CACertFile c = [] then
           (Inl (config_error ''config: ca_cert_file is required when ca_backend is \"openssl\"''), c)
         else (case cf_OpenSSLCA c of
           None \<Rightarrow> (Inl (config_error ''config: openssl_ca is required when ca_backend is \"openssl\"''), c)
         | Some oc \<Rightarrow>
             if os_ConfigFile oc = [] then
               (Inl (config_error ''config: openssl_ca.config_file is required''), c)
             else
               (let oc = (if os_OpenSSLPath oc = [] then oc \<lparr> os_OpenSSLPath := ''openssl'' \<rparr> else oc);
                    oc = (if os_ExtensionsSection oc = [] then oc \<lparr> os_ExtensionsSection := ''est_extensions'' \<rparr> else oc);
                    c = c \<lparr> cf_OpenSSLCA := Some oc \<rparr>
                in case look (os_OpenSSLPath oc) of
                     Some e \<Rightarrow> (Inl (ErrWrap ''config: openssl_ca.openssl_path: %w'' [] e), c)
                   | None \<Rightarrow> (Inr (files @ [cf_CACertFile c] @ [os_ConfigFile oc]), c))))
      else if cf_CABackend c = ''ejbca'' then
        (case cf_EJBCACA c of
           None \<Rightarrow> (Inl (config_error ''config: ejbca_ca is required when ca_backend is \"ejbca\"''), c)
         | Some e \<Rightarrow>
             (case missing_field order
                [(''ejbca_ca.base_url'', jc_BaseURL e), (''ejbca_ca.client_cert_file'', jc_ClientCertFile e),
                 (''ejbca_ca.client_key_file'', jc_ClientKeyFile e), (''ejbca_ca.ca_name'', jc_CAName e),
                 (''ejbca_ca.ca_subject_dn'', jc_CASubjectDN e),
                 (''ejbca_ca.certificate_profile_name'', jc_CertificateProfileName e),
                 (''ejbca_ca.end_entity_profile_name'', jc_EndEntityProfileName e)] of
                Some err \<Rightarrow> (Inl err, c)
              | None \<Rightarrow>
                  (Inr (files @ [jc_ClientCertFile e, jc_ClientKeyFile e] @
                        (if jc_ServerCAFile e \<noteq> [] then [jc_ServerCAFile e] else [])), c)))
      else (Inr files, c))"

text \<open>\<open>Validate\<close> works on the receiver's fields, so it returns the changed configuration with its error.\<close>

definition Validate ::
  "map_order \<Rightarrow> (string \<Rightarrow> go_error option) \<Rightarrow> config \<Rightarrow> (go_error option \<times> config, 'z) os_call" where
  "Validate order look c w =
     (let c = (if cf_CABackend c = [] then c \<lparr> cf_CABackend := ''local'' \<rparr> else c) in
      if cf_CABackend c \<notin> {''local'', ''openssl'', ''ejbca''}
      then ((Some (ErrNew ''config: ca_backend must be \"local\", \"openssl\", or \"ejbca\", got %q'' [FStr (cf_CABackend c)]), c), w)
      else
     (case missing_field order
             [(''listen_addr'', cf_ListenAddr c), (''server_cert_file'', cf_ServerCertFile c),
              (''server_key_file'', cf_ServerKeyFile c), (''store_dir'', cf_StoreDir c)] of
        Some e \<Rightarrow> ((Some e, c), w)
      | None \<Rightarrow>
          if length (cf_ClientCAFiles c) = 0
          then ((Some (config_error ''config: client_ca_files must contain at least one CA bundle''), c), w)
          else if cf_CertValidity c \<le> 0
          then ((Some (config_error ''config: cert_validity must be a positive duration''), c), w)
          else
     (case validate_backend order look c ([cf_ServerCertFile c, cf_ServerKeyFile c] @ cf_ClientCAFiles c) of
        (Inl e, c) \<Rightarrow> ((Some e, c), w)
      | (Inr files, c) \<Rightarrow> (case stat_all files w of (r, w) \<Rightarrow> ((r, c), w)))))"

section \<open>What is accepted\<close>

text \<open>The order is one of the entries the map has.\<close>

definition map_range :: "map_order \<Rightarrow> bool" where
  "map_range order \<longleftrightarrow> (\<forall>m. set (order m) = set m)"

lemma missing_field_None: "map_range order \<Longrightarrow> missing_field order m = None \<longleftrightarrow> (\<forall>(f, v)\<in>set m. v \<noteq> [])"
  unfolding map_range_def missing_field_def by (auto simp: find_None_iff)

text \<open>The defaults.\<close>

definition default_backend :: "config \<Rightarrow> config" where
  "default_backend c = (if cf_CABackend c = [] then c \<lparr> cf_CABackend := ''local'' \<rparr> else c)"

definition with_defaults :: "config \<Rightarrow> config" where
  "with_defaults c =
     (let c = default_backend c in
      if cf_CABackend c = ''openssl''
      then c \<lparr> cf_OpenSSLCA := map_option (\<lambda>oc.
             oc \<lparr> os_OpenSSLPath := if os_OpenSSLPath oc = [] then ''openssl'' else os_OpenSSLPath oc,
                 os_ExtensionsSection := if os_ExtensionsSection oc = [] then ''est_extensions'' else os_ExtensionsSection oc \<rparr>)
             (cf_OpenSSLCA c) \<rparr>
      else c)"

text \<open>What must be set, over the configuration with its defaults.\<close>

definition backend_complete :: "config \<Rightarrow> bool" where
  "backend_complete c \<longleftrightarrow>
     cf_CABackend c = ''local'' \<and> cf_CACertFile c \<noteq> [] \<and> cf_CAKeyFile c \<noteq> [] \<or>
     cf_CABackend c = ''openssl'' \<and> cf_CACertFile c \<noteq> [] \<and>
       (\<exists>oc. cf_OpenSSLCA c = Some oc \<and> os_ConfigFile oc \<noteq> []) \<or>
     cf_CABackend c = ''ejbca'' \<and>
       (\<exists>e. cf_EJBCACA c = Some e \<and> jc_BaseURL e \<noteq> [] \<and> jc_ClientCertFile e \<noteq> [] \<and> jc_ClientKeyFile e \<noteq> [] \<and>
            jc_CAName e \<noteq> [] \<and> jc_CASubjectDN e \<noteq> [] \<and> jc_CertificateProfileName e \<noteq> [] \<and>
            jc_EndEntityProfileName e \<noteq> [])"

definition complete :: "config \<Rightarrow> bool" where
  "complete c \<longleftrightarrow>
     cf_ListenAddr c \<noteq> [] \<and> cf_ServerCertFile c \<noteq> [] \<and> cf_ServerKeyFile c \<noteq> [] \<and> cf_StoreDir c \<noteq> [] \<and>
     cf_ClientCAFiles c \<noteq> [] \<and> 0 < cf_CertValidity c \<and> backend_complete c"

text \<open>The files that must exist.\<close>

definition backend_files :: "config \<Rightarrow> string list" where
  "backend_files c =
     (if cf_CABackend c = ''local'' then [cf_CACertFile c, cf_CAKeyFile c]
      else if cf_CABackend c = ''openssl'' then [cf_CACertFile c, os_ConfigFile (the (cf_OpenSSLCA c))]
      else (let e = the (cf_EJBCACA c) in [jc_ClientCertFile e, jc_ClientKeyFile e] @
              (if jc_ServerCAFile e = [] then [] else [jc_ServerCAFile e])))"

definition named_files :: "config \<Rightarrow> string list" where
  "named_files c = [cf_ServerCertFile c, cf_ServerKeyFile c] @ cf_ClientCAFiles c @ backend_files c"

definition tool_found :: "(string \<Rightarrow> go_error option) \<Rightarrow> config \<Rightarrow> bool" where
  "tool_found look c = (cf_CABackend c = ''openssl'' \<longrightarrow> look (os_OpenSSLPath (the (cf_OpenSSLCA c))) = None)"

lemma validate_local:
  "cf_CABackend c = ''local'' \<Longrightarrow> validate_backend order look c files = (Inr fs, c') \<longleftrightarrow>
     c' = c \<and> cf_CACertFile c \<noteq> [] \<and> cf_CAKeyFile c \<noteq> [] \<and> fs = files @ backend_files c"
  by (auto simp: validate_backend_def backend_files_def)

lemma openssl_branch:
  assumes "cf_CABackend c = ''openssl''" "cf_OpenSSLCA c = Some oc"
  shows "\<exists>e1 e2 oc'. cf_OpenSSLCA (with_defaults c) = Some oc' \<and> os_ConfigFile oc' = os_ConfigFile oc \<and>
    backend_files (with_defaults c) = [cf_CACertFile c, os_ConfigFile oc] \<and>
    validate_backend order look c files =
     (if cf_CACertFile c = [] then (Inl e1, c)
      else if os_ConfigFile oc = [] then (Inl e2, c)
      else (case look (os_OpenSSLPath oc') of
              Some e \<Rightarrow> (Inl (ErrWrap ''config: openssl_ca.openssl_path: %w'' [] e), with_defaults c)
            | None \<Rightarrow> (Inr (files @ backend_files (with_defaults c)), with_defaults c)))"
  by (cases "os_OpenSSLPath oc = []"; cases "os_ExtensionsSection oc = []")
    (simp_all add: assms validate_backend_def with_defaults_def default_backend_def backend_files_def Let_def split: option.split)

lemma validate_openssl:
  assumes "cf_CABackend c = ''openssl''"
  shows "validate_backend order look c files = (Inr fs, c') \<longleftrightarrow>
     c' = with_defaults c \<and> cf_CACertFile c \<noteq> [] \<and> (\<exists>oc. cf_OpenSSLCA c = Some oc \<and> os_ConfigFile oc \<noteq> []) \<and>
     tool_found look c' \<and> fs = files @ backend_files c'"
proof (cases "cf_OpenSSLCA c")
  case None
  then show ?thesis using assms by (simp add: validate_backend_def)
next
  case (Some oc)
  have b: "cf_CABackend (with_defaults c) = ''openssl''" using assms by (simp add: with_defaults_def default_backend_def)
  from openssl_branch [OF assms Some, of order look files] obtain e1 e2 oc' where o:
    "cf_OpenSSLCA (with_defaults c) = Some oc'"
    "validate_backend order look c files =
     (if cf_CACertFile c = [] then (Inl e1, c) else if os_ConfigFile oc = [] then (Inl e2, c)
      else (case look (os_OpenSSLPath oc') of
              Some e \<Rightarrow> (Inl (ErrWrap ''config: openssl_ca.openssl_path: %w'' [] e), with_defaults c)
            | None \<Rightarrow> (Inr (files @ backend_files (with_defaults c)), with_defaults c)))" by blast
  then have "tool_found look (with_defaults c) = (look (os_OpenSSLPath oc') = None)" using b by (simp add: tool_found_def)
  with o(2) Some show ?thesis by (cases "look (os_OpenSSLPath oc')") auto
qed

lemma validate_ejbca:
  assumes "cf_CABackend c = ''ejbca''" "map_range order"
  shows "validate_backend order look c files = (Inr fs, c') \<longleftrightarrow>
     c' = c \<and> backend_complete c \<and> fs = files @ backend_files c"
proof (cases "cf_EJBCACA c")
  case None
  then show ?thesis using assms by (simp add: validate_backend_def backend_complete_def)
next
  case (Some e)
  let ?m = "[(''ejbca_ca.base_url'', jc_BaseURL e), (''ejbca_ca.client_cert_file'', jc_ClientCertFile e),
    (''ejbca_ca.client_key_file'', jc_ClientKeyFile e), (''ejbca_ca.ca_name'', jc_CAName e),
    (''ejbca_ca.ca_subject_dn'', jc_CASubjectDN e), (''ejbca_ca.certificate_profile_name'', jc_CertificateProfileName e),
    (''ejbca_ca.end_entity_profile_name'', jc_EndEntityProfileName e)]"
  have "missing_field order ?m = None \<longleftrightarrow> backend_complete c"
    using Some assms by (simp add: missing_field_None backend_complete_def)
  with Some assms(1) show ?thesis
    by (cases "missing_field order ?m") (auto simp: validate_backend_def backend_files_def Let_def)
qed

lemma with_defaults_simps:
  "cf_CABackend c = ''openssl'' \<Longrightarrow> cf_CABackend (with_defaults c) = ''openssl''"
  "cf_CABackend c \<noteq> ''openssl'' \<Longrightarrow> cf_CABackend c \<noteq> [] \<Longrightarrow> with_defaults c = c"
  by (simp_all add: with_defaults_def default_backend_def)

lemma validate_backend_iff:
  assumes "map_range order" "cf_CABackend c \<in> {''local'', ''openssl'', ''ejbca''}"
  shows "validate_backend order look c files = (Inr fs, c') \<longleftrightarrow>
     c' = with_defaults c \<and> backend_complete c' \<and> tool_found look c' \<and> fs = files @ backend_files c'"
proof -
  consider "cf_CABackend c = ''local''" | "cf_CABackend c = ''openssl''" | "cf_CABackend c = ''ejbca''" using assms(2) by blast
  then show ?thesis
  proof cases
    case 1
    then have "backend_complete c = (cf_CACertFile c \<noteq> [] \<and> cf_CAKeyFile c \<noteq> [])" "tool_found look c" "with_defaults c = c"
      using with_defaults_simps(2) by (simp_all add: backend_complete_def tool_found_def)
    with validate_local [OF 1] show ?thesis by metis
  next
    case 2
    have "cf_OpenSSLCA (with_defaults c) = None" if "cf_OpenSSLCA c = None"
      using 2 that by (simp add: with_defaults_def default_backend_def)
    moreover have "os_ConfigFile (the (cf_OpenSSLCA (with_defaults c))) = os_ConfigFile oc" "cf_OpenSSLCA (with_defaults c) \<noteq> None"
      if "cf_OpenSSLCA c = Some oc" for oc using openssl_branch [OF 2 that, of order look files] by (metis option.sel, metis option.distinct(1))
    moreover have "cf_CACertFile (with_defaults c) = cf_CACertFile c" using 2 by (simp add: with_defaults_def default_backend_def)
    ultimately have "backend_complete (with_defaults c) =
        (cf_CACertFile c \<noteq> [] \<and> (\<exists>oc. cf_OpenSSLCA c = Some oc \<and> os_ConfigFile oc \<noteq> []))"
      using with_defaults_simps(1) [OF 2] by (cases "cf_OpenSSLCA c") (auto simp: backend_complete_def)
    with validate_openssl [OF 2, of order look files fs c'] show ?thesis by metis
  next
    case 3
    then have "tool_found look c" "with_defaults c = c" using with_defaults_simps(2) by (simp_all add: tool_found_def)
    with validate_ejbca [OF 3 assms(1)] show ?thesis by metis
  qed
qed

lemma validate_backend_defaults:
  assumes "validate_backend order look c files = (r, c')"
  shows "c' = c \<or> c' = with_defaults c"
proof (cases "cf_CABackend c = ''openssl''")
  case True
  show ?thesis
  proof (cases "cf_OpenSSLCA c")
    case None
    then show ?thesis using assms True by (simp add: validate_backend_def split: if_splits)
  next
    case (Some oc)
    from openssl_branch [OF True Some, of order look files] assms show ?thesis
      by (auto split: if_splits option.splits)
  qed
next
  case False
  then show ?thesis using assms by (simp add: validate_backend_def split: option.splits if_splits)
qed

section \<open>Properties\<close>

definition path_present :: "'z os_world_scheme \<Rightarrow> string \<Rightarrow> bool" where
  "path_present w p \<longleftrightarrow> w_files w p \<noteq> None \<or> p \<in> w_dirs w"

lemma os_Stat_cases:
  assumes "os_Stat p w = (r, w')"
  shows "w' = os_tick w" "r = None \<Longrightarrow> path_present w p" "no_faults w \<Longrightarrow> path_present w p \<Longrightarrow> r = None"
  using assms by (auto simp: os_Stat_def path_present_def no_faults_def os_fault_def split: option.splits if_splits)

lemma present_tick [simp]:
  "path_present (os_tick w) p = path_present w p" "no_faults (os_tick w) = no_faults w"
  "w_files (os_tick w) = w_files w" "w_dirs (os_tick w) = w_dirs w" "w_env (os_tick w) = w_env w"
  by (simp_all add: path_present_def no_faults_def os_tick_def)

lemma stat_all_cases:
  "stat_all fs w = (r, w') \<Longrightarrow>
     (r = None \<longrightarrow> (\<forall>f\<in>set fs. path_present w f)) \<and>
     (no_faults w \<longrightarrow> (\<forall>f\<in>set fs. path_present w f) \<longrightarrow> r = None) \<and>
     w_files w' = w_files w \<and> w_dirs w' = w_dirs w \<and> w_env w' = w_env w"
proof (induction fs arbitrary: w)
  case (Cons f fs)
  obtain r1 w1 where s: "os_Stat f w = (r1, w1)" by fastforce
  note c = os_Stat_cases [OF s]
  show ?case
  proof (cases r1)
    case None
    with Cons.prems s have "stat_all fs (os_tick w) = (r, w')" using c(1) by simp
    from Cons.IH [OF this] c(2) [OF None] show ?thesis by simp
  next
    case (Some e)
    with Cons.prems s c show ?thesis by auto
  qed
qed simp

lemma default_fields:
  "with_defaults (default_backend c) = with_defaults c"
  "cf_ListenAddr (with_defaults c) = cf_ListenAddr (default_backend c)"
  "cf_ServerCertFile (with_defaults c) = cf_ServerCertFile (default_backend c)"
  "cf_ServerKeyFile (with_defaults c) = cf_ServerKeyFile (default_backend c)"
  "cf_StoreDir (with_defaults c) = cf_StoreDir (default_backend c)"
  "cf_ClientCAFiles (with_defaults c) = cf_ClientCAFiles (default_backend c)"
  "cf_CertValidity (with_defaults c) = cf_CertValidity (default_backend c)"
  "cf_CABackend (with_defaults c) = cf_CABackend (default_backend c)"
  by (simp_all add: with_defaults_def default_backend_def)

lemma with_defaults_idem: "with_defaults (with_defaults c) = with_defaults c"
  by (cases "cf_OpenSSLCA c") (auto simp: with_defaults_def default_backend_def)

definition basic_checks :: "map_order \<Rightarrow> config \<Rightarrow> bool" where
  "basic_checks order b \<longleftrightarrow>
     cf_CABackend b \<in> {''local'', ''openssl'', ''ejbca''} \<and>
     missing_field order
       [(''listen_addr'', cf_ListenAddr b), (''server_cert_file'', cf_ServerCertFile b),
        (''server_key_file'', cf_ServerKeyFile b), (''store_dir'', cf_StoreDir b)] = None \<and>
     cf_ClientCAFiles b \<noteq> [] \<and> 0 < cf_CertValidity b"

lemma complete_defaults:
  assumes "map_range order"
  shows "complete (with_defaults c) \<longleftrightarrow> basic_checks order (default_backend c) \<and> backend_complete (with_defaults c)"
  unfolding complete_def backend_complete_def basic_checks_def default_fields missing_field_None [OF assms] by auto

lemma Validate_steps:
  "Validate order look c w =
     (let b = default_backend c in
      if basic_checks order b
      then (case validate_backend order look b ([cf_ServerCertFile b, cf_ServerKeyFile b] @ cf_ClientCAFiles b) of
              (Inl e, c) \<Rightarrow> ((Some e, c), w)
            | (Inr files, c) \<Rightarrow> (case stat_all files w of (r, w) \<Rightarrow> ((r, c), w)))
      else Validate order look c w)"
  unfolding Validate_def Let_def default_backend_def [symmetric] basic_checks_def by simp

lemma Validate_checks: "\<not> basic_checks order (default_backend c) \<Longrightarrow> \<exists>e b. Validate order look c w = ((Some e, b), w)"
  unfolding Validate_def Let_def default_backend_def [symmetric] basic_checks_def by (auto split: option.split)

lemma Validate_same: "Validate order look c w = (r, w') \<Longrightarrow> w_files w' = w_files w \<and> w_dirs w' = w_dirs w"
  by (auto simp: Validate_def Let_def split: prod.splits sum.splits option.splits if_splits dest!: stat_all_cases)

text \<open>Success, in one line: everything but \<open>Stat\<close>.\<close>

lemma Validate_success:
  assumes order: "map_range order"
  shows "Validate order look c w = ((None, c'), w') \<longleftrightarrow>
     c' = with_defaults c \<and> complete c' \<and> tool_found look c' \<and> stat_all (named_files c') w = (None, w')"
proof (cases "basic_checks order (default_backend c)")
  case False
  then show ?thesis using Validate_checks [OF False, of look w] complete_defaults [OF order, of c] by auto
next
  case True
  let ?b = "default_backend c" and ?d = "with_defaults c"
  let ?files = "[cf_ServerCertFile ?b, cf_ServerKeyFile ?b] @ cf_ClientCAFiles ?b"
  have "cf_CABackend ?b \<in> {''local'', ''openssl'', ''ejbca''}" using True unfolding basic_checks_def by blast
  note iff = validate_backend_iff [OF order this, of look ?files, unfolded default_fields(1)]
  note v = Validate_steps [of order look c w, unfolded Let_def if_P [OF True]]
  have nf: "named_files ?d = ?files @ backend_files ?d" by (simp add: named_files_def default_fields)
  have cc: "complete ?d = backend_complete ?d" using True complete_defaults [OF order] by blast
  obtain r c1 where vb: "validate_backend order look ?b ?files = (r, c1)" by fastforce
  show ?thesis
  proof (cases r)
    case (Inl e)
    have "\<not> (backend_complete ?d \<and> tool_found look ?d)" using iff [of "?files @ backend_files ?d" ?d] vb Inl by auto
    with v vb Inl cc show ?thesis by auto
  next
    case (Inr fs)
    with vb have "validate_backend order look ?b ?files = (Inr fs, c1)" by simp
    from iffD1 [OF iff this] v vb Inr cc nf show ?thesis by (auto split: prod.splits)
  qed
qed

lemma load_written:
  assumes "config_fits c" "list_all utf8_valid (config_strings c)"
    "os_fault w = None" "w_files w path = Some f" "f_data f = bytes_of (json_text (config_json c))"
  shows "Load path w = (Inr c, os_tick w)"
  using assms json_parse_text [OF config_text [OF assms(2)]]
  by (simp add: Load_def os_ReadFile_def json_Unmarshal_def decode_config_json)

text \<open>
  C16: \<open>Load\<close> reads back a configuration whose file holds the JSON text of its tags: every optional section and
  omitted field, the duration and all escapes of the strings included, as long as the integers fit 64 bits and the
  strings are UTF-8.
\<close>

theorem config_written_read:
  assumes "config_fits c" "list_all utf8_valid (config_strings c)"
    "os_fault w = None" "w_files w path = Some f" "f_data f = bytes_of (json_text (config_json c))"
  shows "Load path w = (Inr c, os_tick w)"
  by (rule load_written [OF assms])

definition demo_config :: config where
  "demo_config = zero_config \<lparr> cf_ListenAddr := '':8443'', cf_ServerCertFile := ''s.crt'', cf_ServerKeyFile := ''s.key'',
     cf_ClientCAFiles := [''c.pem''], cf_StoreDir := ''store'', cf_CertValidity := 3600000000000,
     cf_CABackend := ''openssl'', cf_CACertFile := ''ca.pem'',
     cf_OpenSSLCA := Some (zero_openssl \<lparr> os_ConfigFile := ''ca.cnf'' \<rparr>),
     cf_CSRAttrs := Some (zero_csr_attrs \<lparr> ac_ChallengePassword := True, ac_ExtraOIDs := [''1.2.840''],
       ac_KeyAlgorithm := Some (zero_key_algorithm \<lparr> kc_OID := ''1.2'', kc_RSAModulusBits := 4096 \<rparr>) \<rparr>) \<rparr>"

definition config_world :: os_world where
  "config_world = \<lparr> w_files = (\<lambda>p. if p \<in> set [''s.crt'', ''s.key'', ''c.pem'', ''ca.pem'', ''ca.cnf'']
       then Some \<lparr> f_data = [], f_perm = perm_600 \<rparr> else None), w_dirs = {}, w_tick = 0,
     w_env = quiet_env \<rparr>"

lemma config_world_simps:
  "w_files config_world p = (if p \<in> set [''s.crt'', ''s.key'', ''c.pem'', ''ca.pem'', ''ca.cnf'']
     then Some \<lparr> f_data = [], f_perm = perm_600 \<rparr> else None)"
  "os_fault config_world = None" "no_faults config_world"
  by (simp_all add: config_world_def quiet_env_def os_fault_def no_faults_def)

lemma demo_config_fits: "config_fits demo_config"
  by (simp add: config_fits_def demo_config_def zero_config_def zero_csr_attrs_def zero_key_algorithm_def key_fits_def int64_def)

definition written_world :: os_world where
  "written_world = config_world \<lparr> w_files := (\<lambda>_. Some \<lparr> f_data = bytes_of (json_text (config_json demo_config)),
     f_perm = perm_600 \<rparr>) \<rparr>"

lemma written_world_file:
  "os_fault written_world = None"
  "w_files written_world p = Some \<lparr> f_data = bytes_of (json_text (config_json demo_config)), f_perm = perm_600 \<rparr>"
  by (simp_all add: written_world_def config_world_def quiet_env_def os_fault_def)

lemma demo_config_strings: "list_all utf8_valid (config_strings demo_config)"
  by (simp add: demo_config_def zero_config_def zero_csr_attrs_def zero_key_algorithm_def zero_openssl_def
      config_strings_def csr_attrs_strings_def key_strings_def utf8_literal byte_code_def)

lemma config_written_read_witness: "\<exists>w'. Load ''estd.json'' written_world = (Inr demo_config, w')"
  by (rule exI, rule config_written_read [OF demo_config_fits demo_config_strings written_world_file]) simp

text \<open>
  C15: Exactly which configurations \<open>Validate\<close> accepts when the system calls work: with the defaults filled in, the
  fields the chosen backend needs are set, the openssl binary is found and every file that is named exists; and the
  configuration it leaves is the one with the defaults.
\<close>

theorem validate_exact:
  assumes "map_range order" "no_faults w"
  shows "(\<exists>w'. Validate order look c w = ((None, c'), w')) \<longleftrightarrow>
     c' = with_defaults c \<and> complete c' \<and> tool_found look c' \<and> list_all (path_present w) (named_files c')"
proof -
  obtain r w' where s: "stat_all (named_files c') w = (r, w')" by fastforce
  show ?thesis
    using stat_all_cases [OF s] s assms(2) unfolding Validate_success [OF assms(1)] list_all_iff by auto
qed

lemma demo_defaults:
  "with_defaults demo_config = demo_config \<lparr> cf_OpenSSLCA := Some \<lparr> os_OpenSSLPath = ''openssl'', os_ConfigFile = ''ca.cnf'',
     os_ExtensionsSection = ''est_extensions'' \<rparr> \<rparr>"
  by (simp add: with_defaults_def default_backend_def demo_config_def zero_config_def zero_openssl_def)

lemma demo_accepted:
  "complete (with_defaults demo_config)" "tool_found (\<lambda>_. None) (with_defaults demo_config)"
  "list_all (path_present config_world) (named_files (with_defaults demo_config))"
  unfolding demo_defaults
  by (simp_all add: complete_def backend_complete_def tool_found_def named_files_def backend_files_def demo_config_def
      zero_config_def path_present_def config_world_simps)

lemma map_range_refl [simp]: "map_range (\<lambda>m. m)"
  by (simp add: map_range_def)

lemma validate_exact_witness:
  "\<exists>w'. Validate (\<lambda>m. m) (\<lambda>_. None) demo_config config_world = ((None, with_defaults demo_config), w')"
  using validate_exact [of "\<lambda>m. m" config_world "\<lambda>_. None" demo_config "with_defaults demo_config"] demo_accepted
  by (simp add: config_world_simps)

text \<open>
  Whatever the system calls do, a configuration that passed \<open>Validate\<close> is complete and names only files that were
  there; validating it changed no file; the result is the same for every order in which \<open>range\<close> visits the maps; and
  it has its defaults, so that validating once more changes nothing.
\<close>

lemma validate_sound:
  assumes "map_range order" "Validate order look c w = ((None, c'), w')" "map_range order'"
  shows "complete c' \<and> tool_found look c' \<and> list_all (path_present w) (named_files c') \<and>
     w_files w' = w_files w \<and> w_dirs w' = w_dirs w \<and>
     Validate order' look c w = ((None, c'), w') \<and> with_defaults c' = c'"
proof -
  note s = assms(2) [unfolded Validate_success [OF assms(1)]]
  from s stat_all_cases [of "named_files c'" w None w'] with_defaults_idem show ?thesis
    unfolding Validate_success [OF assms(3)] list_all_iff by auto
qed

lemma map_range_rev [simp]: "map_range rev"
  by (simp add: map_range_def)

lemma demo_validated:
  "\<exists>w'. Validate (\<lambda>m. m) (\<lambda>_. None) demo_config config_world = ((None, with_defaults demo_config), w')"
proof -
  obtain r w' where s: "stat_all (named_files (with_defaults demo_config)) config_world = (r, w')" by fastforce
  with stat_all_cases [OF s] demo_accepted show ?thesis
    unfolding Validate_success [OF map_range_refl] list_all_iff by (auto simp: config_world_simps)
qed

end
