(* ===== verification/Config_Types.thy ===== *)
theory Config_Types
  imports Config
begin

text \<open>
  The types of \<open>internal/config\<close>: whatever bytes the configuration file holds, a configuration that \<open>Load\<close>
  returns is made of 64-bit integers and UTF-8 strings, so that it can be written and read back.
\<close>

section \<open>The types of the structs\<close>

definition typed_key_algorithm :: "key_algorithm_config \<Rightarrow> bool" where
  "typed_key_algorithm k \<longleftrightarrow> list_all utf8_valid [kc_OID k, kc_CurveOID k] \<and> int64 (kc_RSAModulusBits k)"

definition typed_extension :: "extension_config \<Rightarrow> bool" where
  "typed_extension x \<longleftrightarrow> list_all utf8_valid [xc_OID x, xc_ValueHex x]"

definition typed_rdn :: "rdn_config \<Rightarrow> bool" where
  "typed_rdn r \<longleftrightarrow> utf8_valid (rc_OID r) \<and> pred_option utf8_valid (rc_Value r)"

definition typed_template_extension :: "template_extension_config \<Rightarrow> bool" where
  "typed_template_extension x \<longleftrightarrow> utf8_valid (tx_OID x) \<and> pred_option utf8_valid (tx_ValueHex x)"

definition typed_template :: "template_config \<Rightarrow> bool" where
  "typed_template t \<longleftrightarrow> list_all typed_rdn (tc_Subject t) \<and> pred_option typed_key_algorithm (tc_KeyType t) \<and>
     list_all typed_template_extension (tc_Extensions t)"

definition typed_csr_attrs :: "csr_attrs_config \<Rightarrow> bool" where
  "typed_csr_attrs a \<longleftrightarrow> pred_option typed_key_algorithm (ac_KeyAlgorithm a) \<and>
     list_all typed_extension (ac_RequiredExtensions a) \<and> list_all utf8_valid (ac_ExtraOIDs a) \<and>
     pred_option typed_template (ac_Template a)"

definition typed_openssl :: "openssl_config \<Rightarrow> bool" where
  "typed_openssl oc \<longleftrightarrow> list_all utf8_valid [os_OpenSSLPath oc, os_ConfigFile oc, os_ExtensionsSection oc]"

definition typed_ejbca :: "ejbca_config \<Rightarrow> bool" where
  "typed_ejbca e \<longleftrightarrow> list_all utf8_valid
     [jc_BaseURL e, jc_ClientCertFile e, jc_ClientKeyFile e, jc_ServerCAFile e, jc_CAName e, jc_CASubjectDN e,
      jc_CertificateProfileName e, jc_EndEntityProfileName e]"

definition typed_config :: "config \<Rightarrow> bool" where
  "typed_config c \<longleftrightarrow> list_all utf8_valid
     [cf_ListenAddr c, cf_ServerCertFile c, cf_ServerKeyFile c, cf_StoreDir c, cf_CABackend c, cf_CACertFile c, cf_CAKeyFile c] \<and>
     list_all utf8_valid (cf_ClientCAFiles c) \<and> int64 (cf_CertValidity c) \<and> pred_option typed_openssl (cf_OpenSSLCA c) \<and>
     pred_option typed_ejbca (cf_EJBCACA c) \<and> pred_option typed_csr_attrs (cf_CSRAttrs c)"

lemma utf8_Nil [simp]: "utf8_valid []"
  by (simp add: utf8_valid.simps)

lemma int64_0 [simp]: "int64 0"
  by (simp add: int64_def)

lemma zero_typed:
  "typed_key_algorithm zero_key_algorithm" "typed_extension zero_extension" "typed_rdn zero_rdn"
  "typed_template_extension zero_template_extension" "typed_template zero_template" "typed_csr_attrs zero_csr_attrs"
  "typed_openssl zero_openssl" "typed_ejbca zero_ejbca" "typed_config zero_config"
  by (simp_all add: typed_key_algorithm_def typed_extension_def typed_rdn_def typed_template_extension_def
      typed_template_def typed_csr_attrs_def typed_openssl_def typed_ejbca_def typed_config_def zero_key_algorithm_def
      zero_extension_def zero_rdn_def zero_template_extension_def zero_template_def zero_csr_attrs_def zero_openssl_def
      zero_ejbca_def zero_config_def)

section \<open>Every decoder keeps its type\<close>

lemma parse_terms_bound: "parse_terms orig d s = Inr n \<Longrightarrow> d \<le> 2 ^ 63 \<Longrightarrow> n \<le> 2 ^ 63"
proof (induction orig d s rule: parse_terms.induct)
  case (1 orig d s)
  then show ?case
    by (subst (asm) parse_terms.simps) (auto simp: Let_def split: if_splits sum.splits)
qed

lemma ParseDuration_int64: "ParseDuration t = Inr d \<Longrightarrow> int64 d"
  using parse_terms_bound [of t 0]
  by (auto simp: ParseDuration_def int64_def Let_def split: if_splits sum.splits)

lemma keeps_duration: "keeps_type int64 Duration_UnmarshalJSON"
  by (rule keeps_typeI) (auto simp: Duration_UnmarshalJSON_def dest: ParseDuration_int64 split: sum.splits option.splits)

lemma keeps_key_algorithm: "keeps_type typed_key_algorithm decode_key_algorithm"
  unfolding decode_key_algorithm_def
  by (rule keeps_struct)
    (auto intro!: keeps_field [OF keeps_string] keeps_field [OF keeps_int] simp: typed_key_algorithm_def)

lemma keeps_extension: "keeps_type typed_extension decode_extension"
  unfolding decode_extension_def
  by (rule keeps_struct)
    (auto intro!: keeps_field [OF keeps_string] keeps_field [OF keeps_bool] simp: typed_extension_def)

lemma keeps_rdn: "keeps_type typed_rdn decode_rdn"
  unfolding decode_rdn_def
  by (rule keeps_struct)
    (auto intro!: keeps_field [OF keeps_string] keeps_field [OF keeps_ptr [OF keeps_string]] simp: typed_rdn_def)

lemma keeps_template_extension: "keeps_type typed_template_extension decode_template_extension"
  unfolding decode_template_extension_def
  by (rule keeps_struct)
    (auto intro!: keeps_field [OF keeps_string] keeps_field [OF keeps_bool] keeps_field [OF keeps_ptr [OF keeps_string]]
      simp: typed_template_extension_def)

lemma keeps_template: "keeps_type typed_template decode_template"
  unfolding decode_template_def
  by (rule keeps_struct)
    (auto intro!: keeps_field [OF keeps_slice [OF keeps_rdn]] keeps_field [OF keeps_ptr [OF keeps_key_algorithm]]
      keeps_field [OF keeps_slice [OF keeps_template_extension]] simp: typed_template_def zero_typed)

lemma keeps_csr_attrs: "keeps_type typed_csr_attrs decode_csr_attrs"
  unfolding decode_csr_attrs_def
  by (rule keeps_struct)
    (auto intro!: keeps_field [OF keeps_bool] keeps_field [OF keeps_ptr [OF keeps_key_algorithm]]
      keeps_field [OF keeps_slice [OF keeps_extension]] keeps_field [OF keeps_slice [OF keeps_string]]
      keeps_field [OF keeps_ptr [OF keeps_template]] simp: typed_csr_attrs_def zero_typed)

lemma keeps_openssl: "keeps_type typed_openssl decode_openssl"
  unfolding decode_openssl_def
  by (rule keeps_struct) (auto intro!: keeps_field [OF keeps_string] simp: typed_openssl_def)

lemma keeps_ejbca: "keeps_type typed_ejbca decode_ejbca"
  unfolding decode_ejbca_def
  by (rule keeps_struct) (auto intro!: keeps_field [OF keeps_string] simp: typed_ejbca_def)

lemma keeps_config: "keeps_type typed_config decode_config"
  unfolding decode_config_def
  by (rule keeps_struct)
    (auto intro!: keeps_field [OF keeps_string] keeps_field [OF keeps_slice [OF keeps_string]] keeps_field [OF keeps_duration]
      keeps_field [OF keeps_ptr [OF keeps_openssl]] keeps_field [OF keeps_ptr [OF keeps_ejbca]]
      keeps_field [OF keeps_ptr [OF keeps_csr_attrs]] simp: typed_config_def zero_typed)

text \<open>So all the strings and integers of a typed configuration can be written.\<close>

lemma typed_key_strings: "pred_option typed_key_algorithm k \<Longrightarrow> list_all utf8_valid (key_strings k) \<and> key_fits k"
  by (cases k) (simp_all add: key_strings_def key_fits_def typed_key_algorithm_def)

lemma typed_texts: "list_all typed_rdn rs \<Longrightarrow> list_all utf8_valid (concat (map (\<lambda>r. rc_OID r # option_list (rc_Value r)) rs))"
  "list_all typed_template_extension xs \<Longrightarrow>
     list_all utf8_valid (concat (map (\<lambda>x. tx_OID x # option_list (tx_ValueHex x)) xs))"
  by (induction rs, auto simp: typed_rdn_def option_list_def split: option.splits)
    (induction xs, auto simp: typed_template_extension_def option_list_def split: option.splits)

lemma typed_template_strings: "typed_template t \<Longrightarrow> list_all utf8_valid (template_strings t) \<and> key_fits (tc_KeyType t)"
  using typed_key_strings [of "tc_KeyType t"] by (simp add: typed_template_def template_strings_def typed_texts)

lemma typed_csr_attrs_strings:
  "typed_csr_attrs a \<Longrightarrow> list_all utf8_valid (csr_attrs_strings a) \<and> key_fits (ac_KeyAlgorithm a) \<and>
     (case ac_Template a of None \<Rightarrow> True | Some t \<Rightarrow> key_fits (tc_KeyType t))"
  using typed_key_strings [of "ac_KeyAlgorithm a"] typed_template_strings
  by (auto simp: typed_csr_attrs_def csr_attrs_strings_def list_all_iff typed_extension_def split: option.splits)

lemma typed_config_strings: "typed_config c \<Longrightarrow> config_fits c \<and> list_all utf8_valid (config_strings c)"
  by (cases "cf_CSRAttrs c"; cases "cf_OpenSSLCA c"; cases "cf_EJBCACA c")
    (simp_all add: typed_csr_attrs_strings typed_config_def config_strings_def config_fits_def typed_openssl_def typed_ejbca_def)

section \<open>Properties\<close>

text \<open>
  C17: A configuration that \<open>Load\<close> returns is well typed, whatever bytes the file holds: every integer fits 64 bits, a
  duration included, and every string is UTF-8. So writing it to a file by its JSON tags and loading that file gives
  the same configuration again.
\<close>

theorem loaded_config_typed:
  assumes "Load path w = (Inr c, w')"
    and "os_fault u = None" "w_files u path' = Some f" "f_data f = bytes_of (json_text (config_json c))"
  shows "config_fits c \<and> list_all utf8_valid (config_strings c) \<and> Load path' u = (Inr c, os_tick u)"
proof -
  obtain d where "json_Unmarshal decode_config zero_config d = Inr c"
    using assms(1) by (auto simp: Load_def split: prod.splits sum.splits)
  then have "typed_config c" by (rule Unmarshal_typed [OF keeps_config zero_typed(9)])
  note c = typed_config_strings [OF this, THEN conjunct1] typed_config_strings [OF this, THEN conjunct2]
  show ?thesis using c load_written [OF c assms(2-4)] by simp
qed

lemma loaded_config_typed_witness:
  "config_fits demo_config \<and> list_all utf8_valid (config_strings demo_config) \<and>
     Load ''copy.json'' written_world = (Inr demo_config, os_tick written_world)"
proof -
  have "Load ''estd.json'' written_world = (Inr demo_config, os_tick written_world)"
    by (rule load_written [OF demo_config_fits demo_config_strings written_world_file]) simp
  from loaded_config_typed [OF this written_world_file] show ?thesis by simp
qed

end
