(* ===== verification/Pkcs7.thy ===== *)
theory Pkcs7
  imports DER_Reference X509
begin

text \<open>
  \<open>internal/pkcs7\<close>: the degenerate, certificates-only SignedData that EST uses as its response
  format. \<open>EncodeCertsOnly\<close> and \<open>DecodeCertsOnly\<close> take the operations of \<open>cryptobyte\<close> and, for the
  decoder, \<open>x509.ParseCertificate\<close> as arguments. The lemmas specify the encoder by the syntax tree
  of the message and show that the decoder returns, inverts the encoder, and accepts DER messages
  of the right shape only.
\<close>

section \<open>The code\<close>

definition oidData :: oid where
  "oidData = [1, 2, 840, 113549, 1, 7, 1]"

definition oidSignedData :: oid where
  "oidSignedData = [1, 2, 840, 113549, 1, 7, 2]"

definition no_raw :: "x509_cert option \<Rightarrow> bool" where
  "no_raw c = (case c of None \<Rightarrow> True | Some x \<Rightarrow> length (Raw x) = 0)"

text \<open>A Go pointer to a certificate is an option; \<open>None\<close> is nil.\<close>

definition EncodeCertsOnly :: "'b cb_builder \<Rightarrow> x509_cert option list \<Rightarrow> bytes result" where
  "EncodeCertsOnly B certs =
     (if list_ex no_raw certs
      then Inl (ErrNew ''pkcs7: certificate has no raw DER encoding'' [])
      else
        wrap_err ''pkcs7: marshal: %w'' []
         (cb_Bytes B
          (cb_AddASN1 B tag_SEQUENCE (\<lambda>b. \<comment> \<open>ContentInfo\<close>
             let b = cb_AddASN1ObjectIdentifier B oidSignedData b;
                 b = cb_AddASN1 B (context_constructed 0) (\<lambda>b. \<comment> \<open>content [0] EXPLICIT\<close>
                       cb_AddASN1 B tag_SEQUENCE (\<lambda>b. \<comment> \<open>SignedData\<close>
                         let b = cb_AddASN1Int64 B 1 b; \<comment> \<open>version\<close>
                             b = cb_AddASN1 B tag_SET (\<lambda>b. b) b; \<comment> \<open>digestAlgorithms\<close>
                             b = cb_AddASN1 B tag_SEQUENCE (\<lambda>b. \<comment> \<open>contentInfo\<close>
                                   cb_AddASN1ObjectIdentifier B oidData b) b;
                             b = cb_AddASN1 B (context_constructed 0) (\<lambda>b. \<comment> \<open>certificates\<close>
                                   fold (\<lambda>c b. case c of None \<Rightarrow> b | Some x \<Rightarrow> cb_AddBytes B (Raw x) b)
                                     certs b) b;
                             b = cb_AddASN1 B tag_SET (\<lambda>b. b) b \<comment> \<open>signerInfos\<close>
                         in b) b) b
             in b) (cb_new B))))"

text \<open>
  The loop over the \<open>certificates\<close> field. It ends only because a read consumes input, which is a
  property of the package, so the loop is a partial function: \<open>None\<close> is "does not return".
\<close>

partial_function (option) read_certs ::
  "cb_reader \<Rightarrow> (bytes \<Rightarrow> x509_cert result) \<Rightarrow> x509_cert list \<Rightarrow> bytes \<Rightarrow> x509_cert list result option"
  where
  "read_certs R parse certs s =
     (if s = [] then Some (Inr certs)
      else (case rd_ASN1Element R tag_SEQUENCE s of
              None \<Rightarrow> Some (Inl (ErrNew ''pkcs7: parse embedded certificate: malformed element'' []))
            | Some (certElement, s') \<Rightarrow>
                (case parse certElement of
                   Inl e \<Rightarrow> Some (Inl (ErrWrap ''pkcs7: parse embedded certificate: %w'' [] e))
                 | Inr cert \<Rightarrow> read_certs R parse (certs @ [cert]) s')))"

definition DecodeCertsOnly ::
  "cb_reader \<Rightarrow> (bytes \<Rightarrow> x509_cert result) \<Rightarrow> bytes \<Rightarrow> x509_cert list result option" where
  "DecodeCertsOnly R parse msg =
     (case rd_ASN1 R tag_SEQUENCE msg of
        None \<Rightarrow> Some (Inl (ErrNew ''pkcs7: invalid contentInfo'' []))
      | Some (contentInfo, input) \<Rightarrow>
     if input \<noteq> [] then Some (Inl (ErrNew ''pkcs7: invalid contentInfo'' [])) else
     (case rd_ASN1ObjectIdentifier R contentInfo of
        None \<Rightarrow> Some (Inl (ErrNew ''pkcs7: invalid contentType'' []))
      | Some (contentType, contentInfo) \<Rightarrow>
     if contentType \<noteq> oidSignedData
     then Some (Inl (ErrNew ''pkcs7: unexpected content type %v'' [FOid contentType])) else
     (case rd_ASN1 R (context_constructed 0) contentInfo of
        None \<Rightarrow> Some (Inl (ErrNew ''pkcs7: missing content'' []))
      | Some (explicitContent, contentInfo) \<Rightarrow>
     (case rd_ASN1 R tag_SEQUENCE explicitContent of
        None \<Rightarrow> Some (Inl (ErrNew ''pkcs7: invalid signedData'' []))
      | Some (signedData, explicitContent) \<Rightarrow>
     (case rd_ASN1Int64WithTag R tag_INTEGER signedData of
        None \<Rightarrow> Some (Inl (ErrNew ''pkcs7: invalid version'' []))
      | Some (version, signedData) \<Rightarrow>
     (case rd_ASN1 R tag_SET signedData of
        None \<Rightarrow> Some (Inl (ErrNew ''pkcs7: invalid digestAlgorithms'' []))
      | Some (digestAlgorithms, signedData) \<Rightarrow>
     (case rd_ASN1 R tag_SEQUENCE signedData of
        None \<Rightarrow> Some (Inl (ErrNew ''pkcs7: invalid contentInfo'' []))
      | Some (encapContentInfo, signedData) \<Rightarrow>
     (case rd_OptionalASN1 R (context_constructed 0) signedData of
        None \<Rightarrow> Some (Inl (ErrNew ''pkcs7: invalid certificates field'' []))
      | Some (certificates, signedData) \<Rightarrow>
     (case certificates of
        None \<Rightarrow> Some (Inl (ErrNew ''pkcs7: no certificates field present'' []))
      | Some certificates \<Rightarrow> read_certs R parse [] certificates)))))))))"

section \<open>The message\<close>

text \<open>RFC 7030's certs-only SignedData, in the notation of the ASN.1 module.\<close>

definition signed_data_tree :: "bytes list \<Rightarrow> asn1" where
  "signed_data_tree raws =
     Constr tag_SEQUENCE
       [Prim tag_INTEGER (int_octets 1),
        Constr tag_SET [],
        Constr tag_SEQUENCE [Oid oidData],
        Constr (context_constructed 0) (map Copied raws),
        Constr tag_SET []]"

definition certs_only_tree :: "bytes list \<Rightarrow> asn1" where
  "certs_only_tree raws =
     Constr tag_SEQUENCE
       [Oid oidSignedData, Constr (context_constructed 0) [signed_data_tree raws]]"

definition raw_of :: "x509_cert option \<Rightarrow> bytes" where
  "raw_of c = (case c of None \<Rightarrow> [] | Some x \<Rightarrow> Raw x)"

lemma pkcs7_low_tags [simp]:
  "low_tag tag_SEQUENCE" "low_tag tag_SET" "low_tag (context_constructed 0)" "low_tag (context_constructed 1)"
  by (simp_all add: low_tag_def context_constructed_def)

lemma pkcs7_oids:
  "oid_valid oidData" "oid_valid oidSignedData" "oid_in_range oidData" "oid_in_range oidSignedData"
  "small_arcs oidData" "small_arcs oidSignedData"
  by (simp_all add: oidData_def oidSignedData_def oid_valid_def oid_in_range_def small_arcs_def)

lemma certs_only_oids: "set (tree_oids (certs_only_tree raws)) = {oidData, oidSignedData}"
  by (auto simp: certs_only_tree_def signed_data_tree_def comp_def)

context cryptobyte_builder
begin

text \<open>The builder calls of \<open>EncodeCertsOnly\<close> write the message's tree.\<close>

lemma writes_raws:
  "\<not> list_ex no_raw certs \<Longrightarrow>
     writes_trees (fold (\<lambda>c b. case c of None \<Rightarrow> b | Some x \<Rightarrow> cb_AddBytes B (Raw x) b) certs)
       (map Copied (map raw_of certs))"
proof -
  assume ok: "\<not> list_ex no_raw certs"
  have "writes_tree (\<lambda>b. case c of None \<Rightarrow> b | Some x \<Rightarrow> cb_AddBytes B (Raw x) b)
      (Copied (raw_of c))" if "c \<in> set certs" for c
    using ok that writes_AddBytes
    by (cases c) (auto simp: list_ex_iff no_raw_def raw_of_def)
  from writes_trees_fold [OF this, of certs] show ?thesis by (simp add: comp_def)
qed

lemma writes_signed_data:
  assumes f: "writes_trees f (map Copied raws)"
  shows "writes_tree
     (cb_AddASN1 B tag_SEQUENCE (\<lambda>b.
        cb_AddASN1 B tag_SET (\<lambda>b. b)
          (cb_AddASN1 B (context_constructed 0) f
            (cb_AddASN1 B tag_SEQUENCE (\<lambda>b. cb_AddASN1ObjectIdentifier B oidData b)
              (cb_AddASN1 B tag_SET (\<lambda>b. b) (cb_AddASN1Int64 B 1 b))))))
     (signed_data_tree raws)"
proof -
  note w = writes_trees_snoc writes_trees_snoc [OF writes_trees_Nil, simplified]
  have i: "writes_trees (cb_AddASN1Int64 B 1) [Prim tag_INTEGER (int_octets 1)]"
    using writes_tree_int64 [of 1] by (simp only: writes_tree_single) simp
  have s: "writes_tree (cb_AddASN1 B tag_SET (\<lambda>b. b)) (Constr tag_SET [])"
    by (intro writes_tree_constr writes_trees_Nil) simp
  have ct: "writes_tree (cb_AddASN1 B tag_SEQUENCE (\<lambda>b. cb_AddASN1ObjectIdentifier B oidData b))
      (Constr tag_SEQUENCE [Oid oidData])"
    by (intro writes_tree_constr) (simp_all only: pkcs7_low_tags flip: writes_tree_single,
      rule writes_tree_oid)
  have c: "writes_tree (cb_AddASN1 B (context_constructed 0) f)
      (Constr (context_constructed 0) (map Copied raws))"
    by (intro writes_tree_constr f) simp
  show ?thesis
    unfolding signed_data_tree_def
    using writes_trees_snoc [OF writes_trees_snoc [OF writes_trees_snoc [OF writes_trees_snoc [OF i s] ct] c] s]
    by (intro writes_tree_constr) simp_all
qed

lemma writes_certs_only:
  assumes "\<not> list_ex no_raw certs"
  shows "writes_tree
     (cb_AddASN1 B tag_SEQUENCE (\<lambda>b.
        cb_AddASN1 B (context_constructed 0) (\<lambda>b.
          cb_AddASN1 B tag_SEQUENCE (\<lambda>b.
            cb_AddASN1 B tag_SET (\<lambda>b. b)
              (cb_AddASN1 B (context_constructed 0)
                (fold (\<lambda>c b. case c of None \<Rightarrow> b | Some x \<Rightarrow> cb_AddBytes B (Raw x) b) certs)
                (cb_AddASN1 B tag_SEQUENCE (\<lambda>b. cb_AddASN1ObjectIdentifier B oidData b)
                  (cb_AddASN1 B tag_SET (\<lambda>b. b) (cb_AddASN1Int64 B 1 b))))) b)
          (cb_AddASN1ObjectIdentifier B oidSignedData b)))
     (certs_only_tree (map raw_of certs))"
proof -
  note sd = writes_signed_data [OF writes_raws [OF assms]]
  have e: "writes_tree (cb_AddASN1 B (context_constructed 0) (\<lambda>b.
          cb_AddASN1 B tag_SEQUENCE (\<lambda>b.
            cb_AddASN1 B tag_SET (\<lambda>b. b)
              (cb_AddASN1 B (context_constructed 0)
                (fold (\<lambda>c b. case c of None \<Rightarrow> b | Some x \<Rightarrow> cb_AddBytes B (Raw x) b) certs)
                (cb_AddASN1 B tag_SEQUENCE (\<lambda>b. cb_AddASN1ObjectIdentifier B oidData b)
                  (cb_AddASN1 B tag_SET (\<lambda>b. b) (cb_AddASN1Int64 B 1 b))))) b))
      (Constr (context_constructed 0) [signed_data_tree (map raw_of certs)])"
    using sd by (intro writes_tree_constr) (simp_all only: pkcs7_low_tags writes_tree_single)
  have ct: "writes_trees (cb_AddASN1ObjectIdentifier B oidSignedData) [Oid oidSignedData]"
    using writes_tree_oid by (simp only: writes_tree_single)
  show ?thesis
    unfolding certs_only_tree_def
    using writes_trees_snoc [OF ct e] by (intro writes_tree_constr) simp_all
qed

lemma encode_certs_only:
  assumes "length (der (certs_only_tree (map raw_of certs))) \<le> max_content"
  shows "EncodeCertsOnly B certs =
     (if list_ex no_raw certs
      then Inl (ErrNew ''pkcs7: certificate has no raw DER encoding'' [])
      else Inr (der (certs_only_tree (map raw_of certs))))"
proof (cases "list_ex no_raw certs")
  case True
  then show ?thesis by (simp add: EncodeCertsOnly_def)
next
  case False
  from message_ok [OF writes_certs_only [OF False] assms] show ?thesis
    using False by (simp add: EncodeCertsOnly_def Let_def certs_only_oids pkcs7_oids)
qed

end

lemma length_certs_only_bound:
  assumes "length (der (certs_only_tree raws)) \<le> max_content" and "r \<in> set raws"
  shows "length r \<le> max_content"
  using assms length_concat_ge [of r raws]
  by (simp add: certs_only_tree_def signed_data_tree_def der_tlv_def comp_def)

section \<open>The decoder\<close>

context cryptobyte_reader
begin

lemma read_certs_Nil: "read_certs R parse cs [] = Some (Inr cs)"
  by (simp add: read_certs.simps)

text \<open>The loop returns on every input, because an element read consumes input.\<close>

lemma read_certs_returns: "\<exists>r. read_certs R parse cs s = Some r"
proof (induction s arbitrary: cs rule: length_induct)
  case (1 s)
  show ?case
  proof (cases "s = [] \<or> rd_ASN1Element R tag_SEQUENCE s = None")
    case True
    then show ?thesis by (subst read_certs.simps) auto
  next
    case False
    then obtain e s' where e: "rd_ASN1Element R tag_SEQUENCE s = Some (e, s')" and s: "s \<noteq> []"
      by auto
    from 1 element_progress [OF e] have "\<exists>r. read_certs R parse ds s' = Some r" for ds by blast
    with e s show ?thesis by (subst read_certs.simps) (auto split: sum.splits)
  qed
qed

lemma read_certs_elements:
  assumes "\<forall>c\<in>set certs. parse (Raw c) = Inr c \<and> (\<exists>x. Raw c = der_tlv tag_SEQUENCE x) \<and>
             length (Raw c) \<le> max_content"
  shows "read_certs R parse cs (concat (map Raw certs)) = Some (Inr (cs @ certs))"
  using assms
proof (induction certs arbitrary: cs)
  case Nil
  then show ?case by (simp add: read_certs_Nil)
next
  case (Cons c certs)
  then obtain x where x: "Raw c = der_tlv tag_SEQUENCE x" "length (der_tlv tag_SEQUENCE x) \<le> max_content"
    and p: "parse (der_tlv tag_SEQUENCE x) = Inr c" by auto
  from read_Element [OF _ x(2), of "concat (map Raw certs)"] Cons.IH [of "cs @ [c]"] Cons.prems p
  show ?case by (subst read_certs.simps) (simp add: x(1))
qed

lemma read_certs_sound:
  "read_certs R parse cs s = Some (Inr certs) \<Longrightarrow>
     \<exists>els new. s = concat els \<and> certs = cs @ new \<and>
       list_all2 (\<lambda>e c. parse e = Inr c \<and> (\<exists>x. e = der_tlv tag_SEQUENCE x)) els new"
proof (induction s arbitrary: cs rule: length_induct)
  case (1 s)
  show ?case
  proof (cases "s = []")
    case True
    with "1.prems" show ?thesis by (auto simp: read_certs_Nil intro!: exI [of _ "[]"])
  next
    case False
    with "1.prems" obtain e s' c where e: "rd_ASN1Element R tag_SEQUENCE s = Some (e, s')"
      "parse e = Inr c" "read_certs R parse (cs @ [c]) s' = Some (Inr certs)"
      by (subst (asm) read_certs.simps) (auto split: option.splits sum.splits)
    with "1.IH" element_progress [OF e(1)] obtain els new where
      "s' = concat els" "certs = (cs @ [c]) @ new"
      "list_all2 (\<lambda>e c. parse e = Inr c \<and> (\<exists>x. e = der_tlv tag_SEQUENCE x)) els new"
      by meson
    with sound_Element [OF e(1)] e(2) show ?thesis
      by (intro exI [of _ "e # els"] exI [of _ "c # new"]) auto
  qed
qed

text \<open>The message's fields, read one after the other.\<close>

lemma decode_fields:
  assumes len: "length (der (certs_only_tree raws)) \<le> max_content"
  shows "DecodeCertsOnly R parse (der (certs_only_tree raws)) = read_certs R parse [] (concat raws)"
proof -
  let ?sd = "der_tlv tag_INTEGER (int_octets 1) @ der_tlv tag_SET [] @
      der_tlv tag_SEQUENCE (der (Oid oidData)) @
      der_tlv (context_constructed 0) (concat raws) @ der_tlv tag_SET []"
  let ?ec = "der_tlv tag_SEQUENCE ?sd"
  let ?ci = "der (Oid oidSignedData) @ der_tlv (context_constructed 0) ?ec"
  have msg: "der (certs_only_tree raws) = der_tlv tag_SEQUENCE ?ci"
    by (simp add: certs_only_tree_def signed_data_tree_def comp_def)
  note ge = length_der_tlv_ge [of ?ci tag_SEQUENCE] length_der_tlv_ge [of ?ec "context_constructed 0"]
    length_der_tlv_ge [of ?sd tag_SEQUENCE]
  have l: "length (der_tlv tag_SEQUENCE ?ci) \<le> max_content" using len by (simp only: msg)
  have l1: "length (der (Oid oidSignedData)) \<le> max_content"
    "length (der_tlv (context_constructed 0) ?ec) \<le> max_content"
    using l ge(1) unfolding length_append by linarith+
  have l2: "length ?ec \<le> max_content" using l1(2) ge(2) by linarith
  have l3: "length ?sd \<le> max_content" using l2 ge(3) by linarith
  have l4: "length (der_tlv tag_SET []) \<le> max_content"
    "length (der_tlv tag_SEQUENCE (der (Oid oidData))) \<le> max_content"
    "length (der_tlv (context_constructed 0) (concat raws)) \<le> max_content"
    using l3 unfolding length_append by linarith+
  have r1: "rd_ASN1 R tag_SEQUENCE (der_tlv tag_SEQUENCE ?ci) = Some (?ci, [])"
    using read_ASN1 [OF _ l, of "[]"] by simp
  have r2: "rd_ASN1ObjectIdentifier R ?ci
      = Some (oidSignedData, der_tlv (context_constructed 0) ?ec)"
    using l1 pkcs7_oids by (intro read_OID)
  have r3: "rd_ASN1 R (context_constructed 0) (der_tlv (context_constructed 0) ?ec) = Some (?ec, [])"
    using read_ASN1 [OF _ l1(2), of "[]"] by simp
  have r4: "rd_ASN1 R tag_SEQUENCE ?ec = Some (?sd, [])"
    using read_ASN1 [OF _ l2, of "[]"] by simp
  show ?thesis
    unfolding msg DecodeCertsOnly_def
    using l4 by (simp add: r1 r2 r3 r4 read_Int64 read_ASN1 read_optional del: der.simps)
qed

lemma decode_returns: "\<exists>r. DecodeCertsOnly R parse msg = Some r"
  using read_certs_returns by (auto simp: DecodeCertsOnly_def split: option.splits prod.splits)

text \<open>One step of the decoder that fails on a failed read, and one guarded by a condition.\<close>

lemma decode_step:
  "(case x of None \<Rightarrow> Some (Inl e) | Some p \<Rightarrow> f p) = Some (Inr y) \<longleftrightarrow>
     (\<exists>p. x = Some p \<and> f p = Some (Inr y))"
  "(if b then Some (Inl e) else q) = Some (Inr y) \<longleftrightarrow> \<not> b \<and> q = Some (Inr y)"
  by (auto split: option.splits)

text \<open>Everything a successful decoding tells about its input.\<close>

lemma decode_sound:
  assumes "DecodeCertsOnly R parse msg = Some (Inr certs)"
  shows "\<exists>version digests encap els t1 t2 t3.
     msg = der_tlv tag_SEQUENCE (der (Oid oidSignedData) @ der_tlv (context_constructed 0)
       (der_tlv tag_SEQUENCE
          (der_tlv tag_INTEGER version @ der_tlv tag_SET digests @ der_tlv tag_SEQUENCE encap @
           der_tlv (context_constructed 0) (concat els) @ t3) @ t2) @ t1) \<and>
     list_all2 (\<lambda>e c. parse e = Inr c \<and> (\<exists>x. e = der_tlv tag_SEQUENCE x)) els certs"
proof -
  from assms obtain ci c1 ec c2 sd c3 v s1 da s2 en s3 cf s4 where r:
    "rd_ASN1 R tag_SEQUENCE msg = Some (ci, [])"
    "rd_ASN1ObjectIdentifier R ci = Some (oidSignedData, c1)"
    "rd_ASN1 R (context_constructed 0) c1 = Some (ec, c2)"
    "rd_ASN1 R tag_SEQUENCE ec = Some (sd, c3)"
    "rd_ASN1Int64WithTag R tag_INTEGER sd = Some (v, s1)"
    "rd_ASN1 R tag_SET s1 = Some (da, s2)"
    "rd_ASN1 R tag_SEQUENCE s2 = Some (en, s3)"
    "rd_OptionalASN1 R (context_constructed 0) s3 = Some (Some cf, s4)"
    and cs: "read_certs R parse [] cf = Some (Inr certs)"
    unfolding DecodeCertsOnly_def
    by (simp only: decode_step split_paired_Ex prod.case not_not) blast
  from read_certs_sound [OF cs] obtain els where els: "cf = concat els"
    "list_all2 (\<lambda>e c. parse e = Inr c \<and> (\<exists>x. e = der_tlv tag_SEQUENCE x)) els certs" by auto
  obtain vo where vo: "sd = der_tlv tag_INTEGER vo @ s1" using sound_Int64 [OF r(5)] by blast
  note fields = sound_ASN1 [OF r(1)] sound_OID [OF r(2)] sound_ASN1 [OF r(3)] sound_ASN1 [OF r(4)]
    sound_ASN1 [OF r(6)] sound_ASN1 [OF r(7)] sound_optional [OF r(8)]
  have "msg = der_tlv tag_SEQUENCE (der (Oid oidSignedData) @ der_tlv (context_constructed 0)
       (der_tlv tag_SEQUENCE
          (der_tlv tag_INTEGER vo @ der_tlv tag_SET da @ der_tlv tag_SEQUENCE en @
           der_tlv (context_constructed 0) (concat els) @ s4) @ c3) @ c2)"
    by (simp only: fields vo els(1) append_assoc append_Nil2)
  with els(2) show ?thesis by blast
qed

end

context cryptobyte
begin

lemma decode_encode:
  assumes len: "length (der (certs_only_tree (map Raw certs))) \<le> max_content"
    and ok: "\<forall>c\<in>set certs. parse (Raw c) = Inr c \<and> (\<exists>x. Raw c = der_tlv tag_SEQUENCE x)"
  shows "\<exists>msg. EncodeCertsOnly B (map Some certs) = Inr msg \<and>
     DecodeCertsOnly R parse msg = Some (Inr certs)"
proof -
  have raws: "map raw_of (map Some certs) = map Raw certs" by (simp add: raw_of_def)
  have "\<not> list_ex no_raw (map Some certs)"
    using ok by (auto simp: list_ex_iff no_raw_def)
  with encode_certs_only [of "map Some certs"] len raws
  have "EncodeCertsOnly B (map Some certs) = Inr (der (certs_only_tree (map Raw certs)))" by metis
  moreover have "read_certs R parse [] (concat (map Raw certs)) = Some (Inr ([] @ certs))"
    using ok length_certs_only_bound [OF len] by (intro read_certs_elements) auto
  ultimately show ?thesis using decode_fields [OF len] by auto
qed

end

section \<open>Properties\<close>

text \<open>A certificate with a given encoding, for the concrete instances.\<close>

definition cert_with_raw :: "bytes \<Rightarrow> x509_cert" where
  "cert_with_raw r = \<lparr> Raw = r, SerialNumber = 1, Subject = \<lparr> CommonName = ''a'', OtherNames = [] \<rparr>,
     DNSNames = [], EmailAddresses = [], IPAddresses = [], URIs = [], NotBefore = 0, NotAfter = 0,
     KeyUsage = 0, ExtKeyUsage = [], BasicConstraintsValid = False, IsCA = False,
     SubjectKeyId = [], AuthorityKeyId = [] \<rparr>"

lemma ref_certs_only_eval:
  "der (certs_only_tree [[0x30, 0]]) =
     [0x30, 39, 0x06, 9, 0x2A, 0x86, 0x48, 0x86, 0xF7, 0x0D, 1, 7, 2, 0xA0, 26, 0x30, 24,
      0x02, 1, 1, 0x31, 0, 0x30, 11, 0x06, 9, 0x2A, 0x86, 0x48, 0x86, 0xF7, 0x0D, 1, 7, 1,
      0xA0, 2, 0x30, 0, 0x31, 0]"
  by (simp add: certs_only_tree_def signed_data_tree_def oidData_def oidSignedData_def
      der_oid_content_def base128_def radix.simps wrap64_id der_tlv_def der_length_def
      int_octets.simps context_constructed_def Let_def)

text \<open>
  C12: Encoding then decoding a list of certificates returns exactly the certificates, in their order:
  for every builder and reader that keep the \<open>cryptobyte\<close> laws and every certificate parser that
  reads back the given certificates (each of which is one SEQUENCE element).
\<close>

theorem certs_only_roundtrip:
  assumes "cryptobyte B enc_oid R"
    and "length (der (certs_only_tree (map Raw certs))) \<le> max_content"
    and "\<forall>c\<in>set certs. parse (Raw c) = Inr c \<and> (\<exists>x. Raw c = der_tlv tag_SEQUENCE x)"
  shows "\<exists>msg. EncodeCertsOnly B (map Some certs) = Inr msg \<and>
     DecodeCertsOnly R parse msg = Some (Inr certs)"
  using assms by (rule cryptobyte.decode_encode)

lemma certs_only_roundtrip_witness:
  "\<exists>msg. EncodeCertsOnly ref_builder (map Some [cert_with_raw [0x30, 0]]) = Inr msg \<and>
     DecodeCertsOnly ref_reader (\<lambda>b. Inr (cert_with_raw b)) msg = Some (Inr [cert_with_raw [0x30, 0]])"
proof (rule certs_only_roundtrip [OF ref.cryptobyte_axioms])
  show "length (der (certs_only_tree (map Raw [cert_with_raw [0x30, 0]]))) \<le> max_content"
    using ref_certs_only_eval by (simp add: cert_with_raw_def max_content_def del: der.simps)
  show "\<forall>c\<in>set [cert_with_raw [0x30, 0]]. Inr (cert_with_raw (Raw c)) = Inr c \<and>
      (\<exists>x. Raw c = der_tlv tag_SEQUENCE x)"
    by (simp add: cert_with_raw_def der_tlv_def der_length_def exI [of _ "[]"])
qed

text \<open>
  C32: \<open>EncodeCertsOnly\<close> refuses exactly the lists that hold a nil certificate or one without a raw
  encoding, and otherwise writes the DER of RFC 7030's certs-only SignedData: version 1, no digest
  algorithm, an empty id-data content, the raw certificates in order under an implicit [0], no signer.
\<close>

theorem certs_only_encoding:
  assumes "cryptobyte_builder B enc_oid"
    and "length (der (certs_only_tree (map raw_of certs))) \<le> max_content"
  shows "EncodeCertsOnly B certs =
     (if \<exists>c\<in>set certs. case c of None \<Rightarrow> True | Some x \<Rightarrow> Raw x = []
      then Inl (ErrNew ''pkcs7: certificate has no raw DER encoding'' [])
      else Inr (der (certs_only_tree (map raw_of certs))))"
proof -
  have "list_ex no_raw certs \<longleftrightarrow> (\<exists>c\<in>set certs. case c of None \<Rightarrow> True | Some x \<Rightarrow> Raw x = [])"
    by (auto simp: list_ex_iff no_raw_def split: option.splits)
  with cryptobyte_builder.encode_certs_only [OF assms] show ?thesis by simp
qed

lemma certs_only_encoding_witness:
  "EncodeCertsOnly ref_builder [Some (cert_with_raw [0x30, 0])] = Inr
     [0x30, 39, 0x06, 9, 0x2A, 0x86, 0x48, 0x86, 0xF7, 0x0D, 1, 7, 2, 0xA0, 26, 0x30, 24,
      0x02, 1, 1, 0x31, 0, 0x30, 11, 0x06, 9, 0x2A, 0x86, 0x48, 0x86, 0xF7, 0x0D, 1, 7, 1,
      0xA0, 2, 0x30, 0, 0x31, 0]
   \<and> EncodeCertsOnly ref_builder [None] = Inl (ErrNew ''pkcs7: certificate has no raw DER encoding'' [])"
proof -
  have raw: "map raw_of [Some (cert_with_raw [0x30, 0])] = [[0x30, 0]]" "map raw_of [None] = [[]]"
    by (simp_all add: raw_of_def cert_with_raw_def)
  have "length (der (certs_only_tree [[0x30, 0]])) \<le> max_content"
    using ref_certs_only_eval by (simp add: max_content_def del: der.simps)
  moreover have "length (der (certs_only_tree [[]])) \<le> max_content"
    by (simp add: certs_only_tree_def signed_data_tree_def oidData_def oidSignedData_def
      der_oid_content_def base128_def radix.simps wrap64_id der_tlv_def der_length_def
      int_octets.simps Let_def max_content_def)
  ultimately show ?thesis
    using certs_only_encoding [OF ref.cryptobyte_builder_axioms, of "[Some (cert_with_raw [0x30, 0])]"]
      certs_only_encoding [OF ref.cryptobyte_builder_axioms, of "[None]"]
    unfolding raw ref_certs_only_eval by (simp add: cert_with_raw_def del: der.simps)
qed

text \<open>
  C38: \<open>DecodeCertsOnly\<close> returns on every input: its loop over the certificates field ends, because
  the reader consumes input with every element it reads.
\<close>

theorem decode_certs_only_returns:
  assumes "cryptobyte_reader R"
  shows "\<exists>r. DecodeCertsOnly R parse msg = Some r"
  using assms by (rule cryptobyte_reader.decode_returns)

lemma decode_certs_only_returns_witness:
  "\<exists>r. DecodeCertsOnly ref_reader (\<lambda>b. Inr (cert_with_raw b)) [0x30, 0] = Some r"
  by (rule decode_certs_only_returns [OF ref.cryptobyte_reader_axioms])

text \<open>
  C33: A message from which \<open>DecodeCertsOnly\<close> returns certificates is the DER of a signed-data
  ContentInfo whose certificates field is the concatenation of SEQUENCE elements, one per returned
  certificate and in the same order, each parsed to that certificate; nothing follows the ContentInfo.
\<close>

theorem decode_certs_only_sound:
  assumes "cryptobyte_reader R" and "DecodeCertsOnly R parse msg = Some (Inr certs)"
  shows "\<exists>version digests encap els t1 t2 t3.
     msg = der_tlv tag_SEQUENCE (der (Oid oidSignedData) @ der_tlv (context_constructed 0)
       (der_tlv tag_SEQUENCE
          (der_tlv tag_INTEGER version @ der_tlv tag_SET digests @ der_tlv tag_SEQUENCE encap @
           der_tlv (context_constructed 0) (concat els) @ t3) @ t2) @ t1) \<and>
     list_all2 (\<lambda>e c. parse e = Inr c \<and> (\<exists>x. e = der_tlv tag_SEQUENCE x)) els certs"
  using assms by (rule cryptobyte_reader.decode_sound)


lemma decode_certs_only_sound_witness:
  "\<exists>version digests encap els t1 t2 t3.
     der (certs_only_tree [[0x30, 0]]) =
     der_tlv tag_SEQUENCE (der (Oid oidSignedData) @ der_tlv (context_constructed 0)
       (der_tlv tag_SEQUENCE
          (der_tlv tag_INTEGER version @ der_tlv tag_SET digests @ der_tlv tag_SEQUENCE encap @
           der_tlv (context_constructed 0) (concat els) @ t3) @ t2) @ t1) \<and>
     list_all2 (\<lambda>e c. (Inr (cert_with_raw e) :: x509_cert result) = Inr c \<and> (\<exists>x. e = der_tlv tag_SEQUENCE x)) els
       [cert_with_raw [0x30, 0]]"
proof (rule decode_certs_only_sound [OF ref.cryptobyte_reader_axioms, where parse = "\<lambda>b. Inr (cert_with_raw b)"])
  let ?c = "cert_with_raw [0x30, 0]" and ?p = "\<lambda>b. Inr (cert_with_raw b)"
  have raws: "[[0x30, 0]] = map Raw [?c]" by (simp add: cert_with_raw_def)
  have l: "length (der (certs_only_tree [[0x30, 0]])) \<le> max_content"
    using ref_certs_only_eval by (simp add: max_content_def del: der.simps)
  have "read_certs ref_reader ?p [] (concat (map Raw [?c])) = Some (Inr ([] @ [?c]))"
    by (rule ref.read_certs_elements)
      (simp add: cert_with_raw_def der_tlv_def der_length_def max_content_def exI [of _ "[]"])
  then show "DecodeCertsOnly ref_reader ?p (der (certs_only_tree [[0x30, 0]])) = Some (Inr [?c])"
    using ref.decode_fields [OF l] raws by simp
qed

end
