(* ===== verification/Handlers.thy ===== *)
theory Handlers
  imports CA FileStore Pkcs7
begin

text \<open>
  \<open>internal/estapi\<close>: the server, its routes and its four handlers. A handler takes the request and the
  state of the world, on which the CA backend and the store act, and returns the response and the new
  state. Logging is left out. The lemmas state what each answer means: who is let in, what has been
  checked, signed and stored when a certificate goes out, and what has not when it does not.
\<close>

section \<open>The code\<close>

record 'w server =
  srv_CA :: "'w cabackend"
  srv_Store :: "'w store_ops"
  srv_CSRAttrsDER :: bytes

definition NewServer :: "'w cabackend \<Rightarrow> 'w store_ops \<Rightarrow> bytes \<Rightarrow> 'w server" where
  "NewServer caBackend st csrAttrsDER =
     \<lparr> srv_CA = caBackend, srv_Store = st, srv_CSRAttrsDER = csrAttrsDER \<rparr>"

text \<open>
  What the handlers call outside the package: the \<open>cryptobyte\<close> builder, the parser of requests and
  \<open>time.Now\<close>.
\<close>

record ('b, 'w) handler_env =
  he_builder :: "'b cb_builder"
  he_ParseCertificateRequest :: "bytes \<Rightarrow> x509_csr result"
  he_Now :: "'w \<Rightarrow> int \<times> 'w"

definition internal_error :: http_response where
  "internal_error = http_Error (Text ''internal error'') 500"

definition handleCACerts ::
  "('b, 'w) handler_env \<Rightarrow> 'w server \<Rightarrow> http_request \<Rightarrow> 'w \<Rightarrow> http_response \<times> 'w" where
  "handleCACerts H s r w =
     (case be_CACertificates (srv_CA s) w of
        (Inl err, w) \<Rightarrow> (internal_error, w)
      | (Inr certs, w) \<Rightarrow>
     (case EncodeCertsOnly (he_builder H) certs of
        Inl err \<Rightarrow> (internal_error, w)
      | Inr d \<Rightarrow> (writePKCS7Response d, w)))"

definition issueAndRespond ::
  "('b, 'w) handler_env \<Rightarrow> 'w server \<Rightarrow> http_request \<Rightarrow> x509_csr \<Rightarrow> x509_cert \<Rightarrow> 'w \<Rightarrow> http_response \<times> 'w"
  where
  "issueAndRespond H s r csr peer w =
     (case be_IssueCertificate (srv_CA s) csr w of
        (Inl err, w) \<Rightarrow>
          if errors_Is err ErrInvalidCSRSignature
          then (http_Error (Text ''CSR signature does not verify'') 400, w)
          else (internal_error, w)
      | (Inr cert, w) \<Rightarrow>
     (case he_Now H w of
        (now, w) \<Rightarrow>
     (let meta = \<lparr> md_Requester = CommonName (Subject peer), md_RemoteAddr = rq_RemoteAddr r,
                   md_ReceivedAt = now \<rparr> in
     (case st_PutCSR (srv_Store s) (SerialNumber cert) (csr_Raw csr) meta w of
        (Some err, w) \<Rightarrow> (internal_error, w)
      | (None, w) \<Rightarrow>
     (case st_PutCertificate (srv_Store s) (SerialNumber cert) (Raw cert) meta w of
        (Some err, w) \<Rightarrow> (internal_error, w)
      | (None, w) \<Rightarrow>
     (case EncodeCertsOnly (he_builder H) [Some cert] of
        Inl err \<Rightarrow> (internal_error, w)
      | Inr d \<Rightarrow> (writePKCS7Response d, w)))))))"

definition handleSimpleEnroll ::
  "('b, 'w) handler_env \<Rightarrow> 'w server \<Rightarrow> http_request \<Rightarrow> 'w \<Rightarrow> http_response \<times> 'w" where
  "handleSimpleEnroll H s r w =
     (case peerCertificate r of
        Inl err \<Rightarrow> (http_Error (Text ''client certificate required'') 401, w)
      | Inr peer \<Rightarrow>
     (case decodeCSRBody (he_ParseCertificateRequest H) r of
        Inl err \<Rightarrow> (http_Error (ErrorText err) 400, w)
      | Inr csr \<Rightarrow> issueAndRespond H s r csr peer w))"

definition handleSimpleReenroll ::
  "('b, 'w) handler_env \<Rightarrow> 'w server \<Rightarrow> http_request \<Rightarrow> 'w \<Rightarrow> http_response \<times> 'w" where
  "handleSimpleReenroll H s r w =
     (case peerCertificate r of
        Inl err \<Rightarrow> (http_Error (Text ''client certificate required'') 401, w)
      | Inr peer \<Rightarrow>
     (case decodeCSRBody (he_ParseCertificateRequest H) r of
        Inl err \<Rightarrow> (http_Error (ErrorText err) 400, w)
      | Inr csr \<Rightarrow>
          if \<not> identitiesMatch peer csr
          then (http_Error (Text ''CSR identity does not match authenticated client certificate'') 403, w)
          else issueAndRespond H s r csr peer w))"

definition handleCSRAttrs ::
  "('b, 'w) handler_env \<Rightarrow> 'w server \<Rightarrow> http_request \<Rightarrow> 'w \<Rightarrow> http_response \<times> 'w" where
  "handleCSRAttrs H s r w =
     (if length (srv_CSRAttrsDER s) = 0
      then (\<lparr> rs_Status = 204, rs_Header = [], rs_Body = Text [] \<rparr>, w)
      else (writeBase64Response contentTypeCSRAttrs (srv_CSRAttrsDER s), w))"

text \<open>
  \<open>http.ServeMux\<close> with the four method patterns of \<open>Handler\<close>: an unclean path is redirected (the page
  that goes with the redirection is left out), a \<open>GET\<close>
  pattern also serves \<open>HEAD\<close>, a known path with another method is answered 405 with the allowed
  methods, anything else 404.
\<close>

definition mux_clean :: "string \<Rightarrow> string" where
  "mux_clean p =
     (let p = (if p = [] then ''/'' else if hd p = CHR ''/'' then p else CHR ''/'' # p);
          np = path_Clean p
      in if last p = CHR ''/'' \<and> np \<noteq> ''/'' then np @ ''/'' else np)"

datatype route = CACerts | SimpleEnroll | SimpleReenroll | CSRAttrs

definition est_patterns :: "(string \<times> string \<times> route) list" where
  "est_patterns =
     [(''GET'', ''/.well-known/est/cacerts'', CACerts),
      (''POST'', ''/.well-known/est/simpleenroll'', SimpleEnroll),
      (''POST'', ''/.well-known/est/simplereenroll'', SimpleReenroll),
      (''GET'', ''/.well-known/est/csrattrs'', CSRAttrs)]"

definition method_matches :: "string \<Rightarrow> string \<Rightarrow> bool" where
  "method_matches pat m = (m = pat \<or> pat = ''GET'' \<and> m = ''HEAD'')"

fun mux_find :: "(string \<times> string \<times> route) list \<Rightarrow> string \<Rightarrow> string \<Rightarrow> route option" where
  "mux_find [] m p = None"
| "mux_find ((pm, pp, h) # ps) m p =
     (if p = pp \<and> method_matches pm m then Some h else mux_find ps m p)"

definition mux_allowed :: "string \<Rightarrow> string list" where
  "mux_allowed p =
     concat (map (\<lambda>(pm, pp, h). if p = pp then (if pm = ''GET'' then [''GET'', ''HEAD''] else [pm]) else [])
       est_patterns)"

definition mux_join :: "string list \<Rightarrow> string" where
  "mux_join ms = (case ms of [] \<Rightarrow> [] | m # r \<Rightarrow> m @ concat (map (\<lambda>x. '', '' @ x) r))"

definition serve ::
  "('b, 'w) handler_env \<Rightarrow> 'w server \<Rightarrow> http_request \<Rightarrow> 'w \<Rightarrow> http_response \<times> 'w" where
  "serve H s r w =
     (let path = (if rq_Method r = ''CONNECT'' then rq_Path r else mux_clean (rq_Path r)) in
      if path \<noteq> rq_Path r
      then (\<lparr> rs_Status = 301, rs_Header = [(''Location'', path)], rs_Body = Text [] \<rparr>, w)
      else (case mux_find est_patterns (rq_Method r) path of
        Some CACerts \<Rightarrow> handleCACerts H s r w
      | Some SimpleEnroll \<Rightarrow> handleSimpleEnroll H s r w
      | Some SimpleReenroll \<Rightarrow> handleSimpleReenroll H s r w
      | Some CSRAttrs \<Rightarrow> handleCSRAttrs H s r w
      | None \<Rightarrow>
          if mux_allowed path \<noteq> []
          then (let e = http_Error (Text ''Method Not Allowed'') 405
                in (e \<lparr> rs_Header := (''Allow'', mux_join (mux_allowed path)) # rs_Header e \<rparr>, w))
          else (http_Error (Text ''404 page not found'') 404, w)))"

section \<open>Answers\<close>

lemma status_simps [simp]:
  "rs_Status (http_Error msg code) = code" "rs_Status internal_error = 500"
  "rs_Status (writePKCS7Response d) = 200" "rs_Status (writeBase64Response ct d) = 200"
  by (simp_all add: http_Error_def internal_error_def writePKCS7Response_def writeBase64Response_def Let_def)

text \<open>The whole of a successful \<open>issueAndRespond\<close>.\<close>

lemma issue_200:
  assumes "issueAndRespond H s r csr peer w = (resp, w')" "rs_Status resp = 200"
  shows "\<exists>c w1 now w2 meta w3 d.
     be_IssueCertificate (srv_CA s) csr w = (Inr c, w1) \<and> he_Now H w1 = (now, w2) \<and>
     meta = \<lparr> md_Requester = CommonName (Subject peer), md_RemoteAddr = rq_RemoteAddr r, md_ReceivedAt = now \<rparr> \<and>
     st_PutCSR (srv_Store s) (SerialNumber c) (csr_Raw csr) meta w2 = (None, w3) \<and>
     st_PutCertificate (srv_Store s) (SerialNumber c) (Raw c) meta w3 = (None, w') \<and>
     EncodeCertsOnly (he_builder H) [Some c] = Inr d \<and> resp = writePKCS7Response d"
  using assms
  by (auto simp: issueAndRespond_def Let_def split: prod.splits sum.splits option.splits if_splits)

text \<open>And of one that fails: how far it came.\<close>

lemma issue_status:
  "issueAndRespond H s r csr peer w = (resp, w') \<Longrightarrow> rs_Status resp \<in> {200, 400, 500}"
  by (auto simp: issueAndRespond_def Let_def split: prod.splits sum.splits option.splits if_splits)

lemma issue_400:
  "issueAndRespond H s r csr peer w = (resp, w') \<Longrightarrow> rs_Status resp = 400 \<Longrightarrow>
     \<exists>err. be_IssueCertificate (srv_CA s) csr w = (Inl err, w') \<and> errors_Is err ErrInvalidCSRSignature"
  by (auto simp: issueAndRespond_def Let_def split: prod.splits sum.splits option.splits if_splits)

text \<open>No answer of 500 says more than that.\<close>

lemma serve_500: "serve H s r w = (resp, w') \<Longrightarrow> rs_Status resp = 500 \<Longrightarrow> resp = internal_error"
  by (auto simp: serve_def handleCACerts_def handleSimpleEnroll_def handleSimpleReenroll_def
      handleCSRAttrs_def issueAndRespond_def Let_def
      split: prod.splits sum.splits option.splits route.splits if_splits)

section \<open>The server's contract\<close>

text \<open>
  A backend and a store that respect their contracts, working on one state: nothing but the store's own
  operations changes what is stored.
\<close>

definition request_metadata :: "x509_cert \<Rightarrow> http_request \<Rightarrow> int \<Rightarrow> metadata" where
  "request_metadata peer r t =
     \<lparr> md_Requester = CommonName (Subject peer), md_RemoteAddr = rq_RemoteAddr r, md_ReceivedAt = t \<rparr>"

locale est_server =
  cert_store S marshal csrs certs metas parse + ca_backend BE sig_ok view trusted
  for S :: "'w store_ops" and marshal :: "metadata \<Rightarrow> bytes result"
    and csrs certs metas :: "'w \<Rightarrow> int \<Rightarrow> bytes option"
    and parse :: "bytes \<Rightarrow> x509_cert result"
    and BE :: "'w cabackend" and sig_ok :: "x509_csr \<Rightarrow> bool" and view :: "'w \<Rightarrow> 'v" and trusted :: bool +
  fixes now :: "'w \<Rightarrow> int \<times> 'w"
  assumes view_store: "view w = view v \<Longrightarrow> csrs w = csrs v \<and> certs w = certs v \<and> metas w = metas v"
    and now_frame: "now w = (t, w') \<Longrightarrow> view w' = view w"
begin

text \<open>A certificate goes out only after everything the enrolment promises.\<close>

lemma issue_stored:
  assumes "issueAndRespond H s r csr peer w = (resp, w')" "rs_Status resp = 200"
    and "srv_CA s = BE" "srv_Store s = S" "he_Now H = now" and trusted
  shows "\<exists>c w1 d j t. be_IssueCertificate BE csr w = (Inr c, w1) \<and> sig_ok csr \<and> \<not> IsCA c \<and>
     csrs w' = (csrs w)(SerialNumber c \<mapsto> csr_Raw csr) \<and>
     certs w' = (certs w)(SerialNumber c \<mapsto> Raw c) \<and> metas w' = (metas w)(SerialNumber c \<mapsto> j) \<and>
     marshal (request_metadata peer r t) = Inr j \<and>
     EncodeCertsOnly (he_builder H) [Some c] = Inr d \<and> resp = writePKCS7Response d"
proof -
  from issue_200 [OF assms(1,2)] assms(3-5) obtain c w1 t w2 meta w3 d where t:
    "be_IssueCertificate BE csr w = (Inr c, w1)" "now w1 = (t, w2)" "meta = request_metadata peer r t"
    "st_PutCSR S (SerialNumber c) (csr_Raw csr) meta w2 = (None, w3)"
    "st_PutCertificate S (SerialNumber c) (Raw c) meta w3 = (None, w')"
    "EncodeCertsOnly (he_builder H) [Some c] = Inr d" "resp = writePKCS7Response d"
    unfolding request_metadata_def by blast
  have "view w2 = view w"
    using issue_frame [OF assms(6) t(1)] now_frame [OF t(2)] by simp
  with view_store have w2: "csrs w2 = csrs w" "certs w2 = certs w" "metas w2 = metas w" by blast+
  from PutCSR_ok [OF t(4)] PutCertificate_ok [OF t(5)] obtain j where "marshal meta = Inr j"
    "csrs w' = (csrs w2)(SerialNumber c \<mapsto> csr_Raw csr)"
    "certs w' = (certs w2)(SerialNumber c \<mapsto> Raw c)" "metas w' = (metas w2)(SerialNumber c \<mapsto> j)"
    by auto
  with w2 have st: "csrs w' = (csrs w)(SerialNumber c \<mapsto> csr_Raw csr)"
    "certs w' = (certs w)(SerialNumber c \<mapsto> Raw c)" "metas w' = (metas w)(SerialNumber c \<mapsto> j)"
    by simp_all
  show ?thesis
    using t(1,3,6,7) st \<open>marshal meta = Inr j\<close> issued_verified [OF t(1)] never_CA [OF assms(6) t(1)]
    by (intro exI [of _ c] exI [of _ w1] exI [of _ d] exI [of _ j] exI [of _ t]) simp
qed

text \<open>
  Whatever happens: nothing is stored, or a certificate has been issued and its request is stored, and
  perhaps then the certificate, and perhaps then its metadata.
\<close>

lemma issue_effects:
  assumes run: "issueAndRespond H s r csr peer w = (resp, w')"
    and "srv_CA s = BE" "srv_Store s = S" "he_Now H = now" and trusted
  shows "csrs w' = csrs w \<and> certs w' = certs w \<and> metas w' = metas w \<or>
     (\<exists>c w1. be_IssueCertificate BE csr w = (Inr c, w1) \<and> csrs w' = (csrs w)(SerialNumber c \<mapsto> csr_Raw csr) \<and>
       (certs w' = certs w \<and> metas w' = metas w \<or>
        certs w' = (certs w)(SerialNumber c \<mapsto> Raw c) \<and>
          (metas w' = metas w \<or>
           (\<exists>j t. marshal (request_metadata peer r t) = Inr j \<and> metas w' = (metas w)(SerialNumber c \<mapsto> j)))))"
proof -
  obtain q w1 where q: "be_IssueCertificate BE csr w = (q, w1)" by (cases "be_IssueCertificate BE csr w")
  have v1: "view w1 = view w" using issue_frame [OF assms(5) q] .
  show ?thesis
  proof (cases q)
    case (Inl e)
    then have "w' = w1" using run q assms(2) by (auto simp: issueAndRespond_def split: if_splits)
    then show ?thesis using view_store [OF v1] by simp
  next
    case (Inr c)
    obtain t w2 where t: "now w1 = (t, w2)" by (cases "now w1")
    have v2: "view w2 = view w" using now_frame [OF t] v1 by simp
    let ?m = "request_metadata peer r t"
    obtain e3 w3 where p3: "st_PutCSR S (SerialNumber c) (csr_Raw csr) ?m w2 = (e3, w3)"
      by (cases "st_PutCSR S (SerialNumber c) (csr_Raw csr) ?m w2")
    obtain e4 w4 where p4: "st_PutCertificate S (SerialNumber c) (Raw c) ?m w3 = (e4, w4)"
      by (cases "st_PutCertificate S (SerialNumber c) (Raw c) ?m w3")
    have w': "w' = (if e3 = None then w4 else w3)"
      using run q t p3 p4 Inr assms(2-4)
      by (auto simp: issueAndRespond_def request_metadata_def Let_def split: option.splits sum.splits)
    note v = view_store [OF v2]
    show ?thesis
    proof (cases e3)
      case (Some e)
      then show ?thesis using p3 PutCSR_error w' v by (metis option.distinct(1))
    next
      case None
      then have 3: "csrs w3 = (csrs w)(SerialNumber c \<mapsto> csr_Raw csr)" "certs w3 = certs w" "metas w3 = metas w"
        using p3 PutCSR_ok v by auto
      have 4: "csrs w4 = csrs w3 \<and> (certs w4 = certs w3 \<and> metas w4 = metas w3 \<or>
          certs w4 = (certs w3)(SerialNumber c \<mapsto> Raw c) \<and>
            (metas w4 = metas w3 \<or> (\<exists>j. marshal ?m = Inr j \<and> metas w4 = (metas w3)(SerialNumber c \<mapsto> j))))"
        using p4 PutCertificate_ok PutCertificate_error by (cases e4) blast+
      have w4: "w' = w4" using w' None by simp
      have "\<exists>j t. marshal (request_metadata peer r t) = Inr j \<and> metas w' = (metas w)(SerialNumber c \<mapsto> j)"
        if "\<exists>j. marshal ?m = Inr j \<and> metas w4 = (metas w3)(SerialNumber c \<mapsto> j)"
        using that w4 3(3) by auto
      then show ?thesis using w4 q Inr 3 4 by (intro disjI2 exI [of _ c] exI [of _ w1]) auto
    qed
  qed
qed

lemma issue_frame_store:
  assumes "issueAndRespond H s r csr peer w = (resp, w')"
    and "srv_CA s = BE" "srv_Store s = S" "he_Now H = now" and trusted
  shows "csrs w' = csrs w \<and> certs w' = certs w \<and> metas w' = metas w \<or>
     (\<exists>c w1. be_IssueCertificate BE csr w = (Inr c, w1) \<and>
       (\<forall>n. n \<noteq> SerialNumber c \<longrightarrow> csrs w' n = csrs w n \<and> certs w' n = certs w n \<and> metas w' n = metas w n))"
  using issue_effects [OF assms] by (elim disjE exE conjE) auto

lemma enroll_200:
  assumes "handleSimpleEnroll H s r w = (resp, w')" "rs_Status resp = 200"
    and "srv_CA s = BE" "srv_Store s = S" "he_Now H = now" and trusted
  shows "\<exists>peer csr c w1 d j. peerCertificate r = Inr peer \<and>
     decodeCSRBody (he_ParseCertificateRequest H) r = Inr csr \<and>
     be_IssueCertificate BE csr w = (Inr c, w1) \<and> sig_ok csr \<and> \<not> IsCA c \<and>
     csrs w' = (csrs w)(SerialNumber c \<mapsto> csr_Raw csr) \<and>
     certs w' = (certs w)(SerialNumber c \<mapsto> Raw c) \<and> metas w' = (metas w)(SerialNumber c \<mapsto> j) \<and>
     EncodeCertsOnly (he_builder H) [Some c] = Inr d \<and> resp = writePKCS7Response d"
proof -
  from assms(1,2) obtain peer csr where p: "peerCertificate r = Inr peer"
    "decodeCSRBody (he_ParseCertificateRequest H) r = Inr csr"
    "issueAndRespond H s r csr peer w = (resp, w')"
    by (auto simp: handleSimpleEnroll_def split: sum.splits)
  from issue_stored [OF p(3) assms(2-6)] p(1,2) show ?thesis by blast
qed

lemma reenroll_200:
  assumes "handleSimpleReenroll H s r w = (resp, w')" "rs_Status resp = 200"
    and "srv_CA s = BE" "srv_Store s = S" "he_Now H = now" and trusted
  shows "\<exists>peer csr c w1 d j. peerCertificate r = Inr peer \<and>
     decodeCSRBody (he_ParseCertificateRequest H) r = Inr csr \<and> identitiesMatch peer csr \<and>
     be_IssueCertificate BE csr w = (Inr c, w1) \<and> sig_ok csr \<and> \<not> IsCA c \<and>
     csrs w' = (csrs w)(SerialNumber c \<mapsto> csr_Raw csr) \<and>
     certs w' = (certs w)(SerialNumber c \<mapsto> Raw c) \<and> metas w' = (metas w)(SerialNumber c \<mapsto> j) \<and>
     EncodeCertsOnly (he_builder H) [Some c] = Inr d \<and> resp = writePKCS7Response d"
proof -
  from assms(1,2) obtain peer csr where p: "peerCertificate r = Inr peer"
    "decodeCSRBody (he_ParseCertificateRequest H) r = Inr csr" "identitiesMatch peer csr"
    "issueAndRespond H s r csr peer w = (resp, w')"
    by (auto simp: handleSimpleReenroll_def split: sum.splits if_splits)
  from issue_stored [OF p(4) assms(2-6)] p(1-3) show ?thesis by blast
qed

text \<open>A request whose signature does not verify is answered 400 and leaves no trace.\<close>

lemma bad_signature_400:
  assumes "\<not> sig_ok csr" "srv_CA s = BE"
  shows "issueAndRespond H s r csr peer w = (http_Error (Text ''CSR signature does not verify'') 400, w)"
  using assms bad_signature [of csr w] by (simp add: issueAndRespond_def)

end

end
