(* ===== verification/TLS.thy ===== *)
theory TLS
  imports Handlers
begin

text \<open>
  \<open>internal/estapi/tls.go\<close>: the server's TLS configuration, and what \<open>crypto/tls\<close> makes of it when a client
  connects. The loading of key pairs, the parsing of certificates and the verification of certificate chains
  are arguments. The lemmas say what a configuration trusts and what a request has behind it when it reaches
  the handlers.
\<close>

section \<open>The configuration\<close>

datatype client_auth =
    NoClientCert
  | RequestClientCert
  | RequireAnyClientCert
  | VerifyClientCertIfGiven
  | RequireAndVerifyClientCert

definition VersionTLS12 :: nat where
  "VersionTLS12 = 0x0303"

text \<open>A certificate pool holds the DER of its certificates.\<close>

record 'c tls_config =
  tls_Certificates :: "'c list"
  tls_ClientAuth :: client_auth
  tls_ClientCAs :: "bytes list"
  tls_MinVersion :: nat

text \<open>The loop over the files; \<open>AppendCertsFromPEM\<close> reports whether it found any certificate.\<close>

fun append_client_cas :: "(bytes \<Rightarrow> x509_cert result) \<Rightarrow> bytes list \<Rightarrow> string list \<Rightarrow> (bytes list result, 'z) os_call"
  where
  "append_client_cas parse pool [] w = (Inr pool, w)"
| "append_client_cas parse pool (f # fs) w =
     (case os_ReadFile f w of
        (Inl e, w) \<Rightarrow> (Inl (ErrWrap ''estapi: read client CA file %s: %w'' [FStr f] e), w)
      | (Inr pemBytes, w) \<Rightarrow>
          if certs_from_PEM parse pemBytes = []
          then (Inl (ErrNew ''estapi: no certificates found in %s'' [FStr f]), w)
          else append_client_cas parse (pool @ certs_from_PEM parse pemBytes) fs w)"

definition BuildTLSConfig ::
  "(string \<Rightarrow> string \<Rightarrow> ('c result, 'z) os_call) \<Rightarrow> (bytes \<Rightarrow> x509_cert result) \<Rightarrow> string \<Rightarrow> string \<Rightarrow> string list
     \<Rightarrow> ('c tls_config result, 'z) os_call" where
  "BuildTLSConfig load parse serverCertFile serverKeyFile clientCAFiles w =
     (case load serverCertFile serverKeyFile w of
        (Inl e, w) \<Rightarrow> (Inl (ErrWrap ''estapi: load server key pair: %w'' [] e), w)
      | (Inr cert, w) \<Rightarrow>
     (case append_client_cas parse [] clientCAFiles w of
        (Inl e, w) \<Rightarrow> (Inl e, w)
      | (Inr pool, w) \<Rightarrow>
          (Inr \<lparr> tls_Certificates = [cert], tls_ClientAuth = VerifyClientCertIfGiven, tls_ClientCAs = pool,
                 tls_MinVersion = VersionTLS12 \<rparr>, w)))"

section \<open>The handshake\<close>

text \<open>
  What a connection brings: the highest version the client speaks, the chain it presents (the leaf first),
  whether the signature it makes with the leaf's key is right, and the time of the handshake.
\<close>

record tls_client =
  tk_Version :: nat
  tk_Chain :: "x509_cert list"
  tk_Proves :: bool
  tk_Now :: int

text \<open>
  The server's side of a full handshake, for the certificates of the client: \<open>Verify\<close> takes the trusted roots, the
  leaf, the intermediates and the time, and checks the chain for client authentication.
\<close>

type_synonym chain_verifier = "bytes list \<Rightarrow> x509_cert \<Rightarrow> x509_cert list \<Rightarrow> int \<Rightarrow> go_error option"

definition handshake :: "chain_verifier \<Rightarrow> 'c tls_config \<Rightarrow> tls_client \<Rightarrow> x509_cert list result" where
  "handshake verify cfg client =
     (if tk_Version client < tls_MinVersion cfg
      then Inl (ErrNew ''tls: client offered only unsupported versions'' [])
      else
     (case (if tls_ClientAuth cfg = NoClientCert then [] else tk_Chain client) of
        [] \<Rightarrow>
          if tls_ClientAuth cfg \<in> {RequireAnyClientCert, RequireAndVerifyClientCert}
          then Inl (ErrNew ''tls: client didn't provide a certificate'' [])
          else Inr []
      | leaf # intermediates \<Rightarrow>
          (case (if tls_ClientAuth cfg \<in> {VerifyClientCertIfGiven, RequireAndVerifyClientCert}
                 then verify (tls_ClientCAs cfg) leaf intermediates (tk_Now client) else None) of
             Some e \<Rightarrow> Inl (ErrWrap ''tls: failed to verify certificate: %w'' [] e)
           | None \<Rightarrow>
               if tk_Proves client then Inr (leaf # intermediates)
               else Inl (ErrNew ''tls: invalid signature by the client certificate'' []))))"

text \<open>
  A request over a connection: after a failed handshake there is none; otherwise the handler sees the chain of the
  handshake.
\<close>

definition serve_tls ::
  "('b, 'w) handler_env \<Rightarrow> 'w server \<Rightarrow> chain_verifier \<Rightarrow> 'c tls_config \<Rightarrow> tls_client \<Rightarrow> http_request \<Rightarrow> 'w
     \<Rightarrow> http_response result \<times> 'w" where
  "serve_tls H s verify cfg client r w =
     (case handshake verify cfg client of
        Inl e \<Rightarrow> (Inl e, w)
      | Inr certs \<Rightarrow> (case serve H s (r \<lparr> rq_TLS := Some certs \<rparr>) w of (resp, w) \<Rightarrow> (Inr resp, w)))"

text \<open>What a client with a verified certificate is.\<close>

definition authenticated :: "chain_verifier \<Rightarrow> 'c tls_config \<Rightarrow> tls_client \<Rightarrow> bool" where
  "authenticated verify cfg client \<longleftrightarrow>
     tk_Chain client \<noteq> [] \<and> VersionTLS12 \<le> tk_Version client \<and> tk_Proves client \<and>
     verify (tls_ClientCAs cfg) (hd (tk_Chain client)) (tl (tk_Chain client)) (tk_Now client) = None"

section \<open>What is trusted\<close>

definition built_config :: "'c tls_config \<Rightarrow> bool" where
  "built_config cfg \<longleftrightarrow> tls_ClientAuth cfg = VerifyClientCertIfGiven \<and> tls_MinVersion cfg = VersionTLS12"

text \<open>Whoever gets past the handshake with a certificate has been verified; nobody needs one.\<close>

lemma handshake_verified:
  assumes "built_config cfg" "handshake verify cfg client = Inr certs"
  shows "certs = tk_Chain client \<and> VersionTLS12 \<le> tk_Version client \<and>
     (certs \<noteq> [] \<longrightarrow> authenticated verify cfg client)"
proof -
  obtain cs where cs: "tk_Chain client = cs" by simp
  show ?thesis using assms unfolding handshake_def built_config_def authenticated_def cs
    by (cases cs) (auto split: if_splits option.splits)
qed

lemma handshake_iff:
  assumes "built_config cfg"
  shows "handshake verify cfg client = Inr (tk_Chain client) \<longleftrightarrow>
     authenticated verify cfg client \<or> tk_Chain client = [] \<and> VersionTLS12 \<le> tk_Version client"
proof -
  obtain cs where cs: "tk_Chain client = cs" by simp
  show ?thesis using assms unfolding handshake_def built_config_def authenticated_def cs
    by (cases cs) (auto split: if_splits option.splits)
qed

text \<open>The pool is made of the files, in their order, and no file is without a certificate.\<close>

lemma append_client_cas_ok:
  "append_client_cas parse pool fs w = (Inr q, w') \<Longrightarrow>
     w_files w' = w_files w \<and> w_dirs w' = w_dirs w \<and>
     list_all (\<lambda>f. w_files w f \<noteq> None \<and> certs_from_PEM parse (f_data (the (w_files w f))) \<noteq> []) fs \<and>
     q = pool @ concat (map (\<lambda>f. certs_from_PEM parse (f_data (the (w_files w f)))) fs)"
proof (induction fs arbitrary: pool w)
  case (Cons f fs)
  from Cons.prems obtain d w1 where r: "os_ReadFile f w = (Inr d, w1)" "certs_from_PEM parse d \<noteq> []"
    "append_client_cas parse (pool @ certs_from_PEM parse d) fs w1 = (Inr q, w')"
    by (auto split: prod.splits sum.splits if_splits)
  from r(1) have f: "w1 = os_tick w" "\<exists>x. w_files w f = Some x \<and> f_data x = d"
    by (auto simp: os_ReadFile_def split: option.splits)
  from Cons.IH [OF r(3)] f r(2) show ?case by (auto simp: os_tick_def)
qed simp

lemma append_client_cas_files:
  "append_client_cas parse pool fs w = (r, w') \<Longrightarrow> w_files w' = w_files w \<and> w_dirs w' = w_dirs w"
  by (induction fs arbitrary: pool w)
    (auto simp: os_ReadFile_def os_tick_def split: prod.splits sum.splits if_splits option.splits)

text \<open>The loader of key pairs reads files and changes none.\<close>

definition loads_only :: "(string \<Rightarrow> string \<Rightarrow> ('c result, 'z) os_call) \<Rightarrow> bool" where
  "loads_only load \<longleftrightarrow> (\<forall>c k w r w'. load c k w = (r, w') \<longrightarrow> w_files w' = w_files w \<and> w_dirs w' = w_dirs w)"

lemma BuildTLSConfig_files:
  "loads_only load \<Longrightarrow> BuildTLSConfig load parse c k fs w = (r, w') \<Longrightarrow> w_files w' = w_files w \<and> w_dirs w' = w_dirs w"
  unfolding loads_only_def
  by (auto simp: BuildTLSConfig_def split: prod.splits sum.splits dest!: append_client_cas_files)

text \<open>
  C20: A TLS configuration that \<open>BuildTLSConfig\<close> returns trusts exactly the certificates of the given files, every
  file contributing at least one; it holds the given key pair, speaks TLS 1.2 or later, and verifies client
  certificates without demanding one. Building it changed no file.
\<close>

theorem tls_config_exact:
  assumes "loads_only load" "BuildTLSConfig load parse certFile keyFile fs w = (Inr cfg, w')"
  shows "(\<exists>cert w1. load certFile keyFile w = (Inr cert, w1) \<and> tls_Certificates cfg = [cert]) \<and>
     tls_ClientAuth cfg = VerifyClientCertIfGiven \<and> tls_MinVersion cfg = VersionTLS12 \<and>
     tls_ClientCAs cfg = concat (map (\<lambda>f. certs_from_PEM parse (f_data (the (w_files w f)))) fs) \<and>
     list_all (\<lambda>f. w_files w f \<noteq> None \<and> certs_from_PEM parse (f_data (the (w_files w f))) \<noteq> []) fs \<and>
     w_files w' = w_files w \<and> w_dirs w' = w_dirs w"
proof -
  from assms(2) obtain cert w1 pool where b: "load certFile keyFile w = (Inr cert, w1)"
    "append_client_cas parse [] fs w1 = (Inr pool, w')"
    "cfg = \<lparr> tls_Certificates = [cert], tls_ClientAuth = VerifyClientCertIfGiven, tls_ClientCAs = pool,
             tls_MinVersion = VersionTLS12 \<rparr>"
    by (auto simp: BuildTLSConfig_def split: prod.splits sum.splits)
  moreover have "w_files w1 = w_files w" "w_dirs w1 = w_dirs w" using assms(1) b(1) unfolding loads_only_def by blast+
  ultimately show ?thesis using append_client_cas_ok [OF b(2)] by simp
qed

definition bundle_world :: os_world where
  "bundle_world = empty_world \<lparr> w_files := (\<lambda>p. if p = ''a.pem'' then Some \<lparr> f_data = pem_bundle [[1], [2]], f_perm = perm_600 \<rparr>
       else if p = ''b.pem'' then Some \<lparr> f_data = pem_EncodeToMemory ''PRIVATE KEY'' [9] @ pem_bundle [[3]], f_perm = perm_600 \<rparr>
       else None) \<rparr>"

definition demo_load :: "string \<Rightarrow> string \<Rightarrow> (string result, 'z) os_call" where
  "demo_load c k w = (Inr (c @ k), w)"

definition demo_parse :: "bytes \<Rightarrow> x509_cert result" where
  "demo_parse d = Inr (demo_template \<lparr> Raw := d \<rparr>)"

lemma bundle_certs:
  "certs_from_PEM demo_parse (pem_bundle [[1], [2]]) = [[1], [2]]"
  "certs_from_PEM demo_parse (pem_EncodeToMemory ''PRIVATE KEY'' [9] @ pem_bundle [[3]]) = [[3]]"
  by (simp_all add: certs_from_PEM_def demo_parse_def)

lemma tls_config_exact_witness:
  "\<exists>cfg w'. BuildTLSConfig demo_load demo_parse ''s.crt'' ''s.key'' [''a.pem'', ''b.pem''] bundle_world = (Inr cfg, w') \<and>
     tls_ClientCAs cfg = [[1], [2], [3]] \<and> tls_Certificates cfg = [''s.crts.key'']"
proof -
  have l: "loads_only demo_load" by (simp add: loads_only_def demo_load_def)
  have "\<exists>cfg w'. BuildTLSConfig demo_load demo_parse ''s.crt'' ''s.key'' [''a.pem'', ''b.pem''] bundle_world = (Inr cfg, w')"
    by (simp add: BuildTLSConfig_def demo_load_def os_ReadFile_def os_fault_def bundle_world_def empty_world_def
        quiet_env_def os_tick_def bundle_certs)
  then obtain cfg w' where b:
    "BuildTLSConfig demo_load demo_parse ''s.crt'' ''s.key'' [''a.pem'', ''b.pem''] bundle_world = (Inr cfg, w')" by blast
  from tls_config_exact [OF l b] have "tls_ClientCAs cfg = [[1], [2], [3]]" "tls_Certificates cfg = [''s.crts.key'']"
    by (auto simp: bundle_world_def demo_load_def bundle_certs)
  with b show ?thesis by blast
qed

end
