(* ===== verification/Ejbca.thy ===== *)
theory Ejbca
  imports Openssl Go_JSON_Text
begin

text \<open>
  \<open>internal/ca/ejbca\<close>: the backend that talks to EJBCA's REST API. The HTTP client and TLS key pairs are
  arguments of the model. The lemmas show that the backend keeps the contract of the interface, say what it
  sends, which the JSON reader reads back, and what it accepts.
\<close>

section \<open>The libraries\<close>

record http_call =
  hc_Method :: string
  hc_URL :: string
  hc_Header :: "(string \<times> string) list"
  hc_Body :: bytes

text \<open>A response: the body may end with an error.\<close>

record http_reply =
  hr_StatusCode :: int
  hr_Body :: "bytes \<times> go_error option"

text \<open>\<open>http.Client\<close> with its transport's TLS configuration; the timeout is in nanoseconds.\<close>

record 'c http_client =
  cl_Certificate :: 'c
  cl_RootCAs :: "bytes list option"
  cl_Timeout :: int

record ('c, 'w) ejbca_lib =
  ej_LoadX509KeyPair :: "string \<Rightarrow> string \<Rightarrow> 'w \<Rightarrow> 'c result \<times> 'w"
  ej_NewRequest :: "string \<Rightarrow> string \<Rightarrow> go_error option"
  ej_Do :: "'c http_client \<Rightarrow> http_call \<Rightarrow> 'w \<Rightarrow> http_reply result \<times> 'w"

section \<open>The code\<close>

record ejbca_options =
  eo_BaseURL :: string
  eo_ClientCertFile :: string
  eo_ClientKeyFile :: string
  eo_ServerCAFile :: string
  eo_CAName :: string
  eo_CASubjectDN :: string
  eo_CertificateProfileName :: string
  eo_EndEntityProfileName :: string

record 'c ejbca_ca =
  ec_client :: "'c http_client"
  ec_baseURL :: string
  ec_caName :: string
  ec_caSubjectDN :: string
  ec_certificateProfileName :: string
  ec_endEntityProfileName :: string

text \<open>\<open>AppendCertsFromPEM\<close> reports whether it found any certificate.\<close>

definition NewEJBCA ::
  "('k, 'm) x509_lib_scheme \<Rightarrow> ('c, 'z os_world_scheme) ejbca_lib \<Rightarrow> ejbca_options \<Rightarrow> ('c ejbca_ca result, 'z) os_call" where
  "NewEJBCA X E opts w =
     (case ej_LoadX509KeyPair E (eo_ClientCertFile opts) (eo_ClientKeyFile opts) w of
        (Inl e, w) \<Rightarrow> (Inl (ErrWrap ''ejbca: load client key pair: %w'' [] e), w)
      | (Inr clientCert, w) \<Rightarrow>
     (let finish = (\<lambda>pool. \<lparr>
            ec_client = \<lparr> cl_Certificate = clientCert, cl_RootCAs = pool, cl_Timeout = 30 * 10 ^ 9 \<rparr>,
            ec_baseURL = TrimRight (eo_BaseURL opts) (CHR ''/''),
            ec_caName = eo_CAName opts, ec_caSubjectDN = eo_CASubjectDN opts,
            ec_certificateProfileName = eo_CertificateProfileName opts,
            ec_endEntityProfileName = eo_EndEntityProfileName opts \<rparr>)
      in if eo_ServerCAFile opts \<noteq> []
         then (case os_ReadFile (eo_ServerCAFile opts) w of
                 (Inl e, w) \<Rightarrow> (Inl (ErrWrap ''ejbca: read server_ca_file: %w'' [] e), w)
               | (Inr pemBytes, w) \<Rightarrow>
                   if certs_from_PEM (x_ParseCertificate X) pemBytes = []
                   then (Inl (ErrNew ''ejbca: no certificates found in %s'' [FStr (eo_ServerCAFile opts)]), w)
                   else (Inr (finish (Some (certs_from_PEM (x_ParseCertificate X) pemBytes))), w))
         else (Inr (finish None), w)))"

text \<open>The bodies, with their JSON names.\<close>

record error_response =
  er_ErrorCode :: int
  er_ErrorMessage :: string

definition zero_error_response :: error_response where
  "zero_error_response = \<lparr> er_ErrorCode = 0, er_ErrorMessage = [] \<rparr>"

definition decode_error_response :: "error_response decoder" where
  "decode_error_response = decode_struct ''ejbca.errorResponse''
     [(''error_code'', json_field decode_int er_ErrorCode (\<lambda>v. er_ErrorCode_update (\<lambda>_. v))),
      (''error_message'', json_field decode_string er_ErrorMessage (\<lambda>v. er_ErrorMessage_update (\<lambda>_. v)))]"

record enroll_request =
  en_CertificateRequest :: string
  en_CertificateProfileName :: string
  en_EndEntityProfileName :: string
  en_CertificateAuthorityName :: string
  en_Username :: string
  en_Password :: string
  en_ResponseFormat :: string

definition enroll_request_json :: "enroll_request \<Rightarrow> json" where
  "enroll_request_json r = JObject
     [(''certificate_request'', JString (en_CertificateRequest r)),
      (''certificate_profile_name'', JString (en_CertificateProfileName r)),
      (''end_entity_profile_name'', JString (en_EndEntityProfileName r)),
      (''certificate_authority_name'', JString (en_CertificateAuthorityName r)),
      (''username'', JString (en_Username r)), (''password'', JString (en_Password r)),
      (''response_format'', JString (en_ResponseFormat r))]"

record enroll_response =
  ep_Certificate :: string

definition zero_enroll_response :: enroll_response where
  "zero_enroll_response = \<lparr> ep_Certificate = [] \<rparr>"

definition decode_enroll_response :: "enroll_response decoder" where
  "decode_enroll_response = decode_struct ''ejbca.enrollResponse''
     [(''certificate'', json_field decode_string ep_Certificate (\<lambda>v. ep_Certificate_update (\<lambda>_. v)))]"

definition httpError :: "int \<Rightarrow> bytes \<Rightarrow> go_error" where
  "httpError statusCode body =
     (case json_Unmarshal decode_error_response zero_error_response body of
        Inr er \<Rightarrow>
          if er_ErrorMessage er \<noteq> []
          then ErrNew ''HTTP %d: %s (error_code %d)'' [FInt statusCode, FStr (er_ErrorMessage er), FInt (er_ErrorCode er)]
          else ErrNew ''HTTP %d: %s'' [FInt statusCode, FStr (string_of body)]
      | Inl _ \<Rightarrow> ErrNew ''HTTP %d: %s'' [FInt statusCode, FStr (string_of body)])"

text \<open>\<open>io.ReadAll\<close> of a response body.\<close>

definition read_all :: "bytes \<times> go_error option \<Rightarrow> bytes result" where
  "read_all b = (case b of (d, None) \<Rightarrow> Inr d | (d, Some e) \<Rightarrow> Inl e)"

text \<open>The loop over the PEM blocks of the chain; the rest gets shorter with every block.\<close>

function pem_chain :: "('k, 'm) x509_lib_scheme \<Rightarrow> x509_cert list \<Rightarrow> bytes \<Rightarrow> x509_cert list result" where
  "pem_chain X certs rest =
     (case pem_Decode rest of
        None \<Rightarrow> Inr certs
      | Some (block, rest') \<Rightarrow>
          (case x_ParseCertificate X (pb_Bytes block) of
             Inl e \<Rightarrow> Inl (ErrWrap ''ejbca: parse CA certificate: %w'' [] e)
           | Inr cert \<Rightarrow> pem_chain X (certs @ [cert]) rest'))"
  by pat_completeness auto
termination
  by (relation "measure (\<lambda>(X, certs, rest). length rest)") (auto dest: pem_Decode_rest)

declare pem_chain.simps [simp del]

definition EJBCA_CACertificates ::
  "('k, 'm) x509_lib_scheme \<Rightarrow> ('c, 'w) ejbca_lib \<Rightarrow> 'c ejbca_ca \<Rightarrow> 'w
     \<Rightarrow> x509_cert option list result \<times> 'w" where
  "EJBCA_CACertificates X E c w =
     (let reqURL = ec_baseURL c @ ''/ca/'' @ PathEscape (ec_caSubjectDN c) @ ''/certificate/download'' in
      case ej_NewRequest E ''GET'' reqURL of
        Some e \<Rightarrow> (Inl (ErrWrap ''ejbca: build CA certificate request: %w'' [] e), w)
      | None \<Rightarrow>
     (case ej_Do E (ec_client c) \<lparr> hc_Method = ''GET'', hc_URL = reqURL, hc_Header = [], hc_Body = [] \<rparr> w of
        (Inl e, w) \<Rightarrow> (Inl (ErrWrap ''ejbca: CA certificate request: %w'' [] e), w)
      | (Inr resp, w) \<Rightarrow>
     (case read_all (hr_Body resp) of
        Inl e \<Rightarrow> (Inl (ErrWrap ''ejbca: read CA certificate response: %w'' [] e), w)
      | Inr body \<Rightarrow>
     if hr_StatusCode resp < 200 \<or> hr_StatusCode resp \<ge> 300
     then (Inl (ErrWrap ''ejbca: %w'' [] (httpError (hr_StatusCode resp) body)), w)
     else
     (case pem_chain X [] body of
        Inl e \<Rightarrow> (Inl e, w)
      | Inr certs \<Rightarrow>
          if length certs = 0
          then (Inl (ErrNew ''ejbca: no certificates found in CA certificate download response'' []), w)
          else (Inr (map Some certs), w)))))"

definition randomCredentials :: "((string \<times> string) result, 'z) os_call" where
  "randomCredentials w =
     (case rand_Read 8 w of
        (Inl e, w) \<Rightarrow> (Inl (ErrWrap ''generate username: %w'' [] e), w)
      | (Inr userBuf, w) \<Rightarrow>
     (case rand_Read 24 w of
        (Inl e, w) \<Rightarrow> (Inl (ErrWrap ''generate password: %w'' [] e), w)
      | (Inr passBuf, w) \<Rightarrow>
          (Inr (''estd-'' @ hex_EncodeToString userBuf, hex_EncodeToString passBuf), w)))"

definition EJBCA_IssueCertificate ::
  "('k, 'm) x509_lib_scheme \<Rightarrow> ('c, 'z os_world_scheme) ejbca_lib \<Rightarrow> 'c ejbca_ca \<Rightarrow> x509_csr
     \<Rightarrow> (x509_cert result, 'z) os_call" where
  "EJBCA_IssueCertificate X E c csr w =
     (case x_CheckSignature X csr of
        Some _ \<Rightarrow> (Inl ErrInvalidCSRSignature, w)
      | None \<Rightarrow>
     (case randomCredentials w of
        (Inl e, w) \<Rightarrow> (Inl (ErrWrap ''ejbca: %w'' [] e), w)
      | (Inr (username, password), w) \<Rightarrow>
     (let csrPEM = pem_EncodeToMemory ''CERTIFICATE REQUEST'' (csr_Raw csr) in
      case json_Marshal (enroll_request_json \<lparr>
             en_CertificateRequest = string_of csrPEM,
             en_CertificateProfileName = ec_certificateProfileName c,
             en_EndEntityProfileName = ec_endEntityProfileName c,
             en_CertificateAuthorityName = ec_caName c,
             en_Username = username, en_Password = password, en_ResponseFormat = ''DER'' \<rparr>) of
        Inl e \<Rightarrow> (Inl (ErrWrap ''ejbca: marshal enroll request: %w'' [] e), w)
      | Inr reqBody \<Rightarrow>
     (let reqURL = ec_baseURL c @ ''/certificate/pkcs10enroll'' in
      case ej_NewRequest E ''POST'' reqURL of
        Some e \<Rightarrow> (Inl (ErrWrap ''ejbca: build enroll request: %w'' [] e), w)
      | None \<Rightarrow>
     (case ej_Do E (ec_client c) \<lparr> hc_Method = ''POST'', hc_URL = reqURL,
             hc_Header = [(''Content-Type'', ''application/json''), (''Accept'', ''application/json'')],
             hc_Body = reqBody \<rparr> w of
        (Inl e, w) \<Rightarrow> (Inl (ErrWrap ''ejbca: enroll request: %w'' [] e), w)
      | (Inr resp, w) \<Rightarrow>
     (case read_all (hr_Body resp) of
        Inl e \<Rightarrow> (Inl (ErrWrap ''ejbca: read enroll response: %w'' [] e), w)
      | Inr body \<Rightarrow>
     if hr_StatusCode resp < 200 \<or> hr_StatusCode resp \<ge> 300
     then (Inl (ErrWrap ''ejbca: %w'' [] (httpError (hr_StatusCode resp) body)), w)
     else
     (case json_Unmarshal decode_enroll_response zero_enroll_response body of
        Inl e \<Rightarrow> (Inl (ErrWrap ''ejbca: unmarshal enroll response: %w'' [] e), w)
      | Inr er \<Rightarrow>
     (case b64_DecodeString (ep_Certificate er) of
        Inl e \<Rightarrow> (Inl (ErrWrap ''ejbca: base64-decode issued certificate: %w'' [] e), w)
      | Inr d \<Rightarrow>
     (case x_ParseCertificate X d of
        Inl e \<Rightarrow> (Inl (ErrWrap ''ejbca: parse issued certificate: %w'' [] e), w)
      | Inr cert \<Rightarrow>
          if IsCA cert
          then (Inl (ErrNew ''ejbca: issued certificate has CA:TRUE; check the %q certificate profile''
                       [FStr (ec_certificateProfileName c)]), w)
          else (Inr cert, w))))))))))"

definition ejbca_backend ::
  "('k, 'm) x509_lib_scheme \<Rightarrow> ('c, 'z os_world_scheme) ejbca_lib \<Rightarrow> 'c ejbca_ca
     \<Rightarrow> 'z os_world_scheme cabackend" where
  "ejbca_backend X E c = \<lparr>
     be_CACertificates = EJBCA_CACertificates X E c,
     be_IssueCertificate = EJBCA_IssueCertificate X E c \<rparr>"

section \<open>The contract\<close>

text \<open>The HTTP client is relied on not to touch the server's files.\<close>

definition client_keeps_files :: "('c, 'z os_world_scheme) ejbca_lib \<Rightarrow> bool" where
  "client_keeps_files E \<longleftrightarrow> (\<forall>cl rq w q w'. ej_Do E cl rq w = (q, w') \<longrightarrow> w_files w' = w_files w)"

lemma do_files: "client_keeps_files E \<Longrightarrow> ej_Do E cl rq w = (q, w') \<Longrightarrow> w_files w' = w_files w"
  unfolding client_keeps_files_def by blast

lemma credentials_files: "randomCredentials w = (r, w') \<Longrightarrow> w_files w' = w_files w"
  by (auto simp: randomCredentials_def split: prod.splits sum.splits dest!: rand_Read_frame)

lemma ejbca_cacerts_files:
  "client_keeps_files E \<Longrightarrow> EJBCA_CACertificates X E c w = (r, w') \<Longrightarrow> w_files w' = w_files w"
  by (auto simp: EJBCA_CACertificates_def Let_def split: prod.splits sum.splits option.splits if_splits
      dest!: do_files)

text \<open>The request that an enrolment sends.\<close>

definition enrolment_body :: "'c ejbca_ca \<Rightarrow> x509_csr \<Rightarrow> string \<Rightarrow> string \<Rightarrow> enroll_request" where
  "enrolment_body c csr user pass = \<lparr>
     en_CertificateRequest = string_of (pem_EncodeToMemory ''CERTIFICATE REQUEST'' (csr_Raw csr)),
     en_CertificateProfileName = ec_certificateProfileName c, en_EndEntityProfileName = ec_endEntityProfileName c,
     en_CertificateAuthorityName = ec_caName c, en_Username = user, en_Password = pass, en_ResponseFormat = ''DER'' \<rparr>"

definition enrolment_call :: "'c ejbca_ca \<Rightarrow> bytes \<Rightarrow> http_call" where
  "enrolment_call c d = \<lparr> hc_Method = ''POST'', hc_URL = ec_baseURL c @ ''/certificate/pkcs10enroll'',
     hc_Header = [(''Content-Type'', ''application/json''), (''Accept'', ''application/json'')], hc_Body = d \<rparr>"

text \<open>What a successful enrolment sent and received.\<close>

lemma ejbca_issue_trace:
  assumes "EJBCA_IssueCertificate X E c csr w = (Inr cert, w')"
  shows "x_CheckSignature X csr = None \<and> \<not> IsCA cert \<and>
    (\<exists>user pass w1 resp body er d.
       randomCredentials w = (Inr (user, pass), w1) \<and>
       ej_Do E (ec_client c) (enrolment_call c (bytes_of (json_text (enroll_request_json (enrolment_body c csr user pass))))) w1
         = (Inr resp, w') \<and>
       hr_Body resp = (body, None) \<and> 200 \<le> hr_StatusCode resp \<and> hr_StatusCode resp < 300 \<and>
       json_Unmarshal decode_enroll_response zero_enroll_response body = Inr er \<and>
       b64_DecodeString (ep_Certificate er) = Inr d \<and> x_ParseCertificate X d = Inr cert)"
  using assms
  by (auto simp: EJBCA_IssueCertificate_def Let_def read_all_def json_Marshal_def enrolment_body_def enrolment_call_def
      split: prod.splits sum.splits option.splits if_splits)

lemma ejbca_issue_files:
  assumes "client_keeps_files E" "EJBCA_IssueCertificate X E c csr w = (r, w')"
  shows "w_files w' = w_files w"
proof (cases "x_CheckSignature X csr")
  case (Some e)
  then show ?thesis using assms(2) by (simp add: EJBCA_IssueCertificate_def)
next
  case None
  obtain q w1 where 1: "randomCredentials w = (q, w1)" by (cases "randomCredentials w")
  have "w' = w1 \<or> (\<exists>rq p. ej_Do E (ec_client c) rq w1 = (p, w'))"
    using assms(2) 1 None
    by (auto simp: EJBCA_IssueCertificate_def Let_def split: prod.splits sum.splits option.splits if_splits)
  then show ?thesis using do_files [OF assms(1)] credentials_files [OF 1] by metis
qed

interpretation ejbca: ca_backend "ejbca_backend X E c" "sig_verifies X" w_files "client_keeps_files E"
proof
  fix csr w w' cert r r'
  show "\<not> sig_verifies X csr \<Longrightarrow>
      be_IssueCertificate (ejbca_backend X E c) csr w = (Inl ErrInvalidCSRSignature, w)"
    by (auto simp: ejbca_backend_def EJBCA_IssueCertificate_def sig_verifies_def)
  show "be_IssueCertificate (ejbca_backend X E c) csr w = (Inr cert, w') \<Longrightarrow> \<not> IsCA cert"
    using ejbca_issue_trace [of X E c csr w cert w'] by (simp add: ejbca_backend_def)
  show "client_keeps_files E \<Longrightarrow> be_IssueCertificate (ejbca_backend X E c) csr w = (r, w') \<Longrightarrow>
      w_files w' = w_files w"
    using ejbca_issue_files [of E X c csr w r w'] by (simp add: ejbca_backend_def)
  show "client_keeps_files E \<Longrightarrow> be_CACertificates (ejbca_backend X E c) w = (r', w') \<Longrightarrow> w_files w' = w_files w"
    using ejbca_cacerts_files [of E X c w r' w'] by (simp add: ejbca_backend_def)
qed

section \<open>Properties\<close>

text \<open>The loop parses every block of the body.\<close>

lemma pem_chain_iff:
  "pem_chain X acc rest = Inr cs \<longleftrightarrow>
     (\<exists>ys. cs = acc @ ys \<and> list_all2 (\<lambda>b y. x_ParseCertificate X (pb_Bytes b) = Inr y) (pem_blocks rest) ys)"
proof (induction X acc rest rule: pem_chain.induct)
  case (1 X acc rest)
  show ?case
  proof (cases "pem_Decode rest")
    case None
    then show ?thesis by (auto simp: pem_chain.simps [of X acc rest] pem_blocks.simps [of rest])
  next
    case (Some p)
    obtain block rest' where p: "pem_Decode rest = Some (block, rest')" using Some by (cases p) simp
    show ?thesis
    proof (cases "x_ParseCertificate X (pb_Bytes block)")
      case (Inl e)
      then show ?thesis using p
        by (simp add: pem_chain.simps [of X acc rest] pem_blocks.simps [of rest] list_all2_Cons1)
    next
      case (Inr cert)
      have "pem_chain X acc rest = pem_chain X (acc @ [cert]) rest'"
        using p Inr by (simp add: pem_chain.simps [of X acc rest])
      moreover have "pem_blocks rest = block # pem_blocks rest'"
        using p by (simp add: pem_blocks.simps [of rest])
      ultimately show ?thesis using 1 [OF p refl Inr] Inr by (auto simp: list_all2_Cons1)
    qed
  qed
qed

lemma list_all2_Some:
  "list_all2 (\<lambda>b y. \<exists>z. y = Some z \<and> f b = Inr z) bs cs \<longleftrightarrow>
     (\<exists>ys. cs = map Some ys \<and> list_all2 (\<lambda>b y. f b = Inr y) bs ys)" (is "?L bs cs = ?R bs cs")
proof
  show "?L bs cs \<Longrightarrow> ?R bs cs"
  proof (induction rule: list_all2_induct)
    case Nil
    then show ?case by simp
  next
    case (Cons b bs y cs)
    then obtain z ys where "y = Some z" "f b = Inr z" "cs = map Some ys" "list_all2 (\<lambda>b y. f b = Inr y) bs ys"
      by blast
    then show ?case by (intro exI [of _ "z # ys"]) simp
  qed
  show "?R bs cs \<Longrightarrow> ?L bs cs" by (auto simp: list_all2_map2)
qed

text \<open>A client that always gets the same reply, for the concrete instances.\<close>

definition demo_client :: "int \<Rightarrow> bytes \<Rightarrow> (unit, os_world) ejbca_lib" where
  "demo_client status body = \<lparr>
     ej_LoadX509KeyPair = (\<lambda>_ _ w. (Inr (), w)), ej_NewRequest = (\<lambda>_ _. None),
     ej_Do = (\<lambda>_ _ w. (Inr \<lparr> hr_StatusCode = status, hr_Body = (body, None) \<rparr>, w)) \<rparr>"

definition demo_ejbca :: "unit ejbca_ca" where
  "demo_ejbca = \<lparr> ec_client = \<lparr> cl_Certificate = (), cl_RootCAs = None, cl_Timeout = 30 * 10 ^ 9 \<rparr>,
     ec_baseURL = ''https://ca'', ec_caName = ''CA'', ec_caSubjectDN = ''CN=CA'',
     ec_certificateProfileName = ''p'', ec_endEntityProfileName = ''e'' \<rparr>"

lemma demo_credentials:
  "\<exists>user pass w1. randomCredentials empty_world = (Inr (user, pass), w1)"
  by (simp add: randomCredentials_def rand_Read_def os_fault_def empty_world_def quiet_env_def)

text \<open>What is sent is ASCII but for the names of the configuration.\<close>

lemma ascii_base64: "ascii (b64_encode d)"
  using b64_DecodeString_ascii [OF b64_DecodeString_encode] by (simp add: list_all_iff byte_code_def)

lemma ascii_pem: "ascii typ \<Longrightarrow> ascii (string_of (pem_EncodeToMemory typ d))"
proof -
  assume t: "ascii typ"
  have "ascii (concat (chunks 64 (b64_encode d)))" using ascii_base64 by (simp add: concat_chunks)
  then have "ascii (concat (map (\<lambda>l. l @ [CHR 0x0A]) (chunks 64 (b64_encode d))))"
    by (auto simp: list_all_iff byte_code_def)
  with t show ?thesis by (simp add: pem_EncodeToMemory_def pem_text_def pem_lines_def byte_code_def)
qed

lemma ascii_hex: "ascii (hex_EncodeToString d)"
proof (induction d)
  case (Cons a d)
  have h: "k < 16 \<Longrightarrow> byte_code (hex_digit k) < 0x80" for k by (simp add: byte_code_def of_char_hex_digit)
  have "unat a div 16 < 16" using unat_byte [of a] by linarith
  then have "byte_code (hex_digit (unat a div 16)) < 0x80" "byte_code (hex_digit (unat a mod 16)) < 0x80"
    by (auto intro!: h)
  then show ?case using Cons by (simp add: hex_EncodeToString_def)
qed (simp add: hex_EncodeToString_def)

lemma ejbca_credentials:
  assumes "randomCredentials w = (Inr (user, pass), w')"
  shows "\<exists>u p w1. rand_Read 8 w = (Inr u, w1) \<and> rand_Read 24 w1 = (Inr p, w') \<and>
     user = ''estd-'' @ hex_EncodeToString u \<and> pass = hex_EncodeToString p \<and>
     length u = 8 \<and> length p = 24 \<and> length user = 21 \<and> length pass = 48"
  using assms
  by (auto simp: randomCredentials_def length_hex_EncodeToString split: prod.splits sum.splits dest!: rand_Read_length)

lemma enrolment_text:
  assumes "list_all utf8_valid [ec_caName c, ec_certificateProfileName c, ec_endEntityProfileName c]"
    and "randomCredentials w = (Inr (user, pass), w')"
  shows "json_parse (bytes_of (json_text (enroll_request_json (enrolment_body c csr user pass)))) =
    Inr (enroll_request_json (enrolment_body c csr user pass))"
proof -
  obtain u p where u: "user = ''estd-'' @ hex_EncodeToString u" "pass = hex_EncodeToString p"
    using ejbca_credentials [OF assms(2)] by blast
  have "ascii user" "ascii pass" using u ascii_hex by (simp_all add: byte_code_def)
  moreover have "ascii (en_CertificateRequest (enrolment_body c csr user pass))"
    by (simp add: enrolment_body_def) (rule ascii_pem, simp add: byte_code_def)
  ultimately have "json_fits 10000 (enroll_request_json (enrolment_body c csr user pass))"
    using assms(1) by (simp add: enroll_request_json_def enrolment_body_def utf8_literal byte_code_def)
  then show ?thesis by (rule json_parse_text)
qed

text \<open>
  C30: The EJBCA backend hands out only what the EJBCA server answered to this very request with a
  status in the 200s: the server was sent a JSON document that it can read, with the PEM of the request, the
  configured names and new one-time credentials; the certificate is the parsed base64 text of the reply's
  document; it is no CA certificate; and the request's own signature has been checked before anything was sent. No
  file is touched if the HTTP client touches none.
\<close>

theorem ejbca_issue_safe:
  assumes "EJBCA_IssueCertificate X E c csr w = (r, w')"
    and "list_all utf8_valid [ec_caName c, ec_certificateProfileName c, ec_endEntityProfileName c]"
  shows "(case r of Inl e \<Rightarrow> True | Inr cert \<Rightarrow>
       x_CheckSignature X csr = None \<and> \<not> IsCA cert \<and>
       (\<exists>user pass w1 sent resp body er d.
          randomCredentials w = (Inr (user, pass), w1) \<and> length user = 21 \<and> length pass = 48 \<and>
          json_parse sent = Inr (enroll_request_json (enrolment_body c csr user pass)) \<and>
          ej_Do E (ec_client c) (enrolment_call c sent) w1 = (Inr resp, w') \<and>
          hr_Body resp = (body, None) \<and> hr_StatusCode resp div 100 = 2 \<and>
          json_Unmarshal decode_enroll_response zero_enroll_response body = Inr er \<and>
          b64_DecodeString (ep_Certificate er) = Inr d \<and> x_ParseCertificate X d = Inr cert)) \<and>
     (client_keeps_files E \<longrightarrow> w_files w' = w_files w)"
proof (cases r)
  case (Inl e)
  then show ?thesis using ejbca_issue_files [OF _ assms(1)] by simp
next
  case (Inr cert)
  from ejbca_issue_trace [OF assms(1) [unfolded Inr]] obtain user pass w1 resp body er d where t:
    "x_CheckSignature X csr = None" "\<not> IsCA cert" "randomCredentials w = (Inr (user, pass), w1)"
    "ej_Do E (ec_client c) (enrolment_call c (bytes_of (json_text (enroll_request_json (enrolment_body c csr user pass))))) w1
       = (Inr resp, w')"
    "hr_Body resp = (body, None)" "200 \<le> hr_StatusCode resp" "hr_StatusCode resp < 300"
    "json_Unmarshal decode_enroll_response zero_enroll_response body = Inr er"
    "b64_DecodeString (ep_Certificate er) = Inr d" "x_ParseCertificate X d = Inr cert" by blast
  have "hr_StatusCode resp div 100 = 2" using t(6,7) by presburger
  moreover have "length user = 21" "length pass = 48" using ejbca_credentials [OF t(3)] by blast+
  ultimately show ?thesis
    using t enrolment_text [OF assms(2) t(3)] ejbca_issue_files [OF _ assms(1)] unfolding Inr sum.case by metis
qed

text \<open>A reply of the EJBCA server.\<close>

definition demo_reply :: "string \<Rightarrow> bytes" where
  "demo_reply t = bytes_of (json_text (JObject [(''certificate'', JString t), (''serial_number'', JString ''01'')]))"

lemma demo_reply_read:
  "utf8_valid t \<Longrightarrow> json_Unmarshal decode_enroll_response zero_enroll_response (demo_reply t) = Inr \<lparr> ep_Certificate = t \<rparr>"
proof -
  assume "utf8_valid t"
  then have "json_fits 10000 (JObject [(''certificate'', JString t), (''serial_number'', JString ''01'')])"
    by (simp add: utf8_literal byte_code_def)
  from json_parse_text [OF this] have p: "json_parse (demo_reply t) =
      Inr (JObject [(''certificate'', JString t), (''serial_number'', JString ''01'')])" unfolding demo_reply_def .
  have "fold_name ''certificate'' \<noteq> fold_name ''serial_number''" by code_simp
  then show ?thesis
    by (simp add: json_Unmarshal_def p decode_enroll_response_def decode_struct_def json_field_def
        decode_string_def find_field_def zero_enroll_response_def)
qed

lemma ejbca_issue_safe_witness:
  "\<exists>cert w'. EJBCA_IssueCertificate (demo_lib demo_template) (demo_client 201 (demo_reply ''MAA='')) demo_ejbca
       (dns_csr [''a'']) empty_world = (Inr cert, w') \<and> \<not> IsCA cert"
proof -
  let ?run = "EJBCA_IssueCertificate (demo_lib demo_template) (demo_client 201 (demo_reply ''MAA='')) demo_ejbca
       (dns_csr [''a'']) empty_world"
  obtain user pass w1 where r: "randomCredentials empty_world = (Inr (user, pass), w1)"
    using demo_credentials by blast
  have "b64_DecodeString ''MAA='' = Inr [0x30, 0]" by code_simp
  moreover have "utf8_valid ''MAA=''" by (simp add: utf8_literal byte_code_def)
  ultimately have "\<exists>cert. fst ?run = Inr cert"
    by (simp add: EJBCA_IssueCertificate_def r demo_client_def demo_lib_def read_all_def demo_template_def
        cert_template_def json_Marshal_def demo_reply_read Let_def)
  then obtain cert w' where c: "?run = (Inr cert, w')" by (cases ?run) auto
  have "list_all utf8_valid [ec_caName demo_ejbca, ec_certificateProfileName demo_ejbca, ec_endEntityProfileName demo_ejbca]"
    by (simp add: demo_ejbca_def utf8_literal byte_code_def)
  from ejbca_issue_safe [OF c this] c show ?thesis by auto
qed

text \<open>
  C37: The CA chain is complete and in order: when the server answers with a status in the 200s,
  \<open>CACertificates\<close> succeeds exactly if the body has at least one PEM block and all of them are
  certificates, and it returns these in the order of the body.
\<close>

theorem ejbca_cacerts_chain:
  assumes "ej_NewRequest E ''GET'' url = None"
    and "url = ec_baseURL c @ ''/ca/'' @ PathEscape (ec_caSubjectDN c) @ ''/certificate/download''"
    and "ej_Do E (ec_client c) \<lparr> hc_Method = ''GET'', hc_URL = url, hc_Header = [], hc_Body = [] \<rparr> w = (Inr resp, w')"
    and "hr_Body resp = (body, None)" "hr_StatusCode resp div 100 = 2"
  shows "EJBCA_CACertificates X E c w = (Inr cs, w') \<longleftrightarrow>
     pem_blocks body \<noteq> [] \<and>
     list_all2 (\<lambda>b y. \<exists>cert. y = Some cert \<and> x_ParseCertificate X (pb_Bytes b) = Inr cert) (pem_blocks body) cs"
proof -
  have s: "200 \<le> hr_StatusCode resp" "hr_StatusCode resp < 300" using assms(5) by presburger+
  have e: "EJBCA_CACertificates X E c w = (Inr cs, w') \<longleftrightarrow>
      (\<exists>ys. pem_chain X [] body = Inr ys \<and> ys \<noteq> [] \<and> cs = map Some ys)"
    using assms s by (auto simp: EJBCA_CACertificates_def Let_def read_all_def split: sum.splits)
  show ?thesis unfolding e pem_chain_iff list_all2_Some by fastforce
qed

lemma ejbca_cacerts_chain_witness:
  "\<exists>cert. EJBCA_CACertificates (demo_lib demo_template)
     (demo_client 200 (pem_bundle [[0x30, 0], [0x30, 0]])) demo_ejbca empty_world = (Inr [Some cert, Some cert], empty_world)"
proof -
  let ?X = "demo_lib demo_template" and ?b = "pem_bundle [[0x30, 0], [0x30, 0]]"
  obtain cert where c: "x_ParseCertificate ?X [0x30, 0] = Inr cert" by (simp add: demo_lib_def)
  have d: "ej_Do (demo_client 200 ?b) cl rq empty_world =
      (Inr \<lparr> hr_StatusCode = 200, hr_Body = (?b, None) \<rparr>, empty_world)" for cl rq
    by (simp add: demo_client_def)
  have n: "ej_NewRequest (demo_client 200 ?b) m u = None" for m u
    by (simp add: demo_client_def)
  have "EJBCA_CACertificates ?X (demo_client 200 ?b) demo_ejbca empty_world = (Inr [Some cert, Some cert], empty_world)"
    using ejbca_cacerts_chain [where c = demo_ejbca and X = ?X and body = ?b and cs = "[Some cert, Some cert]", OF n refl d] c
    by simp
  then show ?thesis by (rule exI)
qed

text \<open>
  A failing EJBCA server is never taken for a bad request: a reply outside the 200s is an error
  that carries the status, and the message of the JSON body when there is one, and that is not
  \<open>ErrInvalidCSRSignature\<close>, so that the client sees 500 and not 400.
\<close>

lemma ejbca_http_failure:
  assumes "x_CheckSignature X csr = None" "randomCredentials w = (Inr (user, pass), w1)"
    and "ej_NewRequest E ''POST'' (ec_baseURL c @ ''/certificate/pkcs10enroll'') = None"
    and "ej_Do E (ec_client c) (enrolment_call c (bytes_of (json_text (enroll_request_json (enrolment_body c csr user pass))))) w1
      = (Inr resp, w')"
    and "hr_Body resp = (body, None)" "hr_StatusCode resp div 100 \<noteq> 2"
  shows "\<exists>e. EJBCA_IssueCertificate X E c csr w = (Inl e, w') \<and> \<not> errors_Is e ErrInvalidCSRSignature \<and>
     e = ErrWrap ''ejbca: %w'' []
       (case map_sum (\<lambda>_. ()) (\<lambda>er. (er_ErrorMessage er, er_ErrorCode er))
               (json_Unmarshal decode_error_response zero_error_response body) of
          Inr (m # msg, code) \<Rightarrow>
            ErrNew ''HTTP %d: %s (error_code %d)'' [FInt (hr_StatusCode resp), FStr (m # msg), FInt code]
        | _ \<Rightarrow> ErrNew ''HTTP %d: %s'' [FInt (hr_StatusCode resp), FStr (string_of body)])"
proof -
  have s: "hr_StatusCode resp < 200 \<or> hr_StatusCode resp \<ge> 300" using assms(6) by presburger
  have h: "httpError n body =
       (case map_sum (\<lambda>_. ()) (\<lambda>er. (er_ErrorMessage er, er_ErrorCode er))
               (json_Unmarshal decode_error_response zero_error_response body) of
          Inr (m # msg, code) \<Rightarrow> ErrNew ''HTTP %d: %s (error_code %d)'' [FInt n, FStr (m # msg), FInt code]
        | _ \<Rightarrow> ErrNew ''HTTP %d: %s'' [FInt n, FStr (string_of body)])" for n
    by (auto simp: httpError_def split: sum.split list.split)
  have "\<not> errors_Is (httpError n body) ErrInvalidCSRSignature" for n
    by (auto simp: httpError_def ErrInvalidCSRSignature_def split: sum.split)
  then have "\<not> errors_Is (ErrWrap ''ejbca: %w'' [] (httpError n body)) ErrInvalidCSRSignature" for n
    by (simp add: ErrInvalidCSRSignature_def)
  moreover have "EJBCA_IssueCertificate X E c csr w =
      (Inl (ErrWrap ''ejbca: %w'' [] (httpError (hr_StatusCode resp) body)), w')"
    using assms s
    by (auto simp: EJBCA_IssueCertificate_def Let_def read_all_def json_Marshal_def enrolment_body_def enrolment_call_def)
  ultimately show ?thesis unfolding h by blast
qed

definition demo_error :: bytes where
  "demo_error = bytes_of (json_text (JObject [(''error_code'', JNumber (int_text 403)), (''error_message'', JString ''no'')]))"

lemma demo_error_read:
  "json_Unmarshal decode_error_response zero_error_response demo_error = Inr \<lparr> er_ErrorCode = 403, er_ErrorMessage = ''no'' \<rparr>"
proof -
  have "json_fits 10000 (JObject [(''error_code'', JNumber (int_text 403)), (''error_message'', JString ''no'')])"
    by (auto simp: utf8_literal byte_code_def)
  from json_parse_text [OF this] show ?thesis
    by (simp add: json_Unmarshal_def demo_error_def decode_error_response_def decode_struct_def json_field_def
        decode_string_def decode_int_def Atoi_int_text find_field_def zero_error_response_def fold_name_def)
qed

end
