(* ===== verification/Server.thy ===== *)
theory Server
  imports Handlers Ejbca
begin

text \<open>
  The server put together: the handlers over the file store and any of the three CA backends, all working
  on one operating system. The contracts of the backends and of the store are joined in an
  interpretation of \<open>est_server\<close>, and the properties say what a client gets and what is left on the disk
  after any request.
\<close>

section \<open>Any backend\<close>

text \<open>What the program uses of code outside the repository and of the system, in one record.\<close>

record ('k, 'c, 'b, 'w) platform =
  pf_x509 :: "'k x509_lib"
  pf_builder :: "'b cb_builder"
  pf_ParseCertificateRequest :: "bytes \<Rightarrow> x509_csr result"
  pf_exec :: "'w subprocess"
  pf_TempDir :: string
  pf_ejbca :: "('c, 'w) ejbca_lib"
  pf_zone :: "int \<Rightarrow> int"

text \<open>The values a variable of type \<open>ca.CABackend\<close> takes.\<close>

datatype ('k, 'c) ca_value =
    LocalCA x509_cert 'k int
  | OpenSSLCA openssl_ca
  | EJBCA "'c ejbca_ca"

definition backend_of ::
  "('k, 'c, 'b, 'z os_world_scheme) platform \<Rightarrow> ('k, 'c) ca_value \<Rightarrow> 'z os_world_scheme cabackend" where
  "backend_of P v =
     (case v of
        LocalCA cert key validity \<Rightarrow> local_backend (pf_x509 P) (random_local_ca cert key validity)
      | OpenSSLCA c \<Rightarrow> openssl_backend (pf_x509 P) (pf_exec P) (pf_TempDir P) c
      | EJBCA c \<Rightarrow> ejbca_backend (pf_x509 P) (pf_ejbca P) c)"

text \<open>What each backend relies on: the signing library, the subprocess, the HTTP client.\<close>

definition backend_trusted ::
  "('k, 'c, 'b, 'z os_world_scheme) platform \<Rightarrow> ('k, 'c) ca_value \<Rightarrow> bool" where
  "backend_trusted P v =
     (case v of
        LocalCA _ _ _ \<Rightarrow> creates_faithfully (pf_x509 P)
      | OpenSSLCA _ \<Rightarrow> keeps_lasting (pf_exec P)
      | EJBCA _ \<Rightarrow> client_keeps_files (pf_ejbca P))"

definition est_instance ::
  "('k, 'c, 'b, 'z os_world_scheme) platform \<Rightarrow> ('k, 'c) ca_value \<Rightarrow> string \<Rightarrow> bytes
     \<Rightarrow> 'z os_world_scheme server" where
  "est_instance P v dir csrAttrsDER =
     NewServer (backend_of P v) (file_store (pf_zone P) (x_ParseCertificate (pf_x509 P)) dir) csrAttrsDER"

definition est_env ::
  "('k, 'c, 'b, 'z os_world_scheme) platform \<Rightarrow> ('b, 'z os_world_scheme) handler_env" where
  "est_env P = \<lparr> he_builder = pf_builder P,
     he_ParseCertificateRequest = pf_ParseCertificateRequest P, he_Now = time_Now \<rparr>"

lemma est_simps [simp]:
  "srv_CA (est_instance P v dir a) = backend_of P v"
  "srv_Store (est_instance P v dir a) = file_store (pf_zone P) (x_ParseCertificate (pf_x509 P)) dir"
  "srv_CSRAttrsDER (est_instance P v dir a) = a"
  "he_builder (est_env P) = pf_builder P"
  "he_ParseCertificateRequest (est_env P) = pf_ParseCertificateRequest P" "he_Now (est_env P) = time_Now"
  by (simp_all add: est_instance_def NewServer_def est_env_def)

interpretation any: ca_backend "backend_of P v" "sig_verifies (pf_x509 P)" lasting_files "backend_trusted P v"
proof
  fix csr w w' c r r'
  show "\<not> sig_verifies (pf_x509 P) csr \<Longrightarrow>
      be_IssueCertificate (backend_of P v) csr w = (Inl ErrInvalidCSRSignature, w)"
    by (cases v)
      (simp_all add: backend_of_def local.bad_signature openssl.bad_signature ejbca.bad_signature)
  show "backend_trusted P v \<Longrightarrow> be_IssueCertificate (backend_of P v) csr w = (Inr c, w') \<Longrightarrow> \<not> IsCA c"
    by (cases v)
      (auto simp: backend_of_def backend_trusted_def
        dest: local.never_CA openssl.never_CA ejbca.never_CA)
  show "backend_trusted P v \<Longrightarrow> be_IssueCertificate (backend_of P v) csr w = (r, w') \<Longrightarrow>
      lasting_files w' = lasting_files w"
    by (cases v)
      (auto simp: backend_of_def backend_trusted_def
        dest: local.issue_frame openssl.issue_frame ejbca.issue_frame intro: lasting_same)
  show "backend_trusted P v \<Longrightarrow> be_CACertificates (backend_of P v) w = (r', w') \<Longrightarrow>
      lasting_files w' = lasting_files w"
    by (cases v)
      (auto simp: backend_of_def backend_trusted_def
        dest: local.cacerts_frame openssl.cacerts_frame ejbca.cacerts_frame intro: lasting_same)
qed

text \<open>Everything a backend issues went through the certificate parser.\<close>

lemma cert_file_parsed:
  "issue_with_cert_file X exec c p q w = (Inr cert, w') \<Longrightarrow> \<exists>d. x_ParseCertificate X d = Inr cert"
  by (auto simp: issue_with_cert_file_def split: prod.splits option.splits sum.splits if_splits)

lemma openssl_issue_parsed:
  "OpenSSL_IssueCertificate X exec tmpdir c csr w = (Inr cert, w') \<Longrightarrow> \<exists>d. x_ParseCertificate X d = Inr cert"
  by (auto simp: OpenSSL_IssueCertificate_def issue_with_csr_file_def Let_def
      split: prod.splits option.splits sum.splits dest: cert_file_parsed)

lemma issued_parsed:
  "be_IssueCertificate (backend_of P v) csr w = (Inr c, w') \<Longrightarrow> \<exists>d. x_ParseCertificate (pf_x509 P) d = Inr c"
  by (cases v)
    (auto simp: backend_of_def local_backend_def openssl_backend_def ejbca_backend_def
      dest: local_issue_trace openssl_issue_parsed ejbca_issue_trace)

section \<open>The joined contract\<close>

lemma store_name_lasting: "store_name dir p \<Longrightarrow> \<not> is_pem p"
  by (auto simp: store_name_def store_paths is_pem_def)

lemma stored_lasting:
  assumes "lasting_files w = lasting_files u" "\<And>n. store_name dir (path n)"
  shows "stored path w = stored path u"
proof
  fix n
  have "\<not> is_pem (path n)" using assms(2) by (rule store_name_lasting)
  then have "w_files w (path n) = w_files u (path n)"
    using assms(1) unfolding lasting_files_def by metis
  then show "stored path w n = stored path u n" by (simp add: stored_def)
qed

interpretation est: est_server "file_store zone parse dir" "marshal_metadata zone" "stored (csrPath dir)" "stored (certPath dir)"
  "stored (certMetaPath dir)" parse "backend_of P v" "sig_verifies (pf_x509 P)" lasting_files
  "backend_trusted P v" time_Now
proof
  fix w u t w'
  show "lasting_files w = lasting_files u \<Longrightarrow> stored (csrPath dir) w = stored (csrPath dir) u \<and>
      stored (certPath dir) w = stored (certPath dir) u \<and>
      stored (certMetaPath dir) w = stored (certMetaPath dir) u"
    using stored_lasting [of w u dir] by simp
  show "time_Now w = (t, w') \<Longrightarrow> lasting_files w' = lasting_files w"
    by (auto dest: time_Now_frame intro: lasting_same)
qed

section \<open>Properties\<close>

lemma mux_paths:
  "mux_clean ''/.well-known/est/cacerts'' = ''/.well-known/est/cacerts''"
  "mux_clean ''/.well-known/est/simpleenroll'' = ''/.well-known/est/simpleenroll''"
  "mux_clean ''/.well-known/est/simplereenroll'' = ''/.well-known/est/simplereenroll''"
  "mux_clean ''/.well-known/est/csrattrs'' = ''/.well-known/est/csrattrs''"
  by code_simp+

lemma find_enroll:
  "mux_find est_patterns m ''/.well-known/est/simpleenroll'' = (if m = ''POST'' then Some SimpleEnroll else None)"
  "mux_find est_patterns m ''/.well-known/est/simplereenroll'' = (if m = ''POST'' then Some SimpleReenroll else None)"
  "mux_find est_patterns m ''/.well-known/est/cacerts'' = (if m \<in> {''GET'', ''HEAD''} then Some CACerts else None)"
  "mux_find est_patterns m ''/.well-known/est/csrattrs'' = (if m \<in> {''GET'', ''HEAD''} then Some CSRAttrs else None)"
  by (auto simp: est_patterns_def method_matches_def)

lemma serve_route:
  "rq_Path r = ''/.well-known/est/cacerts'' \<Longrightarrow> rq_Method r \<in> {''GET'', ''HEAD''} \<Longrightarrow>
     serve H s r w = handleCACerts H s r w"
  "rq_Path r = ''/.well-known/est/simpleenroll'' \<Longrightarrow> rq_Method r = ''POST'' \<Longrightarrow>
     serve H s r w = handleSimpleEnroll H s r w"
  "rq_Path r = ''/.well-known/est/simplereenroll'' \<Longrightarrow> rq_Method r = ''POST'' \<Longrightarrow>
     serve H s r w = handleSimpleReenroll H s r w"
  "rq_Path r = ''/.well-known/est/csrattrs'' \<Longrightarrow> rq_Method r \<in> {''GET'', ''HEAD''} \<Longrightarrow>
     serve H s r w = handleCSRAttrs H s r w"
  by (simp_all only: serve_def Let_def mux_paths find_enroll if_True option.case route.case simp_thms split: if_split)

lemma mux_find_cases:
  "mux_find est_patterns m p = Some h \<Longrightarrow>
     h = CACerts \<and> p = ''/.well-known/est/cacerts'' \<and> m \<in> {''GET'', ''HEAD''} \<or>
     h = SimpleEnroll \<and> p = ''/.well-known/est/simpleenroll'' \<and> m = ''POST'' \<or>
     h = SimpleReenroll \<and> p = ''/.well-known/est/simplereenroll'' \<and> m = ''POST'' \<or>
     h = CSRAttrs \<and> p = ''/.well-known/est/csrattrs'' \<and> m \<in> {''GET'', ''HEAD''}"
  by (simp add: est_patterns_def method_matches_def split: if_split_asm)

text \<open>The routes a request can take, and nothing else touches the state.\<close>

lemma serve_cases:
  assumes "serve H s r w = (resp, w')"
  shows "handleCACerts H s r w = (resp, w') \<and> rq_Path r = ''/.well-known/est/cacerts'' \<and> rq_Method r \<in> {''GET'', ''HEAD''}
    \<or> handleSimpleEnroll H s r w = (resp, w') \<and> rq_Path r = ''/.well-known/est/simpleenroll'' \<and> rq_Method r = ''POST''
    \<or> handleSimpleReenroll H s r w = (resp, w') \<and> rq_Path r = ''/.well-known/est/simplereenroll'' \<and> rq_Method r = ''POST''
    \<or> handleCSRAttrs H s r w = (resp, w') \<and> rq_Path r = ''/.well-known/est/csrattrs'' \<and> rq_Method r \<in> {''GET'', ''HEAD''}
    \<or> w' = w \<and> rs_Status resp \<in> {301, 404, 405}"
proof -
  let ?path = "if rq_Method r = ''CONNECT'' then rq_Path r else mux_clean (rq_Path r)"
  show ?thesis
  proof (cases "?path = rq_Path r")
    case False
    then show ?thesis using assms by (auto simp: serve_def Let_def)
  next
    case True
    show ?thesis
    proof (cases "mux_find est_patterns (rq_Method r) (rq_Path r)")
      case None
      with assms True have "w' = w" "rs_Status resp \<in> {301, 404, 405}"
        unfolding serve_def Let_def by (simp_all split: if_split_asm) auto
      then show ?thesis by blast
    next
      case (Some h)
      with assms True have "(case h of CACerts \<Rightarrow> handleCACerts H s r w | SimpleEnroll \<Rightarrow> handleSimpleEnroll H s r w
          | SimpleReenroll \<Rightarrow> handleSimpleReenroll H s r w | CSRAttrs \<Rightarrow> handleCSRAttrs H s r w) = (resp, w')"
        unfolding serve_def Let_def by simp
      with mux_find_cases [OF Some] show ?thesis by (elim disjE) simp_all
    qed
  qed
qed

text \<open>
  What any request can do to the store: nothing, or, on an enrolment path, for an authenticated client and a
  verified request, what follows from one issued certificate.
\<close>

definition enrolled ::
  "('k, 'c, 'b, 'z os_world_scheme) platform \<Rightarrow> ('k, 'c) ca_value \<Rightarrow> http_request \<Rightarrow> 'z os_world_scheme
     \<Rightarrow> x509_csr \<Rightarrow> x509_cert \<Rightarrow> bool" where
  "enrolled P v r w csr c \<longleftrightarrow>
     rq_Method r = ''POST'' \<and>
     rq_Path r \<in> {''/.well-known/est/simpleenroll'', ''/.well-known/est/simplereenroll''} \<and>
     (\<exists>peer chain. rq_TLS r = Some (peer # chain) \<and>
        (rq_Path r = ''/.well-known/est/simplereenroll'' \<longrightarrow> identitiesMatch peer csr)) \<and>
     decodeCSRBody (pf_ParseCertificateRequest P) r = Inr csr \<and>
     sig_verifies (pf_x509 P) csr \<and> \<not> IsCA c \<and>
     (\<exists>w1. be_IssueCertificate (backend_of P v) csr w = (Inr c, w1))"

text \<open>The metadata of a request: the authenticated client, its address and some time.\<close>

definition recorded :: "('k, 'c, 'b, 'z os_world_scheme) platform \<Rightarrow> http_request \<Rightarrow> bytes \<Rightarrow> bool" where
  "recorded P r j \<longleftrightarrow> (\<exists>peer chain t. rq_TLS r = Some (peer # chain) \<and>
     marshal_metadata (pf_zone P) (request_metadata peer r t) = Inr j)"

lemma enrol_trace:
  assumes "handleSimpleEnroll (est_env P) s r w = (resp, w') \<and> rq_Path r = ''/.well-known/est/simpleenroll'' \<or>
      handleSimpleReenroll (est_env P) s r w = (resp, w') \<and> rq_Path r = ''/.well-known/est/simplereenroll''"
  shows "w' = w \<and> rs_Status resp \<in> {400, 401, 403} \<or> (\<exists>peer chain csr. rq_TLS r = Some (peer # chain) \<and>
      (rq_Path r = ''/.well-known/est/simplereenroll'' \<longrightarrow> identitiesMatch peer csr) \<and>
      decodeCSRBody (pf_ParseCertificateRequest P) r = Inr csr \<and> issueAndRespond (est_env P) s r csr peer w = (resp, w'))"
  using assms
  by (auto simp: handleSimpleEnroll_def handleSimpleReenroll_def peerCertificate_def
      split: sum.splits if_splits option.splits list.splits)

lemma serve_effects:
  assumes "backend_trusted P v" "serve (est_env P) (est_instance P v dir a) r w = (resp, w')"
  shows "stored (csrPath dir) w' = stored (csrPath dir) w \<and> stored (certPath dir) w' = stored (certPath dir) w \<and>
      stored (certMetaPath dir) w' = stored (certMetaPath dir) w \<or>
    (\<exists>csr c. enrolled P v r w csr c \<and>
      stored (csrPath dir) w' = (stored (csrPath dir) w)(SerialNumber c \<mapsto> csr_Raw csr) \<and>
      (stored (certPath dir) w' = stored (certPath dir) w \<and> stored (certMetaPath dir) w' = stored (certMetaPath dir) w \<or>
       stored (certPath dir) w' = (stored (certPath dir) w)(SerialNumber c \<mapsto> Raw c) \<and>
         (stored (certMetaPath dir) w' = stored (certMetaPath dir) w \<or>
          (\<exists>j. recorded P r j \<and> stored (certMetaPath dir) w' = (stored (certMetaPath dir) w)(SerialNumber c \<mapsto> j)))))"
proof -
  let ?H = "est_env P" and ?s = "est_instance P v dir a"
  have ca: "lasting_files w' = lasting_files w" if "handleCACerts ?H ?s r w = (resp, w')"
    using that by (auto simp: handleCACerts_def split: prod.splits sum.splits dest: any.cacerts_frame [OF assms(1)])
  have attrs: "w' = w" if "handleCSRAttrs ?H ?s r w = (resp, w')"
    using that by (auto simp: handleCSRAttrs_def split: if_splits)
  consider "lasting_files w' = lasting_files w"
    | "handleSimpleEnroll ?H ?s r w = (resp, w') \<and> rq_Path r = ''/.well-known/est/simpleenroll'' \<or>
       handleSimpleReenroll ?H ?s r w = (resp, w') \<and> rq_Path r = ''/.well-known/est/simplereenroll''"
      "rq_Method r = ''POST''"
    using serve_cases [OF assms(2)] ca attrs by auto
  then show ?thesis
  proof cases
    case 1
    then show ?thesis using est.view_store [of w' w dir] by simp
  next
    case 2
    from enrol_trace [OF 2(1)] show ?thesis
    proof (elim disjE exE conjE)
      fix peer chain csr
      assume t: "rq_TLS r = Some (peer # chain)"
        "rq_Path r = ''/.well-known/est/simplereenroll'' \<longrightarrow> identitiesMatch peer csr"
        "decodeCSRBody (pf_ParseCertificateRequest P) r = Inr csr" "issueAndRespond ?H ?s r csr peer w = (resp, w')"
      have e: "enrolled P v r w csr c" if "be_IssueCertificate (backend_of P v) csr w = (Inr c, w1)" for c w1
        using t(1-3) 2 that any.issued_verified [OF that] any.never_CA [OF assms(1) that]
        unfolding enrolled_def by blast
      have m: "recorded P r j" if "marshal_metadata (pf_zone P) (request_metadata peer r i) = Inr j" for i j
        using t(1) that unfolding recorded_def by blast
      from est.issue_effects [OF t(4) est_simps(1) est_simps(2) est_simps(6) assms(1)] e m show ?thesis by blast
    qed simp
  qed
qed

lemma serve_enrolled:
  assumes "backend_trusted P v"
    and "serve (est_env P) (est_instance P v dir a) r w = (resp, w')" "rs_Status resp = 200"
    and "rq_Path r \<notin> {''/.well-known/est/cacerts'', ''/.well-known/est/csrattrs''}"
  shows "\<exists>csr c d j. enrolled P v r w csr c \<and>
     stored (csrPath dir) w' = (stored (csrPath dir) w)(SerialNumber c \<mapsto> csr_Raw csr) \<and>
     stored (certPath dir) w' = (stored (certPath dir) w)(SerialNumber c \<mapsto> Raw c) \<and>
     stored (certMetaPath dir) w' = (stored (certMetaPath dir) w)(SerialNumber c \<mapsto> j) \<and> recorded P r j \<and>
     EncodeCertsOnly (pf_builder P) [Some c] = Inr d \<and> resp = writePKCS7Response d"
proof -
  let ?H = "est_env P" and ?s = "est_instance P v dir a"
  have r: "handleSimpleEnroll ?H ?s r w = (resp, w') \<and> rq_Path r = ''/.well-known/est/simpleenroll'' \<or>
       handleSimpleReenroll ?H ?s r w = (resp, w') \<and> rq_Path r = ''/.well-known/est/simplereenroll''"
    "rq_Method r = ''POST''"
    using serve_cases [OF assms(2)] assms(3,4) by auto
  from enrol_trace [OF r(1)] assms(3) obtain peer chain csr where t: "rq_TLS r = Some (peer # chain)"
    "rq_Path r = ''/.well-known/est/simplereenroll'' \<longrightarrow> identitiesMatch peer csr"
    "decodeCSRBody (pf_ParseCertificateRequest P) r = Inr csr" "issueAndRespond ?H ?s r csr peer w = (resp, w')"
    by auto
  from est.issue_stored [OF t(4) assms(3) est_simps(1) est_simps(2) est_simps(6) assms(1)] obtain c w1 d j i where
    c: "be_IssueCertificate (backend_of P v) csr w = (Inr c, w1)" "sig_verifies (pf_x509 P) csr" "\<not> IsCA c"
      "stored (csrPath dir) w' = (stored (csrPath dir) w)(SerialNumber c \<mapsto> csr_Raw csr)"
      "stored (certPath dir) w' = (stored (certPath dir) w)(SerialNumber c \<mapsto> Raw c)"
      "stored (certMetaPath dir) w' = (stored (certMetaPath dir) w)(SerialNumber c \<mapsto> j)"
      "EncodeCertsOnly (pf_builder P) [Some c] = Inr d" "resp = writePKCS7Response d"
      "marshal_metadata (pf_zone P) (request_metadata peer r i) = Inr j" by auto
  then have "enrolled P v r w csr c" "recorded P r j" using t(1-3) r unfolding enrolled_def recorded_def by blast+
  with c(4-8) show ?thesis by (intro exI conjI)
qed

text \<open>A platform on which every step succeeds, for the concrete instances; the serial number drawn is 1.\<close>

definition one_world :: os_world where
  "one_world = empty_world \<lparr> w_env := quiet_env \<lparr> ev_bytes := (\<lambda>t i. if i = 19 then 1 else 0) \<rparr> \<rparr>"

definition one_template :: x509_cert where
  "one_template = cert_template demo_ca (dns_csr [''a'']) 1 [7] 0"

definition demo_platform :: "(unit, unit, bytes result, os_world) platform" where
  "demo_platform = \<lparr> pf_x509 = demo_lib one_template, pf_builder = ref_builder,
     pf_ParseCertificateRequest = (\<lambda>_. Inr (dns_csr [''a''])), pf_exec = demo_exec, pf_TempDir = ''tmp'',
     pf_ejbca = demo_client 201 [], pf_zone = (\<lambda>_. 0) \<rparr>"

definition demo_value :: "(unit, unit) ca_value" where
  "demo_value = LocalCA (dns_cert []) () (10 ^ 9)"

definition demo_request :: "string \<Rightarrow> http_request" where
  "demo_request path = \<lparr> rq_Method = ''POST'', rq_Path = path, rq_TLS = Some [dns_cert [''a'']],
     rq_Body = ([], None), rq_RemoteAddr = ''127.0.0.1:9'' \<rparr>"

lemma demo_trusted: "backend_trusted demo_platform demo_value"
  by (simp add: backend_trusted_def demo_value_def demo_platform_def demo_faithful)

lemma one_serial: "RandomSerial_Next one_world = (Inr 1, os_tick one_world)"
proof -
  have b: "rand_Read 20 one_world = (Inr (replicate 19 0 @ [1]), os_tick one_world)"
    by (simp add: rand_Read_def os_fault_def one_world_def empty_world_def quiet_env_def upt_rec numeral_eq_Suc)
  have "big_endian (clear_top (replicate 19 0 @ [1])) = 1"
    by (simp add: big_endian_def clear_top_def radix_val_def numeral_eq_Suc)
  with b show ?thesis by (simp add: RandomSerial_Next_def)
qed

lemma demo_issued:
  "\<exists>c. be_IssueCertificate (backend_of demo_platform demo_value) (dns_csr [''a'']) one_world =
       (Inr c, os_tick (os_tick one_world)) \<and> SerialNumber c = 1 \<and> Raw c = [0x30, 0]"
proof -
  let ?X = "demo_lib one_template"
  have "subjectKeyID ?X (csr_PublicKey (dns_csr [''a''])) = Inr [7]"
    by (simp add: subjectKeyID_def demo_lib_def)
  moreover have "time_Now (os_tick one_world) = (0, os_tick (os_tick one_world))"
    by (simp add: time_Now_def one_world_def empty_world_def quiet_env_def)
  moreover have "x_CreateCertificate ?X s one_template p k q = Inr [0x30, 0]" for s p k q
    by (simp add: demo_lib_def)
  moreover have "lc_serials demo_ca = RandomSerial_Next" by (simp add: demo_ca_def)
  ultimately have "\<exists>c. LocalCA_IssueCertificate ?X demo_ca (dns_csr [''a'']) one_world =
       (Inr c, os_tick (os_tick one_world)) \<and> SerialNumber c = SerialNumber one_template \<and> Raw c = [0x30, 0]"
    using one_serial
    by (simp add: LocalCA_IssueCertificate_def demo_lib_def [THEN arg_cong, of x_CheckSignature]
        demo_lib_def [THEN arg_cong, of x_ParseCertificate] flip: one_template_def)
  moreover have "SerialNumber one_template = 1" by (simp add: one_template_def cert_template_def Let_def)
  ultimately show ?thesis
    by (simp add: backend_of_def demo_platform_def demo_value_def local_backend_def demo_ca_def)
qed

lemma demo_serve:
  "\<exists>resp w'. serve (est_env demo_platform) (est_instance demo_platform demo_value ''db'' [])
       (demo_request ''/.well-known/est/simpleenroll'') one_world = (resp, w') \<and> rs_Status resp = 200"
proof -
  note run = example_paths example_cert_paths PutCSR_def PutCertificate_def writeFileAtomic_def fill_and_rename_def
    os_MkdirAll_def os_CreateTemp_def create_temp.simps temp_parts_def temp_join_def os_Write_def
    os_Close_def os_Chmod_def os_Rename_def os_Remove_def os_fault_def one_world_def
    empty_world_def quiet_env_def Let_def set_file_def os_tick_def
  let ?w = "os_tick (os_tick (os_tick one_world))"
  obtain c where c: "be_IssueCertificate (backend_of demo_platform demo_value) (dns_csr [''a'']) one_world =
       (Inr c, os_tick (os_tick one_world))" "SerialNumber c = 1" "Raw c = [0x30, 0]"
    using demo_issued by blast
  have t: "time_Now (os_tick (os_tick one_world)) = (0, ?w)"
    by (simp add: time_Now_def one_world_def empty_world_def quiet_env_def)
  have p1: "fst (PutCSR ''db'' 1 d m ?w) = None" for d m by (simp add: run)
  have p2: "fst (PutCertificate (\<lambda>_. 0) ''db'' 1 [0x30, 0] m (snd (PutCSR ''db'' 1 d m ?w))) = None"
    if at0: "md_ReceivedAt m = 0" for d m
  proof -
    obtain j where "marshal_metadata (\<lambda>_. 0) m = Inr j" using marshal_at_epoch [OF at0] by blast
    then show ?thesis by (simp add: run)
  qed
  have b: "EncodeCertsOnly ref_builder [Some c] = Inr (der (certs_only_tree [[0x30, 0]]))"
    using ref.encode_certs_only [of "[Some c]"] ref_certs_only_eval c(3)
    by (simp add: raw_of_def no_raw_def max_content_def del: der.simps)
  have d: "decodeCSRBody (\<lambda>_. Inr (dns_csr [''a''])) (demo_request p) = Inr (dns_csr [''a''])" for p
    by (simp add: decodeCSRBody_def demo_request_def read_limited_def stripWhitespace_def go_runes.simps
        b64_DecodeString_def b64_dec.simps)
  let ?m = "\<lparr> md_Requester = CommonName (Subject (dns_cert [''a''])), md_RemoteAddr = ''127.0.0.1:9'', md_ReceivedAt = 0 \<rparr>"
  obtain w4 where w4: "PutCSR ''db'' 1 (csr_Raw (dns_csr [''a''])) ?m ?w = (None, w4)"
    using p1 by (metis prod.collapse)
  obtain w5 where w5: "PutCertificate (\<lambda>_. 0) ''db'' 1 [0x30, 0] ?m w4 = (None, w5)"
    using p2 [of ?m "csr_Raw (dns_csr [''a''])"] w4 by (cases "PutCertificate (\<lambda>_. 0) ''db'' 1 [0x30, 0] ?m w4") simp
  have "issueAndRespond (est_env demo_platform) (est_instance demo_platform demo_value ''db'' [])
       (demo_request p) (dns_csr [''a'']) (dns_cert [''a'']) one_world =
       (writePKCS7Response (der (certs_only_tree [[0x30, 0]])), w5)" for p
    using c t b w4 w5
    by (simp add: issueAndRespond_def file_store_def demo_request_def Let_def demo_platform_def
        del: der.simps)
  moreover have "peerCertificate (demo_request p) = Inr (dns_cert [''a''])" for p
    by (simp add: peerCertificate_def demo_request_def)
  moreover have "he_ParseCertificateRequest (est_env demo_platform) = (\<lambda>_. Inr (dns_csr [''a'']))"
    by (simp add: demo_platform_def)
  moreover have "rq_Path (demo_request p) = p" "rq_Method (demo_request p) = ''POST''" for p
    by (simp_all add: demo_request_def)
  ultimately have "serve (est_env demo_platform) (est_instance demo_platform demo_value ''db'' [])
       (demo_request ''/.well-known/est/simpleenroll'') one_world =
       (writePKCS7Response (der (certs_only_tree [[0x30, 0]])), w5)"
    using d by (simp add: serve_route(2) handleSimpleEnroll_def del: der.simps)
  then show ?thesis by (intro exI conjI, assumption) (rule status_simps)
qed



text \<open>
  What \<open>x509.ParseCertificate\<close> documents: the input is one DER SEQUENCE, kept as \<open>Raw\<close>, and trailing data is
  an error.
\<close>

definition reads_one_certificate :: "('k, 'm) x509_lib_scheme \<Rightarrow> bool" where
  "reads_one_certificate X \<longleftrightarrow>
     (\<forall>d c. x_ParseCertificate X d = Inr c \<longrightarrow> Raw c = d \<and> (\<exists>x. d = der_tlv tag_SEQUENCE x))"

lemma response_text: "\<exists>t. rs_Body (writePKCS7Response d) = Text t \<and> b64_DecodeString t = Inr d"
  using body_decodes by (simp add: writePKCS7Response_def writeBase64Response_def Let_def)

text \<open>
  C3: The client gets its certificate: the body of a successful enrolment is base64 text of a certs-only
  message, and a conforming client that decodes it finds exactly one certificate, the one that was issued
  and stored under its serial number.
\<close>

theorem enrolment_delivered:
  assumes "cryptobyte (pf_builder P) enc_oid R" and "reads_one_certificate (pf_x509 P)"
    and "backend_trusted P v"
    and "serve (est_env P) (est_instance P v dir a) r w = (resp, w')" "rs_Status resp = 200"
    and "rq_Path r \<in> {''/.well-known/est/simpleenroll'', ''/.well-known/est/simplereenroll''}"
  shows "\<exists>c csr w1 t msg. be_IssueCertificate (backend_of P v) csr w = (Inr c, w1) \<and>
     stored (certPath dir) w' (SerialNumber c) = Some (Raw c) \<and>
     rs_Body resp = Text t \<and> b64_DecodeString t = Inr msg \<and>
     (length (der (certs_only_tree [Raw c])) \<le> max_content \<longrightarrow>
        DecodeCertsOnly R (x_ParseCertificate (pf_x509 P)) msg = Some (Inr [c]))"
proof -
  have main: "handleSimpleEnroll (est_env P) (est_instance P v dir a) r w = (resp, w') \<or>
      handleSimpleReenroll (est_env P) (est_instance P v dir a) r w = (resp, w')"
    using serve_cases [OF assms(4)] assms(5,6) by auto
  obtain csr c w1 d where c: "be_IssueCertificate (backend_of P v) csr w = (Inr c, w1)"
    "stored (certPath dir) w' = (stored (certPath dir) w)(SerialNumber c \<mapsto> Raw c)"
    "EncodeCertsOnly (pf_builder P) [Some c] = Inr d" "resp = writePKCS7Response d"
    using main
  proof
    assume "handleSimpleEnroll (est_env P) (est_instance P v dir a) r w = (resp, w')"
    from est.enroll_200 [OF this assms(5) est_simps(1) est_simps(2) est_simps(6) assms(3)] that show thesis
      unfolding est_simps by blast
  next
    assume "handleSimpleReenroll (est_env P) (est_instance P v dir a) r w = (resp, w')"
    from est.reenroll_200 [OF this assms(5) est_simps(1) est_simps(2) est_simps(6) assms(3)] that show thesis
      unfolding est_simps by blast
  qed
  obtain t where t: "rs_Body resp = Text t" "b64_DecodeString t = Inr d"
    using response_text c(4) by blast
  obtain e where e: "x_ParseCertificate (pf_x509 P) e = Inr c" using issued_parsed [OF c(1)] by blast
  with assms(2) have raw: "x_ParseCertificate (pf_x509 P) (Raw c) = Inr c" "\<exists>x. Raw c = der_tlv tag_SEQUENCE x"
    unfolding reads_one_certificate_def by metis+
  have "DecodeCertsOnly R (x_ParseCertificate (pf_x509 P)) d = Some (Inr [c])"
    if "length (der (certs_only_tree [Raw c])) \<le> max_content"
    using cryptobyte.decode_encode [OF assms(1), of "[c]" "x_ParseCertificate (pf_x509 P)"] that raw c(3) by simp
  with c(1,2) t show ?thesis
    by (intro exI [of _ c] exI [of _ csr] exI [of _ w1] exI [of _ t] exI [of _ d]) simp
qed

lemma enrolment_delivered_witness:
  "\<exists>resp w' c t msg. serve (est_env demo_platform) (est_instance demo_platform demo_value ''db'' [])
       (demo_request ''/.well-known/est/simpleenroll'') one_world = (resp, w') \<and>
     rs_Body resp = Text t \<and> b64_DecodeString t = Inr msg \<and>
     DecodeCertsOnly ref_reader (x_ParseCertificate (demo_lib one_template)) msg = Some (Inr [c])"
proof -
  obtain resp w' where r: "serve (est_env demo_platform) (est_instance demo_platform demo_value ''db'' [])
       (demo_request ''/.well-known/est/simpleenroll'') one_world = (resp, w')" "rs_Status resp = 200"
    using demo_serve by blast
  have pf: "pf_builder demo_platform = ref_builder" "pf_x509 demo_platform = demo_lib one_template"
    by (simp_all add: demo_platform_def)
  have cb: "cryptobyte (pf_builder demo_platform) ref_oid ref_reader"
    using ref.cryptobyte_axioms pf by simp
  have one: "reads_one_certificate (pf_x509 demo_platform)"
    unfolding pf reads_one_certificate_def
    by (auto simp: demo_lib_def der_tlv_def der_length_def exI [of _ "[]"] split: if_splits)
  have p: "rq_Path (demo_request ''/.well-known/est/simpleenroll'') \<in>
      {''/.well-known/est/simpleenroll'', ''/.well-known/est/simplereenroll''}" by (simp add: demo_request_def)
  from enrolment_delivered [OF cb one demo_trusted r p] show ?thesis
  proof (elim exE conjE)
    fix c csr w1 t msg
    assume c: "be_IssueCertificate (backend_of demo_platform demo_value) csr one_world = (Inr c, w1)"
      "rs_Body resp = Text t" "b64_DecodeString t = Inr msg"
      "length (der (certs_only_tree [Raw c])) \<le> max_content \<longrightarrow>
        DecodeCertsOnly ref_reader (x_ParseCertificate (pf_x509 demo_platform)) msg = Some (Inr [c])"
    from issued_parsed [OF c(1)] have "Raw c = [0x30, 0]"
      by (auto simp: pf demo_lib_def split: if_splits)
    then have "length (der (certs_only_tree [Raw c])) \<le> max_content"
      using ref_certs_only_eval by (simp add: max_content_def del: der.simps)
    with c r(1) show ?thesis unfolding pf by blast
  qed
qed

text \<open>
  Nobody enrols without a certificate: on both enrolment paths a client that presented none is
  answered 401, whatever its body is, and neither the backend nor the store is ever called: the state of
  the system is exactly what it was.
\<close>

lemma unauthenticated_refused:
  assumes "rq_TLS r \<in> {None, Some []}" and "rq_Method r = ''POST''"
    and "rq_Path r \<in> {''/.well-known/est/simpleenroll'', ''/.well-known/est/simplereenroll''}"
  shows "serve H s r w = (http_Error (Text ''client certificate required'') 401, w)"
proof -
  have "\<exists>e. peerCertificate r = Inl e" using assms(1) by (auto simp: peerCertificate_def)
  then show ?thesis
    using assms(2,3) serve_route(2,3) [of r H s w]
    by (auto simp: handleSimpleEnroll_def handleSimpleReenroll_def)
qed

text \<open>
  C11: A bad enrolment request leaves no trace: a body that does not decode and a request whose signature
  does not verify are answered 400, and a renewal under another identity 403, each with the state of the
  system exactly what it was.
\<close>

theorem bad_requests_refused:
  assumes "rq_TLS r = Some (peer # chain)" and "rq_Method r = ''POST''"
    and "rq_Path r \<in> {''/.well-known/est/simpleenroll'', ''/.well-known/est/simplereenroll''}"
  shows "(case decodeCSRBody (pf_ParseCertificateRequest P) r of
      Inl e \<Rightarrow> serve (est_env P) (est_instance P v dir a) r w = (http_Error (ErrorText e) 400, w)
    | Inr csr \<Rightarrow>
        if rq_Path r = ''/.well-known/est/simplereenroll'' \<and> \<not> identitiesMatch peer csr
        then serve (est_env P) (est_instance P v dir a) r w =
          (http_Error (Text ''CSR identity does not match authenticated client certificate'') 403, w)
        else x_CheckSignature (pf_x509 P) csr = None \<or>
          serve (est_env P) (est_instance P v dir a) r w =
            (http_Error (Text ''CSR signature does not verify'') 400, w))"
proof -
  let ?H = "est_env P" and ?s = "est_instance P v dir a"
  have p: "peerCertificate r = Inr peer" using assms(1) by (simp add: peerCertificate_def)
  have bad: "x_CheckSignature (pf_x509 P) csr = None \<or>
      issueAndRespond ?H ?s r csr peer w = (http_Error (Text ''CSR signature does not verify'') 400, w)" for csr
    using est.bad_signature_400 [of P csr ?s v ?H r peer w]
    by (cases "x_CheckSignature (pf_x509 P) csr") (simp_all add: sig_verifies_def)
  have "serve ?H ?s r w = (if rq_Path r = ''/.well-known/est/simpleenroll'' then handleSimpleEnroll ?H ?s r w
      else handleSimpleReenroll ?H ?s r w)"
    using assms(2,3) serve_route(2,3) [of r ?H ?s w] by auto
  then show ?thesis
    using p assms(3) bad
    by (auto simp: handleSimpleEnroll_def handleSimpleReenroll_def split: sum.split)
qed

lemma bad_requests_refused_witness:
  "serve (est_env demo_platform) (est_instance demo_platform demo_value ''db'' [])
     ((demo_request ''/.well-known/est/simplereenroll'') \<lparr> rq_TLS := Some [dns_cert [''b'']] \<rparr>) one_world =
   (http_Error (Text ''CSR identity does not match authenticated client certificate'') 403, one_world)"
proof -
  let ?r = "(demo_request ''/.well-known/est/simplereenroll'') \<lparr> rq_TLS := Some [dns_cert [''b'']] \<rparr>"
  have d: "decodeCSRBody (pf_ParseCertificateRequest demo_platform) ?r = Inr (dns_csr [''a''])"
    by (simp add: decodeCSRBody_def demo_request_def read_limited_def stripWhitespace_def go_runes.simps
        b64_DecodeString_def b64_dec.simps demo_platform_def)
  have m: "\<not> identitiesMatch (dns_cert [''b'']) (dns_csr [''a''])" by code_simp
  have r: "rq_TLS ?r = Some [dns_cert [''b'']]" "rq_Method ?r = ''POST''"
    "rq_Path ?r = ''/.well-known/est/simplereenroll''" by (simp_all add: demo_request_def)
  from bad_requests_refused [OF r(1,2), of demo_platform demo_value "''db''" "[]" one_world] d m r(3)
  show ?thesis by simp
qed

text \<open>
  A request writes under one serial number at most: whatever the request and however it ends, at most
  one serial number's files change, and then the backend has just issued a certificate with this number
  in an enrolment; the other two routes and every refused request change nothing that is stored.
\<close>

lemma one_serial_per_request:
  assumes "backend_trusted P v" and "serve (est_env P) (est_instance P v dir a) r w = (resp, w')"
  shows "(\<forall>n. stored (csrPath dir) w' n = stored (csrPath dir) w n \<and>
            stored (certPath dir) w' n = stored (certPath dir) w n \<and>
            stored (certMetaPath dir) w' n = stored (certMetaPath dir) w n) \<or>
    (\<exists>csr c w1. rs_Status resp \<in> {200, 500} \<and>
       rq_Path r \<in> {''/.well-known/est/simpleenroll'', ''/.well-known/est/simplereenroll''} \<and>
       be_IssueCertificate (backend_of P v) csr w = (Inr c, w1) \<and>
       (\<forall>n. n \<noteq> SerialNumber c \<longrightarrow> stored (csrPath dir) w' n = stored (csrPath dir) w n \<and>
            stored (certPath dir) w' n = stored (certPath dir) w n \<and>
            stored (certMetaPath dir) w' n = stored (certMetaPath dir) w n))"
proof -
  let ?H = "est_env P" and ?s = "est_instance P v dir a"
  have same: "stored (csrPath dir) w' = stored (csrPath dir) w \<and> stored (certPath dir) w' = stored (certPath dir) w \<and>
      stored (certMetaPath dir) w' = stored (certMetaPath dir) w" if "lasting_files w' = lasting_files w"
    using est.view_store [OF that] .
  have ca: "lasting_files w' = lasting_files w" if "handleCACerts ?H ?s r w = (resp, w')"
    using that by (auto simp: handleCACerts_def split: prod.splits sum.splits dest: any.cacerts_frame [OF assms(1)])
  have attrs: "w' = w" if "handleCSRAttrs ?H ?s r w = (resp, w')"
    using that by (auto simp: handleCSRAttrs_def split: if_splits)
  have issue: "w' = w \<or> (\<exists>csr peer. issueAndRespond ?H ?s r csr peer w = (resp, w'))"
    if "handleSimpleEnroll ?H ?s r w = (resp, w') \<or> handleSimpleReenroll ?H ?s r w = (resp, w')"
    using that by (auto simp: handleSimpleEnroll_def handleSimpleReenroll_def split: sum.splits if_splits)
  consider "lasting_files w' = lasting_files w" | csr peer where
    "issueAndRespond ?H ?s r csr peer w = (resp, w')"
    "rq_Path r \<in> {''/.well-known/est/simpleenroll'', ''/.well-known/est/simplereenroll''}"
    using serve_cases [OF assms(2)] ca attrs issue by auto
  then show ?thesis
  proof cases
    case 1
    then show ?thesis using same by simp
  next
    case 2
    from est.issue_frame_store [OF 2(1) est_simps(1) est_simps(2) est_simps(6) assms(1)] show ?thesis
    proof (elim disjE exE conjE)
      assume "stored (csrPath dir) w' = stored (csrPath dir) w" "stored (certPath dir) w' = stored (certPath dir) w"
        "stored (certMetaPath dir) w' = stored (certMetaPath dir) w"
      then show ?thesis by simp
    next
      fix c w1 assume c: "be_IssueCertificate (backend_of P v) csr w = (Inr c, w1)"
        "\<forall>n. n \<noteq> SerialNumber c \<longrightarrow> stored (csrPath dir) w' n = stored (csrPath dir) w n \<and>
            stored (certPath dir) w' n = stored (certPath dir) w n \<and>
            stored (certMetaPath dir) w' n = stored (certMetaPath dir) w n"
      have "rs_Status resp \<noteq> 400" using issue_400 [OF 2(1)] c(1) by auto
      then have "rs_Status resp \<in> {200, 500}" using issue_status [OF 2(1)] by auto
      with c 2(2) show ?thesis by blast
    qed
  qed
qed

text \<open>
  C36: \<open>/cacerts\<close> distributes the CA's own certificate: with the in-process and the openssl backend every
  GET is answered 200 without a state change, and a conforming client decodes the body to exactly the
  configured certificate.
\<close>

theorem cacerts_distributed:
  assumes "cryptobyte (pf_builder P) enc_oid R"
    and "x_ParseCertificate (pf_x509 P) (Raw cert) = Inr cert" "\<exists>x. Raw cert = der_tlv tag_SEQUENCE x"
    and "length (der (certs_only_tree [Raw cert])) \<le> max_content"
    and "v = LocalCA cert key validity \<or> v = OpenSSLCA oc \<and> oc_caCert oc = cert"
    and "rq_Method r = ''GET''" "rq_Path r = ''/.well-known/est/cacerts''"
  shows "\<exists>resp t msg. serve (est_env P) (est_instance P v dir a) r w = (resp, w) \<and> rs_Status resp = 200 \<and>
     rs_Header resp = [(''Content-Type'', ''application/pkcs7-mime; smime-type=certs-only'')] \<and>
     rs_Body resp = Text t \<and> b64_DecodeString t = Inr msg \<and>
     DecodeCertsOnly R (x_ParseCertificate (pf_x509 P)) msg = Some (Inr [cert])"
proof -
  have "be_CACertificates (backend_of P v) w = (Inr [Some cert], w)"
    using assms(5) by (auto simp: backend_of_def local_backend_def LocalCA_CACertificates_def random_local_ca_def
        NewLocalCA_def openssl_backend_def OpenSSL_CACertificates_def)
  moreover obtain msg where m: "EncodeCertsOnly (pf_builder P) [Some cert] = Inr msg"
    "DecodeCertsOnly R (x_ParseCertificate (pf_x509 P)) msg = Some (Inr [cert])"
    using cryptobyte.decode_encode [OF assms(1), of "[cert]" "x_ParseCertificate (pf_x509 P)"] assms(2-4) by auto
  ultimately have "serve (est_env P) (est_instance P v dir a) r w = (writePKCS7Response msg, w)"
    using assms(6,7) m(1) by (simp add: serve_route(1) handleCACerts_def)
  moreover have "rs_Header (writePKCS7Response msg) =
      [(''Content-Type'', ''application/pkcs7-mime; smime-type=certs-only'')]"
    by (simp add: writePKCS7Response_def writeBase64Response_def contentTypePKCS7Mime_def Let_def)
  ultimately show ?thesis using m(2) response_text [of msg] status_simps(3) [of msg] by blast
qed

lemma cacerts_distributed_witness:
  "\<exists>cert resp t msg. serve (est_env demo_platform) (est_instance demo_platform (LocalCA cert () 1) ''db'' [])
       ((demo_request ''/.well-known/est/cacerts'') \<lparr> rq_Method := ''GET'' \<rparr>) one_world = (resp, one_world) \<and>
     rs_Status resp = 200 \<and> rs_Body resp = Text t \<and> b64_DecodeString t = Inr msg \<and>
     DecodeCertsOnly ref_reader (x_ParseCertificate (demo_lib one_template)) msg = Some (Inr [cert])"
proof -
  obtain cert where c: "x_ParseCertificate (demo_lib one_template) [0x30, 0] = Inr cert" "Raw cert = [0x30, 0]"
    by (simp add: demo_lib_def)
  have pf: "pf_builder demo_platform = ref_builder" "pf_x509 demo_platform = demo_lib one_template"
    by (simp_all add: demo_platform_def)
  have l: "length (der (certs_only_tree [Raw cert])) \<le> max_content"
    using ref_certs_only_eval c(2) by (simp add: max_content_def del: der.simps)
  have x: "\<exists>x. Raw cert = der_tlv tag_SEQUENCE x"
    using c(2) by (simp add: der_tlv_def der_length_def exI [of _ "[]"])
  let ?r = "(demo_request ''/.well-known/est/cacerts'') \<lparr> rq_Method := ''GET'' \<rparr>"
  have r: "rq_Method ?r = ''GET''" "rq_Path ?r = ''/.well-known/est/cacerts''" by (simp_all add: demo_request_def)
  have "cryptobyte (pf_builder demo_platform) ref_oid ref_reader" using ref.cryptobyte_axioms pf by simp
  from cacerts_distributed [OF this _ x l, of "LocalCA cert () 1" "()" 1 undefined ?r "''db''" "[]" one_world, OF _ _ r] c
  show ?thesis unfolding pf by (intro exI [of _ cert]) auto
qed

text \<open>
  \<open>/csrattrs\<close> answers with what was encoded at startup: 204 without a body exactly when nothing is
  configured, and otherwise 200 with a body that decodes to the configured DER.
\<close>

lemma csrattrs_served:
  assumes "rq_Method r = ''GET''" "rq_Path r = ''/.well-known/est/csrattrs''"
  shows "\<exists>resp. serve H s r w = (resp, w) \<and>
     (if srv_CSRAttrsDER s = [] then rs_Status resp = 204 \<and> rs_Body resp = Text []
      else rs_Status resp = 200 \<and> rs_Header resp = [(''Content-Type'', ''application/csrattrs'')] \<and>
        (\<exists>t. rs_Body resp = Text t \<and> b64_DecodeString t = Inr (srv_CSRAttrsDER s)))"
proof -
  have "serve H s r w = handleCSRAttrs H s r w" using assms by (simp add: serve_route(4))
  then show ?thesis
    using body_decodes [of "srv_CSRAttrsDER s"]
    by (auto simp: handleCSRAttrs_def writeBase64Response_def contentTypeCSRAttrs_def Let_def)
qed

lemma csrattrs_served_witness:
  "\<exists>resp t. serve (est_env demo_platform) (est_instance demo_platform demo_value ''db'' [0x30, 0])
       ((demo_request ''/.well-known/est/csrattrs'') \<lparr> rq_Method := ''GET'' \<rparr>) one_world = (resp, one_world) \<and>
     rs_Body resp = Text t \<and> b64_DecodeString t = Inr [0x30, 0]"
proof -
  have "rq_Method ((demo_request ''/.well-known/est/csrattrs'') \<lparr> rq_Method := ''GET'' \<rparr>) = ''GET''"
    "rq_Path ((demo_request ''/.well-known/est/csrattrs'') \<lparr> rq_Method := ''GET'' \<rparr>) = ''/.well-known/est/csrattrs''"
    by (simp_all add: demo_request_def)
  from csrattrs_served [OF this, of "est_env demo_platform" "est_instance demo_platform demo_value ''db'' [0x30, 0]" one_world] show ?thesis by auto
qed

text \<open>
  The interface is closed: a request for any other path or with another method reaches no handler and
  changes nothing, it is answered 301, 404 or 405; and an answer of 500 never says more than that, so that
  no error of the backend or the store leaks to the client.
\<close>

lemma routes_closed:
  assumes "serve H s r w = (resp, w')"
  shows "rs_Status resp \<in> {200, 204, 301, 400, 401, 403, 404, 405, 500} \<and>
     (rs_Status resp = 500 \<longrightarrow> rs_Body resp = Text (''internal error'' @ [CHR 0x0A])) \<and>
     ((rq_Method r, rq_Path r) \<in>
        {(''GET'', ''/.well-known/est/cacerts''), (''HEAD'', ''/.well-known/est/cacerts''),
         (''GET'', ''/.well-known/est/csrattrs''), (''HEAD'', ''/.well-known/est/csrattrs''),
         (''POST'', ''/.well-known/est/simpleenroll''), (''POST'', ''/.well-known/est/simplereenroll'')} \<or>
      w' = w \<and> rs_Status resp \<in> {301, 404, 405})"
proof -
  have c: "rs_Status resp \<in> {200, 500}" if "handleCACerts H s r w = (resp, w')"
    using that by (auto simp: handleCACerts_def split: prod.splits sum.splits)
  have a: "rs_Status resp \<in> {200, 204}" if "handleCSRAttrs H s r w = (resp, w')"
    using that by (auto simp: handleCSRAttrs_def split: if_splits)
  have e: "rs_Status resp \<in> {200, 400, 401, 403, 500}"
    if "handleSimpleEnroll H s r w = (resp, w') \<or> handleSimpleReenroll H s r w = (resp, w')"
    using that by (auto simp: handleSimpleEnroll_def handleSimpleReenroll_def split: sum.splits if_splits
        dest!: issue_status)
  have b: "rs_Body internal_error = Text (''internal error'' @ [CHR 0x0A])"
    by (simp add: internal_error_def http_Error_def)
  have 5: "rs_Status resp = 500 \<longrightarrow> rs_Body resp = Text (''internal error'' @ [CHR 0x0A])"
    using serve_500 [OF assms] b by metis
  show ?thesis
    using serve_cases [OF assms]
  proof (elim disjE conjE)
    assume "handleCACerts H s r w = (resp, w')" "rq_Path r = ''/.well-known/est/cacerts''"
      "rq_Method r \<in> {''GET'', ''HEAD''}"
    then show ?thesis using c 5 by auto
  next
    assume "handleCSRAttrs H s r w = (resp, w')" "rq_Path r = ''/.well-known/est/csrattrs''"
      "rq_Method r \<in> {''GET'', ''HEAD''}"
    then show ?thesis using a 5 by auto
  next
    assume "handleSimpleEnroll H s r w = (resp, w')" "rq_Path r = ''/.well-known/est/simpleenroll''"
      "rq_Method r = ''POST''"
    then show ?thesis using e 5 by auto
  next
    assume "handleSimpleReenroll H s r w = (resp, w')" "rq_Path r = ''/.well-known/est/simplereenroll''"
      "rq_Method r = ''POST''"
    then show ?thesis using e 5 by auto
  next
    assume "w' = w" "rs_Status resp \<in> {301, 404, 405}"
    then show ?thesis using 5 by auto
  qed
qed

lemma routes_closed_witness:
  "\<exists>resp. serve (est_env demo_platform) (est_instance demo_platform demo_value ''db'' []) (demo_request ''/.well-known/est/cacerts'') one_world = (resp, one_world) \<and>
     rs_Status resp \<in> {301, 404, 405}"
proof -
  obtain resp w' where r: "serve (est_env demo_platform) (est_instance demo_platform demo_value ''db'' []) (demo_request ''/.well-known/est/cacerts'') one_world = (resp, w')"
    by (cases "serve (est_env demo_platform) (est_instance demo_platform demo_value ''db'' []) (demo_request ''/.well-known/est/cacerts'') one_world")
  have q: "rq_Method (demo_request ''/.well-known/est/cacerts'') = ''POST''"
    "rq_Path (demo_request ''/.well-known/est/cacerts'') = ''/.well-known/est/cacerts''"
    by (simp_all add: demo_request_def)
  have "w' = one_world \<and> rs_Status resp \<in> {301, 404, 405}"
    using routes_closed [OF r] unfolding q by simp
  with r show ?thesis by blast
qed

end
