(* ===== verification/Service.thy ===== *)
theory Service
  imports TLS Server
begin

text \<open>
  The running service: connections over TLS to the server with one of the three backends and the file store.
  A step relation gives its histories; the lemmas show what holds of the store in every state a history
  reaches, and who stands behind every certificate in it.
\<close>

section \<open>Histories\<close>

text \<open>One connection with its request, and the state it met.\<close>

record 'w connection =
  cn_client :: tls_client
  cn_request :: http_request
  cn_before :: 'w

text \<open>The request as the handler sees it.\<close>

definition seen :: "'w connection \<Rightarrow> http_request" where
  "seen cn = cn_request cn \<lparr> rq_TLS := Some (tk_Chain (cn_client cn)) \<rparr>"

inductive service ::
  "('k, 'c, 'b, 'z os_world_scheme) platform \<Rightarrow> ('k, 'c) ca_value \<Rightarrow> string \<Rightarrow> bytes \<Rightarrow> chain_verifier \<Rightarrow>
     'c tls_config \<Rightarrow> 'z os_world_scheme \<Rightarrow> 'z os_world_scheme connection list \<Rightarrow> 'z os_world_scheme \<Rightarrow> bool"
  for P v dir a verify cfg w where
  idle: "service P v dir a verify cfg w [] w"
| answer: "service P v dir a verify cfg w tr u \<Longrightarrow>
     serve_tls (est_env P) (est_instance P v dir a) verify cfg client r u = (out, u') \<Longrightarrow>
     service P v dir a verify cfg w (\<lparr> cn_client = client, cn_request = r, cn_before = u \<rparr> # tr) u'"

section \<open>One connection\<close>

text \<open>What a connection can leave in the store.\<close>

lemma serve_tls_effects:
  assumes "backend_trusted P v" "built_config cfg"
    and "serve_tls (est_env P) (est_instance P v dir a) verify cfg client r w = (out, w')"
  shows "stored (csrPath dir) w' = stored (csrPath dir) w \<and> stored (certPath dir) w' = stored (certPath dir) w \<and>
      stored (certMetaPath dir) w' = stored (certMetaPath dir) w \<or>
    (\<exists>csr c. enrolled P v (r \<lparr> rq_TLS := Some (tk_Chain client) \<rparr>) w csr c \<and> authenticated verify cfg client \<and>
      stored (csrPath dir) w' = (stored (csrPath dir) w)(SerialNumber c \<mapsto> csr_Raw csr) \<and>
      (stored (certPath dir) w' = stored (certPath dir) w \<and> stored (certMetaPath dir) w' = stored (certMetaPath dir) w \<or>
       stored (certPath dir) w' = (stored (certPath dir) w)(SerialNumber c \<mapsto> Raw c) \<and>
         (stored (certMetaPath dir) w' = stored (certMetaPath dir) w \<or>
          (\<exists>j. recorded P (r \<lparr> rq_TLS := Some (tk_Chain client) \<rparr>) j \<and>
             stored (certMetaPath dir) w' = (stored (certMetaPath dir) w)(SerialNumber c \<mapsto> j)))))"
proof (cases "handshake verify cfg client")
  case (Inl e)
  then show ?thesis using assms(3) by (simp add: serve_tls_def)
next
  case (Inr certs)
  note h = handshake_verified [OF assms(2) Inr]
  obtain resp where s: "serve (est_env P) (est_instance P v dir a) (r \<lparr> rq_TLS := Some (tk_Chain client) \<rparr>) w = (resp, w')"
    using assms(3) Inr h by (auto simp: serve_tls_def split: prod.splits)
  have auth: "authenticated verify cfg client" if "enrolled P v (r \<lparr> rq_TLS := Some (tk_Chain client) \<rparr>) w csr c" for csr c
    using that h unfolding enrolled_def by auto
  from serve_effects [OF assms(1) s] auth show ?thesis by blast
qed

text \<open>What a store holds at the end of a history was there before, or one of the connections put it there.\<close>

lemma service_trail:
  assumes step: "\<And>client r u out u' n d. serve_tls (est_env P) (est_instance P v dir a) verify cfg client r u = (out, u') \<Longrightarrow>
      f u' n = Some d \<Longrightarrow> f u n = Some d \<or> put \<lparr> cn_client = client, cn_request = r, cn_before = u \<rparr> n d"
    and "service P v dir a verify cfg w tr u" "f u n = Some d"
  shows "f w n = Some d \<or> (\<exists>cn\<in>set tr. put cn n d)"
  using assms(2,3)
proof (induction arbitrary: n d rule: service.induct)
  case idle
  then show ?case by simp
next
  case (answer tr u client r out u')
  show ?case using step [OF answer.hyps(2) answer.prems] answer.IH by auto
qed

text \<open>
  The audit trail: in every state the service reaches, each certificate in the store was there at the start or
  was issued during this history, over a connection whose client was authenticated; and so with the metadata.
\<close>

lemma service_audit:
  assumes "built_config cfg" "backend_trusted P v" "service P v dir a verify cfg w tr u"
    and "stored (certPath dir) u n = Some d"
  shows "stored (certPath dir) w n = Some d \<or>
     (\<exists>cn\<in>set tr. \<exists>csr c. enrolled P v (seen cn) (cn_before cn) csr c \<and> authenticated verify cfg (cn_client cn) \<and>
        SerialNumber c = n \<and> Raw c = d)"
proof -
  let ?put = "\<lambda>cn n d. \<exists>csr c. enrolled P v (seen cn) (cn_before cn) csr c \<and> authenticated verify cfg (cn_client cn) \<and>
     SerialNumber c = n \<and> Raw c = d"
  have "stored (certPath dir) u n = Some d \<or> ?put \<lparr> cn_client = client, cn_request = r, cn_before = u \<rparr> n d"
    if s: "serve_tls (est_env P) (est_instance P v dir a) verify cfg client r u = (out, u')"
      and d: "stored (certPath dir) u' n = Some d" for client r u out u' n d
    using serve_tls_effects [OF assms(2,1) s] d by (auto simp: seen_def split: if_splits)
  from service_trail [where f = "stored (certPath dir)" and put = ?put, OF this assms(3,4)] show ?thesis .
qed

lemma service_metadata:
  assumes "built_config cfg" "backend_trusted P v" "service P v dir a verify cfg w tr u"
    and "stored (certMetaPath dir) u n = Some d"
  shows "stored (certMetaPath dir) w n = Some d \<or>
     (\<exists>cn\<in>set tr. \<exists>csr c. enrolled P v (seen cn) (cn_before cn) csr c \<and> authenticated verify cfg (cn_client cn) \<and>
        SerialNumber c = n \<and> recorded P (seen cn) d)"
proof -
  let ?put = "\<lambda>cn n d. \<exists>csr c. enrolled P v (seen cn) (cn_before cn) csr c \<and> authenticated verify cfg (cn_client cn) \<and>
     SerialNumber c = n \<and> recorded P (seen cn) d"
  have "stored (certMetaPath dir) u n = Some d \<or> ?put \<lparr> cn_client = client, cn_request = r, cn_before = u \<rparr> n d"
    if s: "serve_tls (est_env P) (est_instance P v dir a) verify cfg client r u = (out, u')"
      and d: "stored (certMetaPath dir) u' n = Some d" for client r u out u' n d
    using serve_tls_effects [OF assms(2,1) s] d by (auto simp: seen_def split: if_splits)
  from service_trail [where f = "stored (certMetaPath dir)" and put = ?put, OF this assms(3,4)] show ?thesis .
qed

section \<open>Properties\<close>

text \<open>
  C4: Who gets a certificate over the wire: an answer 200 on an enrolment path means that the client presented a
  chain that verified against the configured certificate authorities, proved possession of its key over TLS 1.2
  or later, and sent a verified request, for its own identity when it renews; without a certificate, or with one
  that does not verify, no certificate is issued and nothing in the system changes.
\<close>

theorem enrolment_needs_trusted_client:
  assumes "built_config cfg" "backend_trusted P v"
    and "serve_tls (est_env P) (est_instance P v dir a) verify cfg client r w = (out, w')"
    and "rq_Path r \<in> {''/.well-known/est/simpleenroll'', ''/.well-known/est/simplereenroll''}" "rq_Method r = ''POST''"
  shows "(\<forall>resp. out = Inr resp \<longrightarrow> rs_Status resp = 200 \<longrightarrow> authenticated verify cfg client \<and>
       (\<exists>csr c. enrolled P v (r \<lparr> rq_TLS := Some (tk_Chain client) \<rparr>) w csr c \<and>
          stored (certPath dir) w' (SerialNumber c) = Some (Raw c))) \<and>
     (\<not> authenticated verify cfg client \<longrightarrow> w' = w \<and>
       (out = Inr (http_Error (Text ''client certificate required'') 401) \<or> (\<exists>e. out = Inl e)))"
proof (cases "handshake verify cfg client")
  case (Inl e)
  then show ?thesis using assms(1,3) handshake_iff [OF assms(1), of verify client] by (auto simp: serve_tls_def)
next
  case (Inr certs)
  let ?r = "r \<lparr> rq_TLS := Some (tk_Chain client) \<rparr>"
  note h = handshake_verified [OF assms(1) Inr]
  obtain resp where s: "serve (est_env P) (est_instance P v dir a) ?r w = (resp, w')" "out = Inr resp"
    using assms(3) Inr h by (auto simp: serve_tls_def split: prod.splits)
  have r: "rq_Path ?r = rq_Path r" "rq_Method ?r = rq_Method r" "rq_TLS ?r = Some (tk_Chain client)" by simp_all
  show ?thesis
  proof (cases "tk_Chain client")
    case Nil
    then have p: "peerCertificate ?r = Inl errNoPeerCertificate" by (simp add: peerCertificate_def)
    have "(resp, w') = (http_Error (Text ''client certificate required'') 401, w)"
      using s(1) assms(4,5) p r(1,2)
      by (auto simp: serve_route(2,3) handleSimpleEnroll_def handleSimpleReenroll_def)
    then show ?thesis using s(2) by simp
  next
    case (Cons leaf rest)
    then have auth: "authenticated verify cfg client" using h by simp
    have "\<exists>csr c. enrolled P v ?r w csr c \<and> stored (certPath dir) w' (SerialNumber c) = Some (Raw c)"
      if ok: "rs_Status resp = 200"
    proof -
      have "rq_Path ?r \<notin> {''/.well-known/est/cacerts'', ''/.well-known/est/csrattrs''}" using assms(4) r by auto
      from serve_enrolled [OF assms(2) s(1) ok this] obtain csr c where "enrolled P v ?r w csr c"
        "stored (certPath dir) w' = (stored (certPath dir) w)(SerialNumber c \<mapsto> Raw c)" by blast
      then show ?thesis by (intro exI [of _ csr] exI [of _ c]) simp
    qed
    with auth s(2) show ?thesis by auto
  qed
qed

definition demo_tls :: "unit tls_config" where
  "demo_tls = \<lparr> tls_Certificates = [()], tls_ClientAuth = VerifyClientCertIfGiven, tls_ClientCAs = [[0x30, 0]],
     tls_MinVersion = VersionTLS12 \<rparr>"

definition demo_connection :: "x509_cert list \<Rightarrow> tls_client" where
  "demo_connection chain = \<lparr> tk_Version = 0x0304, tk_Chain = chain, tk_Proves = True, tk_Now = 0 \<rparr>"

definition demo_verifier :: chain_verifier where
  "demo_verifier roots leaf rest t = (if roots = [[0x30, 0]] then None else Some (ErrNew ''unknown authority'' []))"

lemma demo_built: "built_config demo_tls"
  by (simp add: built_config_def demo_tls_def)

text \<open>The connection of the client hands its request on as it is.\<close>

lemma demo_tls_passes:
  "serve_tls H s demo_verifier demo_tls (demo_connection [dns_cert [''a'']]) (demo_request p) w =
     (case serve H s (demo_request p) w of (resp, w') \<Rightarrow> (Inr resp, w'))"
proof -
  have "handshake demo_verifier demo_tls (demo_connection [dns_cert [''a'']]) = Inr [dns_cert [''a'']]"
    by (simp add: handshake_def demo_tls_def demo_connection_def demo_verifier_def VersionTLS12_def)
  moreover have "demo_request p \<lparr> rq_TLS := Some [dns_cert [''a'']] \<rparr> = demo_request p" by (simp add: demo_request_def)
  ultimately show ?thesis by (simp add: serve_tls_def)
qed

lemma demo_tls_serve:
  "\<exists>resp w'. serve_tls (est_env demo_platform) (est_instance demo_platform demo_value ''db'' []) demo_verifier demo_tls
       (demo_connection [dns_cert [''a'']]) (demo_request ''/.well-known/est/simpleenroll'') one_world = (Inr resp, w') \<and>
     rs_Status resp = 200"
  using demo_serve by (auto simp: demo_tls_passes)

lemma enrolment_needs_trusted_client_witness:
  "(\<exists>resp w' csr c. serve_tls (est_env demo_platform) (est_instance demo_platform demo_value ''db'' []) demo_verifier
        demo_tls (demo_connection [dns_cert [''a'']]) (demo_request ''/.well-known/est/simpleenroll'') one_world = (Inr resp, w') \<and>
      enrolled demo_platform demo_value
        ((demo_request ''/.well-known/est/simpleenroll'') \<lparr> rq_TLS := Some [dns_cert [''a'']] \<rparr>) one_world csr c \<and>
      stored (certPath ''db'') w' (SerialNumber c) = Some (Raw c)) \<and>
   snd (serve_tls (est_env demo_platform) (est_instance demo_platform demo_value ''db'' []) demo_verifier demo_tls
       (demo_connection []) (demo_request ''/.well-known/est/simpleenroll'') one_world) = one_world"
proof
  let ?r = "demo_request ''/.well-known/est/simpleenroll''"
  have r: "rq_Path ?r \<in> {''/.well-known/est/simpleenroll'', ''/.well-known/est/simplereenroll''}" "rq_Method ?r = ''POST''"
    by (simp_all add: demo_request_def)
  have c: "tk_Chain (demo_connection cs) = cs" for cs by (simp add: demo_connection_def)
  note claim = enrolment_needs_trusted_client [OF demo_built demo_trusted _ r, of "''db''" "[]" demo_verifier]
  obtain resp w' where s: "serve_tls (est_env demo_platform) (est_instance demo_platform demo_value ''db'' [])
      demo_verifier demo_tls (demo_connection [dns_cert [''a'']]) ?r one_world = (Inr resp, w')" "rs_Status resp = 200"
    using demo_tls_serve by blast
  from claim [OF s(1)] s show "\<exists>resp w' csr c. serve_tls (est_env demo_platform) (est_instance demo_platform demo_value ''db'' [])
      demo_verifier demo_tls (demo_connection [dns_cert [''a'']]) ?r one_world = (Inr resp, w') \<and>
      enrolled demo_platform demo_value (?r \<lparr> rq_TLS := Some [dns_cert [''a'']] \<rparr>) one_world csr c \<and>
      stored (certPath ''db'') w' (SerialNumber c) = Some (Raw c)"
    unfolding c by blast
  have "\<not> authenticated demo_verifier demo_tls (demo_connection [])" by (simp add: authenticated_def c)
  with claim [OF surjective_pairing, of "demo_connection []" one_world]
  show "snd (serve_tls (est_env demo_platform) (est_instance demo_platform demo_value ''db'' []) demo_verifier demo_tls
       (demo_connection []) ?r one_world) = one_world" by blast
qed

lemma demo_service:
  "\<exists>resp u. service demo_platform demo_value ''db'' [] demo_verifier demo_tls one_world
       [\<lparr> cn_client = demo_connection [dns_cert [''a'']], cn_request = demo_request ''/.well-known/est/simpleenroll'',
          cn_before = one_world \<rparr>] u \<and>
     serve_tls (est_env demo_platform) (est_instance demo_platform demo_value ''db'' []) demo_verifier demo_tls
       (demo_connection [dns_cert [''a'']]) (demo_request ''/.well-known/est/simpleenroll'') one_world = (Inr resp, u) \<and>
     rs_Status resp = 200"
  using demo_tls_serve service.answer [OF service.idle] by blast

definition well_kept :: "string \<Rightarrow> 'z os_world_scheme \<Rightarrow> bool" where
  "well_kept dir w \<longleftrightarrow> dom (stored (certMetaPath dir) w) \<subseteq> dom (stored (certPath dir) w) \<and>
     dom (stored (certPath dir) w) \<subseteq> dom (stored (csrPath dir) w)"

text \<open>
  The store stays well kept: in every state the service reaches, whatever fails on the way, each stored
  certificate has its request stored with it, and each metadata file its certificate.
\<close>

lemma store_well_kept:
  assumes "built_config cfg" "backend_trusted P v" "service P v dir a verify cfg w tr u" "well_kept dir w"
  shows "well_kept dir u"
  using assms(3)
proof (induction rule: service.induct)
  case idle
  then show ?case by (rule assms(4))
next
  case (answer tr u client r out u')
  from serve_tls_effects [OF assms(2,1) answer.hyps(2)] answer.IH show ?case
    unfolding well_kept_def by (elim disjE exE conjE) auto
qed

text \<open>
  C9: The metadata files tell the truth: in every state the service reaches, a metadata file that was not there at the
  start is the JSON object of the requester, the address and a time, where the requester is the common name of a client
  that was authenticated over TLS, the address is the one its connection came from, and the serial number in the file's
  name is that of a certificate issued over that connection.
\<close>

theorem metadata_audit:
  assumes "built_config cfg" "backend_trusted P v" "service P v dir a verify cfg w tr u"
    and "stored (certMetaPath dir) u n = Some d" "stored (certMetaPath dir) w n = None"
  shows "\<exists>cn\<in>set tr. \<exists>csr c peer chain t tx. enrolled P v (seen cn) (cn_before cn) csr c \<and> SerialNumber c = n \<and>
     authenticated verify cfg (cn_client cn) \<and> tk_Chain (cn_client cn) = peer # chain \<and>
     Time_MarshalJSON (pf_zone P) t = Inr tx \<and>
     d = bytes_of (json_indented ''  ''
       (metadata_json (CommonName (Subject peer)) (rq_RemoteAddr (cn_request cn)) tx))"
proof -
  from service_metadata [OF assms(1-4)] assms(5) obtain cn csr c where "cn \<in> set tr"
    "enrolled P v (seen cn) (cn_before cn) csr c" "authenticated verify cfg (cn_client cn)" "SerialNumber c = n"
    "recorded P (seen cn) d" by auto
  moreover from this(5) obtain peer chain t where "tk_Chain (cn_client cn) = peer # chain"
    "marshal_metadata (pf_zone P) (request_metadata peer (seen cn) t) = Inr d"
    unfolding recorded_def by (auto simp: seen_def)
  moreover from this(2) obtain tx where "Time_MarshalJSON (pf_zone P) t = Inr tx"
    "d = bytes_of (json_indented ''  '' (metadata_json (CommonName (Subject peer)) (rq_RemoteAddr (cn_request cn)) tx))"
    by (auto simp: marshal_metadata_def request_metadata_def seen_def json_MarshalIndent_def split: sum.splits)
  ultimately show ?thesis by blast
qed

lemma metadata_audit_witness:
  "\<exists>u n tx. service demo_platform demo_value ''db'' [] demo_verifier demo_tls one_world
       [\<lparr> cn_client = demo_connection [dns_cert [''a'']], cn_request = demo_request ''/.well-known/est/simpleenroll'',
          cn_before = one_world \<rparr>] u \<and>
     stored (certMetaPath ''db'') u n = Some (bytes_of (json_indented ''  ''
       (metadata_json (CommonName (Subject (dns_cert [''a'']))) ''127.0.0.1:9'' tx)))"
proof -
  let ?r = "demo_request ''/.well-known/est/simpleenroll''" and ?k = "demo_connection [dns_cert [''a'']]"
  obtain resp u where s: "service demo_platform demo_value ''db'' [] demo_verifier demo_tls one_world
       [\<lparr> cn_client = ?k, cn_request = ?r, cn_before = one_world \<rparr>] u"
    "serve_tls (est_env demo_platform) (est_instance demo_platform demo_value ''db'' []) demo_verifier demo_tls ?k ?r one_world =
       (Inr resp, u)" "rs_Status resp = 200" using demo_service by blast
  have k: "tk_Chain ?k = [dns_cert [''a'']]" by (simp add: demo_connection_def)
  have r: "rq_RemoteAddr ?r = ''127.0.0.1:9''" "rq_Path ?r = ''/.well-known/est/simpleenroll''"
    by (simp_all add: demo_request_def)
  have "serve (est_env demo_platform) (est_instance demo_platform demo_value ''db'' []) ?r one_world = (resp, u)"
    using s(2) by (auto simp: demo_tls_passes split: prod.splits)
  from serve_enrolled [OF demo_trusted this s(3)] r(2) obtain c :: x509_cert and j where
    "stored (certMetaPath ''db'') u = (stored (certMetaPath ''db'') one_world)(SerialNumber c \<mapsto> j)" by auto
  then have d: "stored (certMetaPath ''db'') u (SerialNumber c) = Some j" by simp
  have n: "stored (certMetaPath ''db'') one_world (SerialNumber c) = None"
    by (simp add: stored_def one_world_def empty_world_def)
  from metadata_audit [OF demo_built demo_trusted s(1) d n] r(1) k obtain tx where
    "j = bytes_of (json_indented ''  '' (metadata_json (CommonName (Subject (dns_cert [''a'']))) ''127.0.0.1:9'' tx))" by auto
  with s(1) d show ?thesis by blast
qed

end
