(* ===== verification/Ledger.thy ===== *)
theory Ledger
  imports Handlers
begin

text \<open>
  Enrolments that overlap. \<open>net/http\<close> runs a handler per request, each in its own goroutine, over one backend and
  one store. This theory says what such handlers do to the three tables of the store, one step at a time and in
  any order, without saying how; \<open>Parallel\<close> shows that the server does nothing else. The lemmas show what the
  tables satisfy after any steps, and what holds of each request however the others interfere.
\<close>

section \<open>The steps of an enrolment\<close>

text \<open>
  Where a request stands: its handler has not begun, is in front of one of the calls of \<open>issueAndRespond\<close> (with the
  local variables it has so far: the request, the peer, the certificate, the metadata), or has answered.
\<close>

datatype stage =
    Arrived
  | Issuing x509_csr x509_cert
  | Issued x509_csr x509_cert x509_cert
  | PuttingCSR x509_csr x509_cert metadata
  | PuttingCertificate x509_csr x509_cert metadata
  | PuttingMetadata x509_csr x509_cert metadata
  | Responding x509_cert
  | Answered "http_response result"

text \<open>An entry of the record of what has been issued: for which request, and in which state of the world.\<close>

record 'w issuance =
  is_request :: nat
  is_csr :: x509_csr
  is_cert :: x509_cert
  is_before :: 'w

abbreviation is_serial :: "'w issuance \<Rightarrow> int" where
  "is_serial e \<equiv> SerialNumber (is_cert e)"

text \<open>The tables of the store, where each request stands, and what has been issued.\<close>

type_synonym table = "int \<Rightarrow> bytes option"

record 'w ledger =
  lg_csrs :: table
  lg_certs :: table
  lg_metas :: table
  lg_stage :: "nat \<Rightarrow> stage"
  lg_issued :: "'w issuance list"

text \<open>
  \<open>adm i csr peer\<close>: the handler of request \<open>i\<close> may call \<open>issueAndRespond\<close> so; \<open>issues\<close> is the backend,
  \<open>meta i peer\<close> the metadata of the request, \<open>marshal\<close> its encoding. A handler can give up anywhere.
\<close>

inductive ledger_step ::
  "(nat \<Rightarrow> x509_csr \<Rightarrow> x509_cert \<Rightarrow> bool) \<Rightarrow> (x509_csr \<Rightarrow> 'w \<Rightarrow> x509_cert \<Rightarrow> bool) \<Rightarrow>
     (nat \<Rightarrow> x509_cert \<Rightarrow> metadata \<Rightarrow> bool) \<Rightarrow> (metadata \<Rightarrow> bytes result) \<Rightarrow> 'w ledger \<Rightarrow> 'w ledger \<Rightarrow> bool"
  for adm issues meta marshal where
  answer: "ledger_step adm issues meta marshal s (s \<lparr> lg_stage := (lg_stage s)(i := Answered out) \<rparr>)"
| admit: "lg_stage s i = Arrived \<Longrightarrow> adm i csr peer \<Longrightarrow>
    ledger_step adm issues meta marshal s (s \<lparr> lg_stage := (lg_stage s)(i := Issuing csr peer) \<rparr>)"
| issue: "lg_stage s i = Issuing csr peer \<Longrightarrow> issues csr w c \<Longrightarrow>
    ledger_step adm issues meta marshal s (s \<lparr> lg_stage := (lg_stage s)(i := Issued csr peer c),
      lg_issued := lg_issued s @ [\<lparr> is_request = i, is_csr = csr, is_cert = c, is_before = w \<rparr>] \<rparr>)"
| stamp: "lg_stage s i = Issued csr peer c \<Longrightarrow> meta i peer m \<Longrightarrow>
    ledger_step adm issues meta marshal s (s \<lparr> lg_stage := (lg_stage s)(i := PuttingCSR csr c m) \<rparr>)"
| put_csr: "lg_stage s i = PuttingCSR csr c m \<Longrightarrow>
    ledger_step adm issues meta marshal s (s \<lparr> lg_stage := (lg_stage s)(i := PuttingCertificate csr c m),
      lg_csrs := (lg_csrs s)(SerialNumber c \<mapsto> csr_Raw csr) \<rparr>)"
| put_cert: "lg_stage s i = PuttingCertificate csr c m \<Longrightarrow>
    ledger_step adm issues meta marshal s (s \<lparr> lg_stage := (lg_stage s)(i := PuttingMetadata csr c m),
      lg_certs := (lg_certs s)(SerialNumber c \<mapsto> Raw c) \<rparr>)"
| put_meta: "lg_stage s i = PuttingMetadata csr c m \<Longrightarrow> marshal m = Inr j \<Longrightarrow>
    ledger_step adm issues meta marshal s (s \<lparr> lg_stage := (lg_stage s)(i := Responding c),
      lg_metas := (lg_metas s)(SerialNumber c \<mapsto> j) \<rparr>)"

inductive_cases ledger_stepE: "ledger_step adm issues meta marshal s s'"

inductive ledger_run ::
  "(nat \<Rightarrow> x509_csr \<Rightarrow> x509_cert \<Rightarrow> bool) \<Rightarrow> (x509_csr \<Rightarrow> 'w \<Rightarrow> x509_cert \<Rightarrow> bool) \<Rightarrow>
     (nat \<Rightarrow> x509_cert \<Rightarrow> metadata \<Rightarrow> bool) \<Rightarrow> (metadata \<Rightarrow> bytes result) \<Rightarrow> 'w ledger \<Rightarrow> 'w ledger \<Rightarrow> bool"
  for adm issues meta marshal s0 where
  start: "ledger_run adm issues meta marshal s0 s0"
| step: "ledger_run adm issues meta marshal s0 s \<Longrightarrow> ledger_step adm issues meta marshal s s' \<Longrightarrow>
     ledger_run adm issues meta marshal s0 s'"

definition ledger_fresh :: "'w ledger \<Rightarrow> bool" where
  "ledger_fresh s \<longleftrightarrow> lg_stage s = (\<lambda>_. Arrived) \<and> lg_issued s = []"

section \<open>Whatever the others do\<close>

definition entered :: "'w ledger \<Rightarrow> nat \<Rightarrow> x509_csr \<Rightarrow> x509_cert \<Rightarrow> bool" where
  "entered s i csr c \<longleftrightarrow> (\<exists>e\<in>set (lg_issued s). is_request e = i \<and> is_csr e = csr \<and> is_cert e = c)"

text \<open>What a handler can rely on at its stage.\<close>

definition stage_ok ::
  "(nat \<Rightarrow> x509_csr \<Rightarrow> x509_cert \<Rightarrow> bool) \<Rightarrow> (nat \<Rightarrow> x509_cert \<Rightarrow> metadata \<Rightarrow> bool) \<Rightarrow> 'w ledger \<Rightarrow> nat \<Rightarrow> stage \<Rightarrow> bool"
  where
  "stage_ok adm meta s i st =
     (case st of
        Issuing csr peer \<Rightarrow> adm i csr peer
      | Issued csr peer c \<Rightarrow> adm i csr peer \<and> entered s i csr c
      | PuttingCSR csr c m \<Rightarrow> (\<exists>peer. adm i csr peer \<and> meta i peer m) \<and> entered s i csr c
      | PuttingCertificate csr c m \<Rightarrow> (\<exists>peer. adm i csr peer \<and> meta i peer m) \<and> entered s i csr c \<and>
          SerialNumber c \<in> dom (lg_csrs s)
      | PuttingMetadata csr c m \<Rightarrow> (\<exists>peer. adm i csr peer \<and> meta i peer m) \<and> entered s i csr c \<and>
          SerialNumber c \<in> dom (lg_certs s)
      | _ \<Rightarrow> True)"

text \<open>Nothing is taken back: what one handler relies on, the steps of the others leave alone.\<close>

definition ledger_grows :: "'w ledger \<Rightarrow> 'w ledger \<Rightarrow> bool" where
  "ledger_grows s s' \<longleftrightarrow> dom (lg_csrs s) \<subseteq> dom (lg_csrs s') \<and> dom (lg_certs s) \<subseteq> dom (lg_certs s') \<and>
     set (lg_issued s) \<subseteq> set (lg_issued s')"

lemma step_grows: "ledger_step adm issues meta marshal s s' \<Longrightarrow> ledger_grows s s'"
  by (erule ledger_stepE) (auto simp: ledger_grows_def)

lemma stage_ok_stable: "stage_ok adm meta s i st \<Longrightarrow> ledger_grows s s' \<Longrightarrow> stage_ok adm meta s' i st"
  unfolding ledger_grows_def by (cases st) (auto simp: stage_ok_def entered_def)

lemma step_stages:
  assumes "ledger_step adm issues meta marshal s s'" "\<forall>i. stage_ok adm meta s i (lg_stage s i)"
  shows "\<forall>i. stage_ok adm meta s' i (lg_stage s' i)"
proof -
  have old: "stage_ok adm meta s' i (lg_stage s i)" for i
    using assms(2) stage_ok_stable step_grows [OF assms(1)] by blast
  from assms(1) show ?thesis
  proof (cases rule: ledger_step.cases)
    case (answer i out)
    then show ?thesis using old by (simp add: stage_ok_def)
  next
    case (admit i csr peer)
    then show ?thesis using old by (simp add: stage_ok_def)
  next
    case (issue i csr peer w c)
    then show ?thesis using old [of i] old by (simp add: stage_ok_def entered_def)
  next
    case (stamp i csr peer c m)
    then show ?thesis using old [of i] old by (auto simp: stage_ok_def)
  next
    case (put_csr i csr c m)
    then show ?thesis using old [of i] old by (simp add: stage_ok_def)
  next
    case (put_cert i csr c m)
    then show ?thesis using old [of i] old by (simp add: stage_ok_def)
  next
    case (put_meta i csr c m j)
    then show ?thesis using old by (simp add: stage_ok_def)
  qed
qed

section \<open>Every entry has its reason\<close>

definition ledger_kept :: "'w ledger \<Rightarrow> bool" where
  "ledger_kept s \<longleftrightarrow> dom (lg_metas s) \<subseteq> dom (lg_certs s) \<and> dom (lg_certs s) \<subseteq> dom (lg_csrs s)"

definition ledger_inv ::
  "(nat \<Rightarrow> x509_csr \<Rightarrow> x509_cert \<Rightarrow> bool) \<Rightarrow> (x509_csr \<Rightarrow> 'w \<Rightarrow> x509_cert \<Rightarrow> bool) \<Rightarrow>
     (nat \<Rightarrow> x509_cert \<Rightarrow> metadata \<Rightarrow> bool) \<Rightarrow> (metadata \<Rightarrow> bytes result) \<Rightarrow> 'w ledger \<Rightarrow> 'w ledger \<Rightarrow> bool" where
  "ledger_inv adm issues meta marshal s0 s \<longleftrightarrow>
     (\<forall>i. stage_ok adm meta s i (lg_stage s i)) \<and>
     (\<forall>e\<in>set (lg_issued s). issues (is_csr e) (is_before e) (is_cert e) \<and> (\<exists>peer. adm (is_request e) (is_csr e) peer)) \<and>
     (\<forall>n d. lg_certs s n = Some d \<longrightarrow> lg_certs s0 n = Some d \<or>
        (\<exists>e\<in>set (lg_issued s). is_serial e = n \<and> Raw (is_cert e) = d)) \<and>
     (\<forall>n d. lg_metas s n = Some d \<longrightarrow> lg_metas s0 n = Some d \<or>
        (\<exists>e\<in>set (lg_issued s). is_serial e = n \<and>
           (\<exists>peer m. adm (is_request e) (is_csr e) peer \<and> meta (is_request e) peer m \<and> marshal m = Inr d))) \<and>
     (ledger_kept s0 \<longrightarrow> ledger_kept s)"

lemma ledger_inv_start: "ledger_fresh s \<Longrightarrow> ledger_inv adm issues meta marshal s s"
  by (simp add: ledger_inv_def ledger_fresh_def stage_ok_def)

lemma ledger_inv_step:
  assumes "ledger_step adm issues meta marshal s s'" "ledger_inv adm issues meta marshal s0 s"
  shows "ledger_inv adm issues meta marshal s0 s'"
proof -
  note i = assms(2) [unfolded ledger_inv_def]
  from step_stages [OF assms(1)] i have st: "\<forall>i. stage_ok adm meta s' i (lg_stage s' i)" by blast
  have here: "stage_ok adm meta s i (lg_stage s i)" for i using i by blast
  from assms(1) show ?thesis
  proof (cases rule: ledger_step.cases)
    case (answer i out)
    with st assms(2) show ?thesis by (simp add: ledger_inv_def ledger_kept_def)
  next
    case (admit i csr peer)
    with st assms(2) show ?thesis by (simp add: ledger_inv_def ledger_kept_def)
  next
    case (issue i csr peer w c)
    with here [of i] have "adm i csr peer" by (simp add: stage_ok_def)
    with issue st assms(2) show ?thesis by (simp add: ledger_inv_def ledger_kept_def) blast
  next
    case (stamp i csr peer c m)
    with st assms(2) show ?thesis by (simp add: ledger_inv_def ledger_kept_def)
  next
    case (put_csr i csr c m)
    with st assms(2) show ?thesis by (auto simp: ledger_inv_def ledger_kept_def)
  next
    case (put_cert i csr c m)
    with here [of i] have "entered s i csr c" "SerialNumber c \<in> dom (lg_csrs s)" by (simp_all add: stage_ok_def)
    with put_cert st assms(2) show ?thesis by (auto simp: ledger_inv_def ledger_kept_def entered_def)
  next
    case (put_meta i csr c m j)
    with here [of i] obtain peer e where e: "adm i csr peer" "meta i peer m" "SerialNumber c \<in> dom (lg_certs s)"
      "e \<in> set (lg_issued s)" "is_request e = i" "is_csr e = csr" "is_cert e = c"
      by (auto simp: stage_ok_def entered_def)
    then have "\<exists>e\<in>set (lg_issued s). is_serial e = SerialNumber c \<and>
        (\<exists>peer m. adm (is_request e) (is_csr e) peer \<and> meta (is_request e) peer m \<and> marshal m = Inr j)"
      using put_meta(3) by blast
    with put_meta st e(3) i show ?thesis by (auto simp: ledger_inv_def ledger_kept_def)
  qed
qed

theorem ledger_audit:
  "ledger_run adm issues meta marshal s0 s \<Longrightarrow> ledger_fresh s0 \<Longrightarrow> ledger_inv adm issues meta marshal s0 s"
  by (induction rule: ledger_run.induct) (auto intro: ledger_inv_start ledger_inv_step)

section \<open>Certificates and their requests\<close>

text \<open>
  Two requests whose certificates had one serial number would overwrite each other's files. When the backend gives no
  serial number twice, a certificate lies beside the very request it was issued for.
\<close>

definition serials_differ :: "'w ledger \<Rightarrow> bool" where
  "serials_differ s \<longleftrightarrow> distinct (map (\<lambda>e. is_serial e) (lg_issued s))"

lemma same_serial:
  "serials_differ s \<Longrightarrow> e \<in> set (lg_issued s) \<Longrightarrow> e' \<in> set (lg_issued s) \<Longrightarrow> is_serial e = is_serial e' \<Longrightarrow> e = e'"
  by (auto simp: serials_differ_def distinct_map dest: inj_onD)

lemma entered_serial:
  "serials_differ s \<Longrightarrow> entered s i csr c \<Longrightarrow> entered s j csr' c' \<Longrightarrow> SerialNumber c = SerialNumber c' \<Longrightarrow>
     i = j \<and> csr = csr' \<and> c = c'"
  unfolding entered_def by (metis same_serial)

lemma serials_differ_step: "ledger_step adm issues meta marshal s s' \<Longrightarrow> serials_differ s' \<Longrightarrow> serials_differ s"
  by (erule ledger_stepE) (auto simp: serials_differ_def)

text \<open>For tables of requests \<open>R\<close> and certificates \<open>C\<close> that began with \<open>C0\<close>.\<close>

definition stage_own :: "table \<Rightarrow> table \<Rightarrow> table \<Rightarrow> stage \<Rightarrow> bool" where
  "stage_own C0 R C st =
     (case st of
        Issued csr peer c \<Rightarrow> C (SerialNumber c) = C0 (SerialNumber c)
      | PuttingCSR csr c m \<Rightarrow> C (SerialNumber c) = C0 (SerialNumber c)
      | PuttingCertificate csr c m \<Rightarrow> C (SerialNumber c) = C0 (SerialNumber c) \<and> R (SerialNumber c) = Some (csr_Raw csr)
      | _ \<Rightarrow> True)"

definition paired :: "table \<Rightarrow> table \<Rightarrow> table \<Rightarrow> 'w issuance \<Rightarrow> bool" where
  "paired C0 R C e \<longleftrightarrow> C (is_serial e) = C0 (is_serial e) \<or>
     C (is_serial e) = Some (Raw (is_cert e)) \<and> R (is_serial e) = Some (csr_Raw (is_csr e))"

definition pair_inv :: "'w ledger \<Rightarrow> 'w ledger \<Rightarrow> bool" where
  "pair_inv s0 s \<longleftrightarrow> (\<forall>i. stage_own (lg_certs s0) (lg_csrs s) (lg_certs s) (lg_stage s i)) \<and>
     (\<forall>n. n \<notin> (\<lambda>e. is_serial e) ` set (lg_issued s) \<longrightarrow> lg_certs s n = lg_certs s0 n) \<and>
     (\<forall>e\<in>set (lg_issued s). paired (lg_certs s0) (lg_csrs s) (lg_certs s) e)"

lemma stage_own_simps [simp]:
  "stage_own C0 R C Arrived" "stage_own C0 R C (Issuing csr peer)" "stage_own C0 R C (PuttingMetadata csr c m)"
  "stage_own C0 R C (Responding c)" "stage_own C0 R C (Answered out)"
  "stage_own C0 R C (Issued csr peer c) \<longleftrightarrow> C (SerialNumber c) = C0 (SerialNumber c)"
  "stage_own C0 R C (PuttingCSR csr c m) \<longleftrightarrow> C (SerialNumber c) = C0 (SerialNumber c)"
  "stage_own C0 R C (PuttingCertificate csr c m) \<longleftrightarrow>
     C (SerialNumber c) = C0 (SerialNumber c) \<and> R (SerialNumber c) = Some (csr_Raw csr)"
  by (simp_all add: stage_own_def)

text \<open>The serial number a stage is about, and a write under that of another request.\<close>

lemma stage_own_other:
  assumes "serials_differ s" "stage_ok adm meta s i st" "stage_own C0 R C st" "entered s j csr c" "i \<noteq> j"
  shows "stage_own C0 (R(SerialNumber c := x)) C st" and "stage_own C0 R (C(SerialNumber c := x)) st"
proof -
  have "SerialNumber c' \<noteq> SerialNumber c" if "entered s i csr' c'" for csr' c'
    using entered_serial [OF assms(1) that assms(4)] assms(5) by blast
  with assms(2,3) show "stage_own C0 (R(SerialNumber c := x)) C st" "stage_own C0 R (C(SerialNumber c := x)) st"
    by (cases st; auto simp: stage_ok_def)+
qed

lemma pair_inv_step:
  assumes "ledger_step adm issues meta marshal s s'" "serials_differ s'"
    and "\<forall>i. stage_ok adm meta s i (lg_stage s i)" "pair_inv s0 s"
  shows "pair_inv s0 s'"
proof -
  let ?C = "lg_certs s0"
  note d = serials_differ_step [OF assms(1,2)]
  have own: "stage_own ?C (lg_csrs s) (lg_certs s) (lg_stage s i)" and ok: "stage_ok adm meta s i (lg_stage s i)" for i
    using assms(3,4) by (simp_all add: pair_inv_def)
  have out: "lg_certs s n = ?C n" if "n \<notin> (\<lambda>e. is_serial e) ` set (lg_issued s)" for n
    using assms(4) that by (simp add: pair_inv_def)
  have pr: "paired ?C (lg_csrs s) (lg_certs s) e" if "e \<in> set (lg_issued s)" for e
    using assms(4) that by (simp add: pair_inv_def)
  from assms(1) show ?thesis
  proof (cases rule: ledger_step.cases)
    case (answer i out)
    then show ?thesis using assms(4) by (simp add: pair_inv_def)
  next
    case (admit i csr peer)
    then show ?thesis using assms(4) by (simp add: pair_inv_def)
  next
    case (stamp i csr peer c m)
    then show ?thesis using assms(4) own [of i] by (simp add: pair_inv_def)
  next
    case (put_meta i csr c m j)
    then show ?thesis using assms(4) by (simp add: pair_inv_def)
  next
    case (issue i csr peer w c)
    then have "SerialNumber c \<notin> (\<lambda>e. is_serial e) ` set (lg_issued s)"
      using assms(2) by (auto simp: serials_differ_def)
    from out [OF this] issue assms(4) show ?thesis by (simp add: pair_inv_def paired_def)
  next
    case (put_csr i csr c m)
    have e: "entered s i csr c" "lg_certs s (SerialNumber c) = ?C (SerialNumber c)"
      using ok [of i] own [of i] put_csr by (simp_all add: stage_ok_def)
    have "stage_own ?C (lg_csrs s') (lg_certs s') (lg_stage s' j)" for j
      using stage_own_other(1) [OF d ok own e(1)] e(2) put_csr by (cases "j = i") simp_all
    moreover have "paired ?C (lg_csrs s') (lg_certs s') x" if "x \<in> set (lg_issued s)" for x
      using pr [OF that] e(2) put_csr by (cases "is_serial x = SerialNumber c") (simp_all add: paired_def)
    ultimately show ?thesis using out put_csr by (simp add: pair_inv_def)
  next
    case (put_cert i csr c m)
    have e: "entered s i csr c" "lg_csrs s (SerialNumber c) = Some (csr_Raw csr)"
      using ok [of i] own [of i] put_cert by (simp_all add: stage_ok_def)
    have "stage_own ?C (lg_csrs s') (lg_certs s') (lg_stage s' j)" for j
      using stage_own_other(2) [OF d ok own e(1)] put_cert by (cases "j = i") simp_all
    moreover have "paired ?C (lg_csrs s') (lg_certs s') x" if "x \<in> set (lg_issued s)" for x
    proof (cases "is_serial x = SerialNumber c")
      case True
      then have "is_csr x = csr" "is_cert x = c"
        using entered_serial [OF d _ e(1), of "is_request x" "is_csr x" "is_cert x"] that by (auto simp: entered_def)
      then show ?thesis using put_cert e(2) by (simp add: paired_def)
    qed (use pr [OF that] put_cert in \<open>simp add: paired_def\<close>)
    moreover have "SerialNumber c \<in> (\<lambda>e. is_serial e) ` set (lg_issued s)" using e(1) by (force simp: entered_def)
    ultimately show ?thesis using out put_cert by (auto simp: pair_inv_def)
  qed
qed

theorem ledger_pairs:
  "ledger_run adm issues meta marshal s0 s \<Longrightarrow> ledger_fresh s0 \<Longrightarrow> serials_differ s \<Longrightarrow> pair_inv s0 s"
proof (induction rule: ledger_run.induct)
  case start
  then show ?case by (simp add: pair_inv_def ledger_fresh_def)
next
  case (step s s')
  from ledger_audit [OF step.hyps(1) step.prems(1)] have "\<forall>i. stage_ok adm meta s i (lg_stage s i)"
    by (simp add: ledger_inv_def)
  with pair_inv_step [OF step.hyps(2) step.prems(2)] step.IH step.prems serials_differ_step [OF step.hyps(2)]
  show ?case by blast
qed

section \<open>At most one certificate for a request\<close>

definition issues_once :: "'w ledger \<Rightarrow> bool" where
  "issues_once s \<longleftrightarrow> distinct (map is_request (lg_issued s)) \<and>
     (\<forall>e\<in>set (lg_issued s). case lg_stage s (is_request e) of Arrived \<Rightarrow> False | Issuing _ _ \<Rightarrow> False | _ \<Rightarrow> True)"

lemma issues_once_step:
  assumes "ledger_step adm issues meta marshal s s'" "issues_once s"
  shows "issues_once s'"
  using assms(1)
proof (cases rule: ledger_step.cases)
  case (admit i csr peer)
  then have "i \<notin> is_request ` set (lg_issued s)" using assms(2) by (auto simp: issues_once_def)
  with admit assms(2) show ?thesis by (auto simp: issues_once_def)
next
  case (issue i csr peer w c)
  then have "i \<notin> is_request ` set (lg_issued s)" using assms(2) by (auto simp: issues_once_def)
  with issue assms(2) show ?thesis by (auto simp: issues_once_def)
qed (use assms(2) in \<open>simp_all add: issues_once_def\<close>)

theorem ledger_once: "ledger_run adm issues meta marshal s0 s \<Longrightarrow> ledger_fresh s0 \<Longrightarrow> issues_once s"
  by (induction rule: ledger_run.induct) (auto simp: ledger_fresh_def issues_once_def [of s0] dest: issues_once_step)

end
