(* ===== verification/Parallel.thy ===== *)
theory Parallel
  imports Service Ledger
begin

text \<open>
  The server with requests in parallel. A handler is cut into the calls that act on the system; a schedule says whose
  turn it is. The lemmas show that one handler run through is \<open>serve_tls\<close>, that the store goes through steps of
  \<open>Ledger\<close> only, and so what it holds after any schedule, and that a handler answers after its own seven turns.
  A backend's call is one step (the openssl backend holds its mutex through it, the others write no file), and so is
  a \<open>writeFileAtomic\<close>, whose steps \<open>Store_Steps\<close> takes apart.
\<close>

section \<open>The handlers, call by call\<close>

text \<open>The arguments an enrolment handler calls \<open>issueAndRespond\<close> with, when it comes to that.\<close>

definition enrolment :: "('b, 'w) handler_env \<Rightarrow> http_request \<Rightarrow> (x509_csr \<times> x509_cert) option" where
  "enrolment H r =
     (if (if rq_Method r = ''CONNECT'' then rq_Path r else mux_clean (rq_Path r)) \<noteq> rq_Path r then None
      else (case mux_find est_patterns (rq_Method r) (rq_Path r) of
        Some SimpleEnroll \<Rightarrow>
          (case peerCertificate r of
             Inl err \<Rightarrow> None
           | Inr peer \<Rightarrow>
          (case decodeCSRBody (he_ParseCertificateRequest H) r of
             Inl err \<Rightarrow> None
           | Inr csr \<Rightarrow> Some (csr, peer)))
      | Some SimpleReenroll \<Rightarrow>
          (case peerCertificate r of
             Inl err \<Rightarrow> None
           | Inr peer \<Rightarrow>
          (case decodeCSRBody (he_ParseCertificateRequest H) r of
             Inl err \<Rightarrow> None
           | Inr csr \<Rightarrow> if identitiesMatch peer csr then Some (csr, peer) else None))
      | _ \<Rightarrow> None))"

text \<open>The calls of \<open>issueAndRespond\<close>, one at a time; \<open>PutCertificate\<close> writes two files.\<close>

definition issue_call ::
  "('k, 'c, 'b, 'z os_world_scheme) platform \<Rightarrow> ('k, 'c) ca_value \<Rightarrow> string \<Rightarrow> http_request \<Rightarrow> stage \<Rightarrow>
     'z os_world_scheme \<Rightarrow> stage \<times> 'z os_world_scheme" where
  "issue_call P v dir r st w =
     (case st of
       Issuing csr peer \<Rightarrow>
         (case be_IssueCertificate (backend_of P v) csr w of
            (Inl err, w) \<Rightarrow>
              (Answered (Inr (if errors_Is err ErrInvalidCSRSignature
                 then http_Error (Text ''CSR signature does not verify'') 400 else internal_error)), w)
          | (Inr cert, w) \<Rightarrow> (Issued csr peer cert, w))
     | Issued csr peer cert \<Rightarrow>
         (case time_Now w of (now, w) \<Rightarrow> (PuttingCSR csr cert (request_metadata peer r now), w))
     | PuttingCSR csr cert meta \<Rightarrow>
         (case PutCSR dir (SerialNumber cert) (csr_Raw csr) meta w of
            (Some err, w) \<Rightarrow> (Answered (Inr internal_error), w)
          | (None, w) \<Rightarrow> (PuttingCertificate csr cert meta, w))
     | PuttingCertificate csr cert meta \<Rightarrow>
         (case writeFileAtomic (certPath dir (SerialNumber cert)) (Raw cert) perm_640 w of
            (Some err, w) \<Rightarrow> (Answered (Inr internal_error), w)
          | (None, w) \<Rightarrow> (PuttingMetadata csr cert meta, w))
     | PuttingMetadata csr cert meta \<Rightarrow>
         (case marshal_metadata (pf_zone P) meta of
            Inl err \<Rightarrow> (Answered (Inr internal_error), w)
          | Inr metaJSON \<Rightarrow>
         (case writeFileAtomic (certMetaPath dir (SerialNumber cert)) metaJSON perm_640 w of
            (Some err, w) \<Rightarrow> (Answered (Inr internal_error), w)
          | (None, w) \<Rightarrow> (Responding cert, w)))
     | Responding cert \<Rightarrow>
         (case EncodeCertsOnly (pf_builder P) [Some cert] of
            Inl err \<Rightarrow> (Answered (Inr internal_error), w)
          | Inr d \<Rightarrow> (Answered (Inr (writePKCS7Response d)), w))
     | _ \<Rightarrow> (st, w))"

text \<open>The next call of the handler of one connection. A request that issues nothing is answered in one step.\<close>

definition advance ::
  "('k, 'c, 'b, 'z os_world_scheme) platform \<Rightarrow> ('k, 'c) ca_value \<Rightarrow> string \<Rightarrow> bytes \<Rightarrow> chain_verifier \<Rightarrow>
     'c tls_config \<Rightarrow> tls_client \<times> http_request \<Rightarrow> stage \<times> 'z os_world_scheme \<Rightarrow> stage \<times> 'z os_world_scheme" where
  "advance P v dir a verify cfg cn = (\<lambda>(st, w).
     case st of
       Arrived \<Rightarrow>
         (case handshake verify cfg (fst cn) of
            Inl e \<Rightarrow> (Answered (Inl e), w)
          | Inr certs \<Rightarrow>
              (case enrolment (est_env P) (snd cn \<lparr> rq_TLS := Some certs \<rparr>) of
                 Some (csr, peer) \<Rightarrow> (Issuing csr peer, w)
               | None \<Rightarrow>
                   (case serve (est_env P) (est_instance P v dir a) (snd cn \<lparr> rq_TLS := Some certs \<rparr>) w of
                      (resp, w) \<Rightarrow> (Answered (Inr resp), w))))
     | _ \<Rightarrow> issue_call P v dir (snd cn) st w)"

lemmas call_defs = advance_def issue_call_def

text \<open>All connections; the one whose turn it is advances. What is issued is recorded.\<close>

record 'w pool =
  pl_world :: 'w
  pl_stage :: "nat \<Rightarrow> stage"
  pl_issued :: "'w issuance list"

definition opened :: "'w \<Rightarrow> 'w pool" where
  "opened w = \<lparr> pl_world = w, pl_stage = (\<lambda>_. Arrived), pl_issued = [] \<rparr>"

definition issuance_of :: "nat \<Rightarrow> stage \<Rightarrow> 'w \<Rightarrow> stage \<Rightarrow> 'w issuance list" where
  "issuance_of i st w st' =
     (case (st, st') of
        (Issuing _ _, Issued csr peer cert) \<Rightarrow> [\<lparr> is_request = i, is_csr = csr, is_cert = cert, is_before = w \<rparr>]
      | _ \<Rightarrow> [])"

definition turn ::
  "('k, 'c, 'b, 'z os_world_scheme) platform \<Rightarrow> ('k, 'c) ca_value \<Rightarrow> string \<Rightarrow> bytes \<Rightarrow> chain_verifier \<Rightarrow>
     'c tls_config \<Rightarrow> (nat \<Rightarrow> tls_client \<times> http_request) \<Rightarrow> nat \<Rightarrow> 'z os_world_scheme pool \<Rightarrow> 'z os_world_scheme pool"
  where
  "turn P v dir a verify cfg cns i h =
     (case advance P v dir a verify cfg (cns i) (pl_stage h i, pl_world h) of
        (st, w) \<Rightarrow> \<lparr> pl_world = w, pl_stage = (pl_stage h)(i := st),
                     pl_issued = pl_issued h @ issuance_of i (pl_stage h i) (pl_world h) st \<rparr>)"

definition run_schedule ::
  "('k, 'c, 'b, 'z os_world_scheme) platform \<Rightarrow> ('k, 'c) ca_value \<Rightarrow> string \<Rightarrow> bytes \<Rightarrow> chain_verifier \<Rightarrow>
     'c tls_config \<Rightarrow> (nat \<Rightarrow> tls_client \<times> http_request) \<Rightarrow> nat list \<Rightarrow> 'z os_world_scheme \<Rightarrow> 'z os_world_scheme pool"
  where
  "run_schedule P v dir a verify cfg cns sched w = fold (turn P v dir a verify cfg cns) sched (opened w)"

lemma run_schedule_snoc:
  "run_schedule P v dir a verify cfg cns [] w = opened w"
  "run_schedule P v dir a verify cfg cns (sched @ [i]) w =
     turn P v dir a verify cfg cns i (run_schedule P v dir a verify cfg cns sched w)"
  by (simp_all add: run_schedule_def)

section \<open>One handler, run through\<close>

lemma serve_enrolment:
  "enrolment H r = Some (csr, peer) \<Longrightarrow> serve H s r w = issueAndRespond H s r csr peer w"
  by (auto simp: enrolment_def serve_def handleSimpleEnroll_def handleSimpleReenroll_def Let_def
      split: if_split_asm option.splits route.splits sum.splits)

lemma advance_answered: "(advance P v dir a verify cfg cn ^^ n) (Answered out, w) = (Answered out, w)"
  by (induction n) (simp_all add: call_defs)

lemma advance_more:
  "advance P v dir a verify cfg cn (st, w) = (Answered out, w') \<Longrightarrow>
     (advance P v dir a verify cfg cn ^^ Suc n) (st, w) = (Answered out, w')"
  "advance P v dir a verify cfg cn (st, w) = (st', u) \<Longrightarrow>
     (advance P v dir a verify cfg cn ^^ n) (st', u) = (Answered out, w') \<Longrightarrow>
     (advance P v dir a verify cfg cn ^^ Suc n) (st, w) = (Answered out, w')"
  by (simp_all only: funpow_Suc_right o_apply advance_answered)

lemma advance_put_certificate:
  assumes "PutCertificate (pf_zone P) dir (SerialNumber c) (Raw c) m w = (e, w')"
  shows "(advance P v dir a verify cfg cn ^^ Suc (Suc (Suc 0))) (PuttingCertificate csr c m, w) =
     (Answered (Inr (case e of
        Some err \<Rightarrow> internal_error
      | None \<Rightarrow> (case EncodeCertsOnly (pf_builder P) [Some c] of Inl err \<Rightarrow> internal_error | Inr d \<Rightarrow> writePKCS7Response d))), w')"
    (is "_ = (?out, _)")
proof -
  let ?A = "advance P v dir a verify cfg cn"
  obtain e1 w1 where 1: "writeFileAtomic (certPath dir (SerialNumber c)) (Raw c) perm_640 w = (e1, w1)" by fastforce
  show ?thesis
  proof (cases e1)
    case (Some err)
    then show ?thesis using 1 assms by (intro advance_more(1)) (auto simp: call_defs PutCertificate_def)
  next
    case None
    have "(?A ^^ Suc (Suc 0)) (PuttingMetadata csr c m, w1) = (?out, w')"
    proof (cases e)
      case (Some err)
      then show ?thesis using 1 None assms
        by (intro advance_more(1)) (auto simp: call_defs PutCertificate_def split: sum.splits)
    next
      case None
      have "?A (PuttingMetadata csr c m, w1) = (Responding c, w')"
        using 1 \<open>e1 = None\<close> None assms by (auto simp: call_defs PutCertificate_def split: sum.splits)
      moreover have "?A (Responding c, w') = (?out, w')" using None by (simp add: call_defs split: sum.split)
      ultimately show ?thesis by (intro advance_more(2)) simp_all
    qed
    moreover have "?A (PuttingCertificate csr c m, w) = (PuttingMetadata csr c m, w1)"
      using 1 None by (simp add: call_defs)
    ultimately show ?thesis by (rule advance_more(2) [rotated])
  qed
qed

lemma advance_issue:
  assumes "rq_RemoteAddr r = rq_RemoteAddr (snd cn)"
    and "issueAndRespond (est_env P) (est_instance P v dir a) r csr peer w = (resp, w')"
  shows "(advance P v dir a verify cfg cn ^^ 6) (Issuing csr peer, w) = (Answered (Inr resp), w')"
proof -
  let ?A = "advance P v dir a verify cfg cn"
  have n: "6 = Suc (Suc (Suc (Suc (Suc (Suc 0)))))" by simp
  obtain q w1 where q: "be_IssueCertificate (backend_of P v) csr w = (q, w1)" by fastforce
  show ?thesis
  proof (cases q)
    case (Inl e)
    then show ?thesis unfolding n using q assms(2)
      by (intro advance_more(1)) (auto simp: call_defs issueAndRespond_def)
  next
    case (Inr c)
    obtain t w2 where t: "time_Now w1 = (t, w2)" by fastforce
    let ?m = "request_metadata peer (snd cn) t"
    obtain e3 w3 where p3: "PutCSR dir (SerialNumber c) (csr_Raw csr) ?m w2 = (e3, w3)" by fastforce
    obtain e4 w4 where p4: "PutCertificate (pf_zone P) dir (SerialNumber c) (Raw c) ?m w3 = (e4, w4)" by fastforce
    note def = assms(2) [unfolded issueAndRespond_def Let_def request_metadata_def [symmetric] assms(1)]
    have run: "(?A ^^ Suc (Suc (Suc (Suc 0)))) (PuttingCSR csr c ?m, w2) = (Answered (Inr resp), w')"
    proof (cases e3)
      case (Some e)
      then show ?thesis using def q Inr t p3
        by (intro advance_more(1)) (simp add: call_defs file_store_def request_metadata_def assms(1))
    next
      case None
      then have step: "?A (PuttingCSR csr c ?m, w2) = (PuttingCertificate csr c ?m, w3)" using p3 by (simp add: call_defs)
      have "resp = (case e4 of Some err \<Rightarrow> internal_error
          | None \<Rightarrow> (case EncodeCertsOnly (pf_builder P) [Some c] of Inl err \<Rightarrow> internal_error | Inr d \<Rightarrow> writePKCS7Response d))"
        "w' = w4"
        using def q Inr t p3 p4 None
        by (cases e4; cases "EncodeCertsOnly (pf_builder P) [Some c]";
            simp add: file_store_def request_metadata_def assms(1))+
      then show ?thesis using advance_more(2) [OF step] advance_put_certificate [OF p4] by metis
    qed
    have stamped: "?A (Issued csr peer c, w1) = (PuttingCSR csr c ?m, w2)" using t by (simp add: call_defs)
    have "?A (Issuing csr peer, w) = (Issued csr peer c, w1)" using q Inr by (simp add: call_defs)
    from advance_more(2) [OF this advance_more(2) [OF stamped run]] show ?thesis unfolding n .
  qed
qed

lemma handler_run:
  assumes "serve_tls (est_env P) (est_instance P v dir a) verify cfg (fst cn) (snd cn) w = (out, w')"
  shows "(advance P v dir a verify cfg cn ^^ 7) (Arrived, w) = (Answered out, w')"
proof -
  let ?A = "advance P v dir a verify cfg cn"
  have s: "(?A ^^ 7) (Arrived, w) = (?A ^^ 6) (?A (Arrived, w))"
    by (simp only: numeral_eq_Suc pred_numeral_simps funpow_Suc_right o_apply)
  show ?thesis
  proof (cases "handshake verify cfg (fst cn)")
    case (Inl e)
    then have "?A (Arrived, w) = (Answered out, w')" using assms by (simp add: call_defs serve_tls_def)
    then show ?thesis using s advance_answered by metis
  next
    case (Inr certs)
    let ?r = "snd cn \<lparr> rq_TLS := Some certs \<rparr>"
    obtain resp where r: "serve (est_env P) (est_instance P v dir a) ?r w = (resp, w')" "out = Inr resp"
      using assms Inr by (auto simp: serve_tls_def split: prod.splits)
    show ?thesis
    proof (cases "enrolment (est_env P) ?r")
      case None
      then have "?A (Arrived, w) = (Answered out, w')" using Inr r by (simp add: call_defs)
      then show ?thesis using s advance_answered by metis
    next
      case (Some x)
      obtain csr peer where x: "x = (csr, peer)" by fastforce
      have "issueAndRespond (est_env P) (est_instance P v dir a) ?r csr peer w = (resp, w')"
        using serve_enrolment [of "est_env P" ?r csr peer] Some r(1) x by simp
      from advance_issue [OF _ this] have "(?A ^^ 6) (Issuing csr peer, w) = (Answered out, w')" using r(2) by simp
      moreover have "?A (Arrived, w) = (Issuing csr peer, w)" using Inr Some x by (simp add: call_defs)
      ultimately show ?thesis using s by simp
    qed
  qed
qed

section \<open>The store goes through the steps of the ledger\<close>

definition admitted ::
  "('k, 'c, 'b, 'z os_world_scheme) platform \<Rightarrow> chain_verifier \<Rightarrow> 'c tls_config \<Rightarrow> tls_client \<times> http_request \<Rightarrow>
     x509_csr \<Rightarrow> x509_cert \<Rightarrow> bool" where
  "admitted P verify cfg cn csr peer \<longleftrightarrow>
     authenticated verify cfg (fst cn) \<and> (\<exists>chain. tk_Chain (fst cn) = peer # chain) \<and> rq_Method (snd cn) = ''POST'' \<and>
     rq_Path (snd cn) \<in> {''/.well-known/est/simpleenroll'', ''/.well-known/est/simplereenroll''} \<and>
     (rq_Path (snd cn) = ''/.well-known/est/simplereenroll'' \<longrightarrow> identitiesMatch peer csr) \<and>
     decodeCSRBody (pf_ParseCertificateRequest P) (snd cn \<lparr> rq_TLS := Some (tk_Chain (fst cn)) \<rparr>) = Inr csr"

lemma enrolment_admitted:
  assumes "built_config cfg" "handshake verify cfg (fst cn) = Inr certs"
    and "enrolment (est_env P) (snd cn \<lparr> rq_TLS := Some certs \<rparr>) = Some (csr, peer)"
  shows "admitted P verify cfg cn csr peer"
proof -
  let ?r = "snd cn \<lparr> rq_TLS := Some certs \<rparr>"
  obtain h where h: "mux_find est_patterns (rq_Method ?r) (rq_Path ?r) = Some h" "h \<in> {SimpleEnroll, SimpleReenroll}"
    using assms(3) by (auto simp: enrolment_def split: if_split_asm option.splits route.splits)
  have p: "peerCertificate ?r = Inr peer" "decodeCSRBody (pf_ParseCertificateRequest P) ?r = Inr csr"
    "h = SimpleReenroll \<longrightarrow> identitiesMatch peer csr"
    using assms(3) h by (auto simp: enrolment_def split: if_split_asm sum.splits)
  from handshake_verified [OF assms(1,2)] have c: "certs = tk_Chain (fst cn)"
    "certs \<noteq> [] \<longrightarrow> authenticated verify cfg (fst cn)" by blast+
  obtain chain where ch: "certs = peer # chain" using p(1) by (cases certs) (auto simp: peerCertificate_def)
  have "tk_Chain (fst cn) = peer # chain" using c(1) ch by simp
  moreover have "authenticated verify cfg (fst cn)" using c(2) ch by simp
  ultimately show ?thesis using mux_find_cases [OF h(1)] h(2) p c(1) by (auto simp: admitted_def)
qed

lemma serve_other:
  assumes "backend_trusted P v" "enrolment (est_env P) r = None"
    and "serve (est_env P) (est_instance P v dir a) r w = (resp, w')"
  shows "lasting_files w' = lasting_files w"
proof -
  have "w' = w" if "handleSimpleEnroll (est_env P) (est_instance P v dir a) r w = (resp, w')"
    "rq_Path r = ''/.well-known/est/simpleenroll''" "rq_Method r = ''POST''"
    using assms(2) that by (auto simp: enrolment_def handleSimpleEnroll_def mux_paths find_enroll split: sum.splits)
  moreover have "w' = w" if "handleSimpleReenroll (est_env P) (est_instance P v dir a) r w = (resp, w')"
    "rq_Path r = ''/.well-known/est/simplereenroll''" "rq_Method r = ''POST''"
    using assms(2) that
    by (auto simp: enrolment_def handleSimpleReenroll_def mux_paths find_enroll split: sum.splits if_splits)
  moreover have "lasting_files w' = lasting_files w" if "handleCACerts (est_env P) (est_instance P v dir a) r w = (resp, w')"
    using that by (auto simp: handleCACerts_def split: prod.splits sum.splits dest: any.cacerts_frame [OF assms(1)])
  moreover have "w' = w" if "handleCSRAttrs (est_env P) (est_instance P v dir a) r w = (resp, w')"
    using that by (auto simp: handleCSRAttrs_def split: if_splits)
  ultimately show ?thesis using serve_cases [OF assms(3)] by auto
qed

definition issues_in ::
  "('k, 'c, 'b, 'z os_world_scheme) platform \<Rightarrow> ('k, 'c) ca_value \<Rightarrow> x509_csr \<Rightarrow> 'z os_world_scheme \<Rightarrow> x509_cert \<Rightarrow> bool"
  where
  "issues_in P v csr w c \<longleftrightarrow> (\<exists>w'. be_IssueCertificate (backend_of P v) csr w = (Inr c, w'))"

definition describes :: "(nat \<Rightarrow> tls_client \<times> http_request) \<Rightarrow> nat \<Rightarrow> x509_cert \<Rightarrow> metadata \<Rightarrow> bool" where
  "describes cns i peer m \<longleftrightarrow> (\<exists>t. m = request_metadata peer (snd (cns i)) t)"

definition ledger_of :: "string \<Rightarrow> 'z os_world_scheme pool \<Rightarrow> 'z os_world_scheme ledger" where
  "ledger_of dir h = \<lparr> lg_csrs = stored (csrPath dir) (pl_world h), lg_certs = stored (certPath dir) (pl_world h),
     lg_metas = stored (certMetaPath dir) (pl_world h), lg_stage = pl_stage h, lg_issued = pl_issued h \<rparr>"

lemma ledger_simps [simp]:
  "lg_csrs (ledger_of dir h) = stored (csrPath dir) (pl_world h)"
  "lg_certs (ledger_of dir h) = stored (certPath dir) (pl_world h)"
  "lg_metas (ledger_of dir h) = stored (certMetaPath dir) (pl_world h)"
  "lg_stage (ledger_of dir h) = pl_stage h" "lg_issued (ledger_of dir h) = pl_issued h"
  by (simp_all add: ledger_of_def)

lemma opened_fresh: "ledger_fresh (ledger_of dir (opened w))"
  by (simp add: ledger_fresh_def opened_def)

text \<open>What the calls leave as it was.\<close>

definition same_store :: "string \<Rightarrow> 'z os_world_scheme \<Rightarrow> 'z os_world_scheme \<Rightarrow> bool" where
  "same_store dir w w' \<longleftrightarrow> stored (csrPath dir) w' = stored (csrPath dir) w \<and>
     stored (certPath dir) w' = stored (certPath dir) w \<and> stored (certMetaPath dir) w' = stored (certMetaPath dir) w"

lemma same_store_lasting: "lasting_files w' = lasting_files w \<Longrightarrow> same_store dir w w'"
  using est.view_store [of w' w dir] by (simp add: same_store_def)

lemma same_store_write:
  "writeFileAtomic p d perm w = (Some e, w') \<Longrightarrow> store_name dir p \<Longrightarrow> same_store dir w w'"
  using stored_error [of p d perm w e w' dir] by (simp add: same_store_def)

lemma advance_arrived:
  assumes "backend_trusted P v" "built_config cfg" "advance P v dir a verify cfg cn (Arrived, w) = (st, w')"
  shows "same_store dir w w' \<and>
     ((\<exists>out. st = Answered out) \<or> (\<exists>csr peer. st = Issuing csr peer \<and> admitted P verify cfg cn csr peer))"
proof (cases "handshake verify cfg (fst cn)")
  case (Inl e)
  then show ?thesis using assms(3) by (auto simp: call_defs same_store_def)
next
  case (Inr certs)
  show ?thesis
  proof (cases "enrolment (est_env P) (snd cn \<lparr> rq_TLS := Some certs \<rparr>)")
    case None
    then show ?thesis using assms(3) Inr serve_other [OF assms(1) None]
      by (auto simp: call_defs same_store_lasting split: prod.splits)
  next
    case (Some x)
    then show ?thesis using assms(3) Inr enrolment_admitted [OF assms(2) Inr, of P]
      by (cases x) (auto simp: call_defs same_store_def)
  qed
qed

abbreviation server_step where
  "server_step P v verify cfg cns \<equiv>
     ledger_step (\<lambda>i. admitted P verify cfg (cns i)) (issues_in P v) (describes cns) (marshal_metadata (pf_zone P))"

lemma ledger_of_turn:
  assumes "advance P v dir a verify cfg (cns i) (pl_stage h i, pl_world h) = (st, w)"
  shows "ledger_of dir (turn P v dir a verify cfg cns i h) =
      \<lparr> lg_csrs = stored (csrPath dir) w, lg_certs = stored (certPath dir) w, lg_metas = stored (certMetaPath dir) w,
        lg_stage = (pl_stage h)(i := st), lg_issued = pl_issued h @ issuance_of i (pl_stage h i) (pl_world h) st \<rparr>"
  by (simp add: turn_def ledger_of_def assms)

lemma turn_answers:
  assumes "advance P v dir a verify cfg (cns i) (pl_stage h i, pl_world h) = (Answered out, w)"
    and "same_store dir (pl_world h) w"
  shows "server_step P v verify cfg cns (ledger_of dir h) (ledger_of dir (turn P v dir a verify cfg cns i h))"
proof -
  let ?l = "ledger_of dir h"
  have "ledger_of dir (turn P v dir a verify cfg cns i h) = ?l \<lparr> lg_stage := (lg_stage ?l)(i := Answered out) \<rparr>"
    unfolding ledger_of_turn [where cns = cns and i = i, OF assms(1)] using assms(2)
    by (simp add: ledger_of_def same_store_def issuance_of_def split: stage.split)
  then show ?thesis by (simp only: ledger_step.answer)
qed

lemma turn_arrived:
  assumes "backend_trusted P v" "built_config cfg" "pl_stage h i = Arrived"
  shows "server_step P v verify cfg cns (ledger_of dir h) (ledger_of dir (turn P v dir a verify cfg cns i h))"
proof -
  let ?l = "ledger_of dir h"
  obtain st w where adv: "advance P v dir a verify cfg (cns i) (Arrived, pl_world h) = (st, w)" by fastforce
  note q = advance_arrived [OF assms(1,2) adv]
  show ?thesis
  proof (cases "\<exists>out. st = Answered out")
    case True
    with q adv assms(3) show ?thesis by (auto intro: turn_answers)
  next
    case False
    with q obtain csr peer where st: "st = Issuing csr peer" "admitted P verify cfg (cns i) csr peer" by blast
    then have "advance P v dir a verify cfg (cns i) (pl_stage h i, pl_world h) = (Issuing csr peer, w)"
      using adv assms(3) by simp
    from ledger_of_turn [where cns = cns and i = i, OF this]
      ledger_step.admit [of ?l i "\<lambda>i. admitted P verify cfg (cns i)" csr peer] q assms(3) st(2)
    show ?thesis by (simp add: ledger_of_def [of dir h] same_store_def issuance_of_def)
  qed
qed

lemma turn_issuing:
  assumes "backend_trusted P v" "pl_stage h i = Issuing csr peer"
  shows "server_step P v verify cfg cns (ledger_of dir h) (ledger_of dir (turn P v dir a verify cfg cns i h))"
proof -
  let ?l = "ledger_of dir h" and ?w = "pl_world h"
  obtain q w where q: "be_IssueCertificate (backend_of P v) csr ?w = (q, w)" by fastforce
  have s: "same_store dir ?w w" using any.issue_frame [OF assms(1) q] by (rule same_store_lasting)
  show ?thesis
  proof (cases q)
    case (Inl e)
    with assms(2) q s show ?thesis by (intro turn_answers) (auto simp: call_defs)
  next
    case (Inr c)
    have "issues_in P v csr ?w c" using q Inr by (auto simp: issues_in_def)
    have "advance P v dir a verify cfg (cns i) (pl_stage h i, ?w) = (Issued csr peer c, w)"
      using assms(2) q Inr by (simp add: call_defs)
    from ledger_of_turn [where cns = cns and i = i, OF this]
      ledger_step.issue [of ?l i csr peer "issues_in P v" ?w c] assms(2) s \<open>issues_in P v csr ?w c\<close>
    show ?thesis by (simp add: ledger_of_def [of dir h] same_store_def issuance_of_def)
  qed
qed

lemma turn_issued:
  assumes "pl_stage h i = Issued csr peer c"
  shows "server_step P v verify cfg cns (ledger_of dir h) (ledger_of dir (turn P v dir a verify cfg cns i h))"
proof -
  let ?l = "ledger_of dir h" and ?w = "pl_world h"
  obtain now w where n: "time_Now ?w = (now, w)" by fastforce
  let ?m = "request_metadata peer (snd (cns i)) now"
  have "same_store dir ?w w" using time_Now_frame [OF n] by (intro same_store_lasting lasting_same) simp
  moreover have "describes cns i peer ?m" by (auto simp: describes_def)
  moreover have "advance P v dir a verify cfg (cns i) (pl_stage h i, ?w) = (PuttingCSR csr c ?m, w)"
    using assms n by (simp add: call_defs)
  note ledger_of_turn [where cns = cns and i = i, OF this]
  ultimately show ?thesis
    using ledger_step.stamp [of ?l i csr peer c "describes cns"] assms
    by (simp add: ledger_of_def [of dir h] same_store_def issuance_of_def)
qed

lemma turn_putting_csr:
  assumes "pl_stage h i = PuttingCSR csr c m"
  shows "server_step P v verify cfg cns (ledger_of dir h) (ledger_of dir (turn P v dir a verify cfg cns i h))"
proof -
  let ?l = "ledger_of dir h" and ?w = "pl_world h"
  obtain e w where e: "PutCSR dir (SerialNumber c) (csr_Raw csr) m ?w = (e, w)" by fastforce
  show ?thesis
  proof (cases e)
    case (Some err)
    then have "same_store dir ?w w" using e by (auto simp: PutCSR_def intro: same_store_write)
    with assms e Some show ?thesis by (intro turn_answers) (auto simp: call_defs)
  next
    case None
    then have "advance P v dir a verify cfg (cns i) (pl_stage h i, ?w) = (PuttingCertificate csr c m, w)"
      using assms e by (simp add: call_defs)
    from ledger_of_turn [where cns = cns and i = i, OF this] ledger_step.put_csr [of ?l i csr c m] assms e None
    show ?thesis by (simp add: ledger_of_def [of dir h] issuance_of_def PutCSR_def stored_ok(1))
  qed
qed

lemma turn_putting_certificate:
  assumes "pl_stage h i = PuttingCertificate csr c m"
  shows "server_step P v verify cfg cns (ledger_of dir h) (ledger_of dir (turn P v dir a verify cfg cns i h))"
proof -
  let ?l = "ledger_of dir h" and ?w = "pl_world h"
  obtain e w where e: "writeFileAtomic (certPath dir (SerialNumber c)) (Raw c) perm_640 ?w = (e, w)" by fastforce
  show ?thesis
  proof (cases e)
    case (Some err)
    then have "same_store dir ?w w" using e same_store_write by fastforce
    with assms e Some show ?thesis by (intro turn_answers) (auto simp: call_defs)
  next
    case None
    then have "advance P v dir a verify cfg (cns i) (pl_stage h i, ?w) = (PuttingMetadata csr c m, w)"
      using assms e by (simp add: call_defs)
    from ledger_of_turn [where cns = cns and i = i, OF this] ledger_step.put_cert [of ?l i csr c m] assms e None
    show ?thesis by (simp add: ledger_of_def [of dir h] issuance_of_def stored_ok(2))
  qed
qed

lemma turn_putting_metadata:
  assumes "pl_stage h i = PuttingMetadata csr c m"
  shows "server_step P v verify cfg cns (ledger_of dir h) (ledger_of dir (turn P v dir a verify cfg cns i h))"
proof (cases "marshal_metadata (pf_zone P) m")
  case (Inl err)
  with assms show ?thesis by (intro turn_answers) (auto simp: call_defs same_store_def)
next
  case (Inr j)
  let ?l = "ledger_of dir h" and ?w = "pl_world h"
  obtain e w where e: "writeFileAtomic (certMetaPath dir (SerialNumber c)) j perm_640 ?w = (e, w)" by fastforce
  show ?thesis
  proof (cases e)
    case (Some err)
    then have "same_store dir ?w w" using e same_store_write by fastforce
    with assms e Some Inr show ?thesis by (intro turn_answers) (auto simp: call_defs)
  next
    case None
    then have "advance P v dir a verify cfg (cns i) (pl_stage h i, ?w) = (Responding c, w)"
      using assms e Inr by (simp add: call_defs)
    from ledger_of_turn [where cns = cns and i = i, OF this] ledger_step.put_meta [of ?l i csr c m "marshal_metadata (pf_zone P)" j] assms e None Inr
    show ?thesis by (simp add: ledger_of_def [of dir h] issuance_of_def stored_ok(3))
  qed
qed

lemma turn_step:
  assumes "backend_trusted P v" "built_config cfg"
  shows "server_step P v verify cfg cns (ledger_of dir h) (ledger_of dir (turn P v dir a verify cfg cns i h))"
proof (cases "pl_stage h i")
  case (Responding c)
  then show ?thesis
    by (cases "EncodeCertsOnly (pf_builder P) [Some c]"; intro turn_answers) (auto simp: call_defs same_store_def)
next
  case (Answered out)
  then show ?thesis by (intro turn_answers) (auto simp: call_defs same_store_def)
qed (simp_all add: turn_arrived turn_issuing turn_issued turn_putting_csr turn_putting_certificate turn_putting_metadata assms)

lemma schedule_run:
  assumes "backend_trusted P v" "built_config cfg"
  shows "ledger_run (\<lambda>i. admitted P verify cfg (cns i)) (issues_in P v) (describes cns) (marshal_metadata (pf_zone P))
     (ledger_of dir (opened w)) (ledger_of dir (run_schedule P v dir a verify cfg cns sched w))"
  by (induction sched rule: rev_induct)
    (auto simp: run_schedule_snoc intro: ledger_run.start ledger_run.step turn_step [OF assms])

section \<open>Turns\<close>

lemma turn_other [simp]: "j \<noteq> i \<Longrightarrow> pl_stage (turn P v dir a verify cfg cns i h) j = pl_stage h j"
  by (simp add: turn_def split: prod.split)

definition turns_left :: "stage \<Rightarrow> nat" where
  "turns_left st = (case st of Arrived \<Rightarrow> 7 | Issuing _ _ \<Rightarrow> 6 | Issued _ _ _ \<Rightarrow> 5 | PuttingCSR _ _ _ \<Rightarrow> 4
     | PuttingCertificate _ _ _ \<Rightarrow> 3 | PuttingMetadata _ _ _ \<Rightarrow> 2 | Responding _ \<Rightarrow> 1 | Answered _ \<Rightarrow> 0)"

lemma advance_turns: "advance P v dir a verify cfg cn (st, w) = (st', w') \<Longrightarrow> turns_left st' \<le> turns_left st - 1"
  by (cases st) (auto simp: call_defs turns_left_def split: prod.splits sum.splits option.splits)

lemma turns_bound:
  "turns_left (pl_stage (run_schedule P v dir a verify cfg cns sched w) i) \<le> 7 - count_list sched i"
proof (induction sched rule: rev_induct)
  case Nil
  then show ?case by (simp add: run_schedule_snoc opened_def turns_left_def)
next
  case (snoc j sched)
  let ?h = "run_schedule P v dir a verify cfg cns sched w"
  show ?case
  proof (cases "j = i")
    case True
    obtain st u where "advance P v dir a verify cfg (cns i) (pl_stage ?h i, pl_world ?h) = (st, u)" by fastforce
    with advance_turns [OF this] snoc.IH True show ?thesis by (simp add: run_schedule_snoc turn_def)
  qed (use snoc.IH in \<open>simp add: run_schedule_snoc\<close>)
qed

text \<open>Turns in a row.\<close>

lemma turns_in_a_row:
  "(advance P v dir a verify cfg (cns i) ^^ k) (pl_stage h i, pl_world h) = (st, u) \<Longrightarrow>
     pl_world (fold (turn P v dir a verify cfg cns) (replicate k i) h) = u \<and>
     pl_stage (fold (turn P v dir a verify cfg cns) (replicate k i) h) = (pl_stage h)(i := st)"
proof (induction k arbitrary: h)
  case (Suc k)
  let ?h = "turn P v dir a verify cfg cns i h"
  obtain st1 w1 where 1: "advance P v dir a verify cfg (cns i) (pl_stage h i, pl_world h) = (st1, w1)" by fastforce
  then have h: "pl_stage ?h = (pl_stage h)(i := st1)" "pl_world ?h = w1" by (simp_all add: turn_def)
  from Suc.prems 1 h have "(advance P v dir a verify cfg (cns i) ^^ k) (pl_stage ?h i, pl_world ?h) = (st, u)"
    by (simp add: funpow_Suc_right del: funpow.simps)
  from Suc.IH [OF this] h show ?case by (simp add: fun_eq_iff)
qed auto

lemma schedule_cong:
  "\<forall>i\<in>set sched. cns i = cns' i \<Longrightarrow>
     run_schedule P v dir a verify cfg cns sched w = run_schedule P v dir a verify cfg cns' sched w"
  by (induction sched rule: rev_induct) (auto simp: run_schedule_snoc turn_def)

lemma schedule_arrived: "i \<notin> set sched \<Longrightarrow> pl_stage (run_schedule P v dir a verify cfg cns sched w) i = Arrived"
  by (induction sched rule: rev_induct) (auto simp: run_schedule_snoc opened_def)

section \<open>Who stands behind what is stored\<close>

text \<open>The request as the handler sees it.\<close>

definition request_of :: "tls_client \<times> http_request \<Rightarrow> http_request" where
  "request_of cn = snd cn \<lparr> rq_TLS := Some (tk_Chain (fst cn)) \<rparr>"

lemma admitted_enrolled:
  assumes "backend_trusted P v" "admitted P verify cfg cn csr peer" "issues_in P v csr w c"
  shows "enrolled P v (request_of cn) w csr c \<and> authenticated verify cfg (fst cn)"
proof -
  from assms(3) obtain w' where i: "be_IssueCertificate (backend_of P v) csr w = (Inr c, w')" by (auto simp: issues_in_def)
  from any.issued_verified [OF i] any.never_CA [OF assms(1) i] assms(2) i show ?thesis
    unfolding admitted_def enrolled_def request_of_def by auto
qed

lemma described_recorded:
  assumes "admitted P verify cfg (cns i) csr peer" "describes cns i peer m" "marshal_metadata (pf_zone P) m = Inr j"
  shows "recorded P (request_of (cns i)) j"
  using assms by (auto simp: admitted_def describes_def recorded_def request_metadata_def request_of_def)

lemma schedule_inv:
  assumes "backend_trusted P v" "built_config cfg"
  shows "ledger_inv (\<lambda>i. admitted P verify cfg (cns i)) (issues_in P v) (describes cns) (marshal_metadata (pf_zone P))
     (ledger_of dir (opened w)) (ledger_of dir (run_schedule P v dir a verify cfg cns sched w))"
  by (rule ledger_audit [OF schedule_run [OF assms] opened_fresh])

lemma schedule_pairs:
  assumes "backend_trusted P v" "built_config cfg"
    and "serials_differ (ledger_of dir (run_schedule P v dir a verify cfg cns sched w))"
  shows "pair_inv (ledger_of dir (opened w)) (ledger_of dir (run_schedule P v dir a verify cfg cns sched w))"
  by (rule ledger_pairs [OF schedule_run [OF assms(1,2)] opened_fresh assms(3)])

lemma schedule_issued:
  assumes "built_config cfg" "backend_trusted P v"
    and "e \<in> set (pl_issued (run_schedule P v dir a verify cfg cns sched w))"
  shows "enrolled P v (request_of (cns (is_request e))) (is_before e) (is_csr e) (is_cert e) \<and>
     authenticated verify cfg (fst (cns (is_request e)))"
proof -
  from schedule_inv [OF assms(2,1), of verify cns dir w a sched] assms(3) obtain peer where
    "issues_in P v (is_csr e) (is_before e) (is_cert e)" "admitted P verify cfg (cns (is_request e)) (is_csr e) peer"
    by (auto simp: ledger_inv_def)
  from admitted_enrolled [OF assms(2) this(2,1)] show ?thesis .
qed

lemma schedule_audit:
  assumes "built_config cfg" "backend_trusted P v"
    and "stored (certPath dir) (pl_world (run_schedule P v dir a verify cfg cns sched w)) n = Some d"
  shows "stored (certPath dir) w n = Some d \<or>
     (\<exists>e\<in>set (pl_issued (run_schedule P v dir a verify cfg cns sched w)). is_serial e = n \<and> Raw (is_cert e) = d)"
  using schedule_inv [OF assms(2,1), of verify cns dir w a sched] assms(3) by (simp add: ledger_inv_def opened_def)

lemma schedule_metadata:
  assumes "built_config cfg" "backend_trusted P v"
    and "stored (certMetaPath dir) (pl_world (run_schedule P v dir a verify cfg cns sched w)) n = Some j"
  shows "stored (certMetaPath dir) w n = Some j \<or>
     (\<exists>e\<in>set (pl_issued (run_schedule P v dir a verify cfg cns sched w)).
        is_serial e = n \<and> recorded P (request_of (cns (is_request e))) j)"
proof -
  from schedule_inv [OF assms(2,1), of verify cns dir w a sched] assms(3) have
    "stored (certMetaPath dir) w n = Some j \<or>
     (\<exists>e\<in>set (pl_issued (run_schedule P v dir a verify cfg cns sched w)). is_serial e = n \<and>
        (\<exists>peer m. admitted P verify cfg (cns (is_request e)) (is_csr e) peer \<and> describes cns (is_request e) peer m \<and>
           marshal_metadata (pf_zone P) m = Inr j))"
    by (simp add: ledger_inv_def opened_def)
  then show ?thesis using described_recorded by blast
qed

text \<open>Each connection issues once at most, and in its turn.\<close>

lemma schedule_once:
  assumes "backend_trusted P v" "built_config cfg"
  shows "distinct (map is_request (pl_issued (run_schedule P v dir a verify cfg cns sched w)))"
  using ledger_once [OF schedule_run [OF assms] opened_fresh, of dir] by (simp add: issues_once_def)

lemma schedule_turns: "is_request ` set (pl_issued (run_schedule P v dir a verify cfg cns sched w)) \<subseteq> set sched"
  by (induction sched rule: rev_induct)
    (auto simp: run_schedule_snoc opened_def turn_def issuance_of_def split: prod.splits stage.splits)

section \<open>Properties\<close>

text \<open>
  C7: Parallel requests refine serial ones: each history of the service in which connections are served one after
  the other is one schedule of the handlers cut into their calls, that in which every handler takes its seven turns in
  a row; it ends in the same state of the system.
\<close>

theorem service_is_schedule:
  assumes "service P v dir a verify cfg w tr u"
  shows "\<exists>cns. pl_world (run_schedule P v dir a verify cfg cns
       (concat (map (replicate 7) [0..<length tr])) w) = u \<and>
     (\<forall>i. i < length tr \<longrightarrow> cns i = (cn_client (rev tr ! i), cn_request (rev tr ! i)))"
  using assms
proof (induction rule: service.induct)
  case idle
  then show ?case by (simp add: run_schedule_snoc opened_def)
next
  case (answer tr u client r out u')
  let ?sched = "concat (map (replicate 7) [0..<length tr])" and ?n = "length tr"
  from answer.IH obtain cns where IH: "pl_world (run_schedule P v dir a verify cfg cns ?sched w) = u"
    "\<forall>i. i < ?n \<longrightarrow> cns i = (cn_client (rev tr ! i), cn_request (rev tr ! i))" by blast
  define cns' where "cns' = cns(?n := (client, r))"
  have sched: "?n \<notin> set ?sched" by (auto simp: set_replicate_conv_if)
  let ?h = "run_schedule P v dir a verify cfg cns' ?sched w"
  have "?h = run_schedule P v dir a verify cfg cns ?sched w" using sched by (intro schedule_cong) (auto simp: cns'_def)
  then have h: "pl_world ?h = u" "pl_stage ?h ?n = Arrived" using IH(1) schedule_arrived [OF sched] by simp_all
  have "(advance P v dir a verify cfg (cns' ?n) ^^ 7) (pl_stage ?h ?n, pl_world ?h) = (Answered out, u')"
    using handler_run [where cn = "(client, r)"] answer.hyps(2) h by (simp add: cns'_def)
  from turns_in_a_row [where cns = cns' and i = ?n, OF this]
  have "pl_world (run_schedule P v dir a verify cfg cns' (?sched @ replicate 7 ?n) w) = u'"
    by (simp add: run_schedule_def)
  moreover have "cns' i = (cn_client (rev (x # tr) ! i), cn_request (rev (x # tr) ! i))"
    if "i < length (x # tr)" "x = \<lparr> cn_client = client, cn_request = r, cn_before = u \<rparr>" for i x
    using that IH(2) by (auto simp: nth_append cns'_def)
  ultimately show ?case by (intro exI [of _ cns']) simp
qed

lemma service_is_schedule_witness:
  "\<exists>cns h. h = run_schedule demo_platform demo_value ''db'' [] demo_verifier demo_tls cns (replicate 7 0) one_world \<and>
     cns 0 = (demo_connection [dns_cert [''a'']], demo_request ''/.well-known/est/simpleenroll'') \<and>
     snd (serve_tls (est_env demo_platform) (est_instance demo_platform demo_value ''db'' []) demo_verifier demo_tls
       (demo_connection [dns_cert [''a'']]) (demo_request ''/.well-known/est/simpleenroll'') one_world) = pl_world h"
proof -
  obtain resp u where s: "service demo_platform demo_value ''db'' [] demo_verifier demo_tls one_world
       [\<lparr> cn_client = demo_connection [dns_cert [''a'']], cn_request = demo_request ''/.well-known/est/simpleenroll'',
          cn_before = one_world \<rparr>] u"
    "serve_tls (est_env demo_platform) (est_instance demo_platform demo_value ''db'' []) demo_verifier demo_tls
       (demo_connection [dns_cert [''a'']]) (demo_request ''/.well-known/est/simpleenroll'') one_world = (Inr resp, u)"
    using demo_service by blast
  from service_is_schedule [OF s(1)] s(2) show ?thesis by auto
qed



text \<open>
  C5: Parallel requests keep the store well: after any turns of any number of handlers, whatever fails on the way and
  wherever they stop, each stored certificate has its request stored with it, and each metadata file its certificate.
\<close>

theorem parallel_store_well_kept:
  assumes "built_config cfg" "backend_trusted P v" "well_kept dir w"
  shows "well_kept dir (pl_world (run_schedule P v dir a verify cfg cns sched w))"
proof -
  have "ledger_kept (ledger_of dir (opened w))" using assms(3) by (simp add: ledger_kept_def well_kept_def opened_def)
  with schedule_inv [OF assms(2,1), of verify cns dir w a sched] show ?thesis
    by (simp add: ledger_inv_def ledger_kept_def well_kept_def)
qed

lemma parallel_store_well_kept_witness:
  "well_kept ''db'' (pl_world (run_schedule demo_platform demo_value ''db'' [] demo_verifier demo_tls
     (\<lambda>_. (demo_connection [dns_cert [''a'']], demo_request ''/.well-known/est/simpleenroll''))
     [0, 1, 1, 0, 0, 1, 0, 0, 1, 0, 1] one_world))"
proof -
  have "well_kept ''db'' one_world" by (simp add: well_kept_def stored_def one_world_def empty_world_def dom_def)
  from parallel_store_well_kept [OF demo_built demo_trusted this] show ?thesis .
qed

text \<open>
  C6: In a store that parallel requests write, certificates lie beside their own requests: if the backend never gave a
  serial number twice, then after any turns a certificate that was not there at the start was issued to an
  authenticated client for a verified request, that very request is stored under its serial number, and its metadata
  file, as soon as there is one, names that client.
\<close>

theorem parallel_certificates_paired:
  assumes "built_config cfg" "backend_trusted P v" "h = run_schedule P v dir a verify cfg cns sched w"
    and "distinct (map (\<lambda>e. is_serial e) (pl_issued h))"
    and "stored (certPath dir) (pl_world h) n = Some d" "stored (certPath dir) w n = None"
  shows "\<exists>e\<in>set (pl_issued h). is_serial e = n \<and> Raw (is_cert e) = d \<and>
     enrolled P v (request_of (cns (is_request e))) (is_before e) (is_csr e) (is_cert e) \<and>
     authenticated verify cfg (fst (cns (is_request e))) \<and>
     stored (csrPath dir) (pl_world h) n = Some (csr_Raw (is_csr e)) \<and>
     (\<forall>j. stored (certMetaPath dir) (pl_world h) n = Some j \<longrightarrow> stored (certMetaPath dir) w n = None \<longrightarrow>
        recorded P (request_of (cns (is_request e))) j)"
proof -
  from schedule_audit [OF assms(1,2)] assms(3,5,6) obtain e where
    e: "e \<in> set (pl_issued h)" "is_serial e = n" "Raw (is_cert e) = d" by fastforce
  have sd: "serials_differ (ledger_of dir h)" using assms(4) by (simp add: serials_differ_def)
  have "paired (stored (certPath dir) w) (stored (csrPath dir) (pl_world h)) (stored (certPath dir) (pl_world h)) e"
    using schedule_pairs [OF assms(2,1)] sd e(1) unfolding assms(3) by (fastforce simp: pair_inv_def opened_def)
  then have "stored (csrPath dir) (pl_world h) n = Some (csr_Raw (is_csr e))"
    using assms(5,6) e(2) by (simp add: paired_def)
  moreover have "recorded P (request_of (cns (is_request e))) j"
    if "stored (certMetaPath dir) (pl_world h) n = Some j" "stored (certMetaPath dir) w n = None" for j
    using schedule_metadata [OF assms(1,2)] that assms(3) e(1,2) same_serial [OF sd] by fastforce
  ultimately show ?thesis using e schedule_issued [OF assms(1,2)] assms(3) by blast
qed

text \<open>One request alone, run through.\<close>

lemma demo_turns:
  "\<exists>cns h (c :: x509_cert). h = run_schedule demo_platform demo_value ''db'' [] demo_verifier demo_tls cns (replicate 7 0) one_world \<and>
     distinct (map (\<lambda>e. is_serial e) (pl_issued h)) \<and> stored (certPath ''db'') (pl_world h) (SerialNumber c) = Some (Raw c)"
proof -
  let ?r = "demo_request ''/.well-known/est/simpleenroll''" and ?k = "demo_connection [dns_cert [''a'']]"
  let ?cns = "\<lambda>_::nat. (?k, ?r)"
  let ?h = "run_schedule demo_platform demo_value ''db'' [] demo_verifier demo_tls ?cns (replicate 7 0) one_world"
  obtain resp u where s: "serve (est_env demo_platform) (est_instance demo_platform demo_value ''db'' []) ?r one_world = (resp, u)"
    "rs_Status resp = 200" using demo_serve by blast
  have "rq_Path ?r \<notin> {''/.well-known/est/cacerts'', ''/.well-known/est/csrattrs''}" by (simp add: demo_request_def)
  from serve_enrolled [OF demo_trusted s this] obtain c :: x509_cert where
    c: "stored (certPath ''db'') u = (stored (certPath ''db'') one_world)(SerialNumber c \<mapsto> Raw c)" by blast
  have "serve_tls (est_env demo_platform) (est_instance demo_platform demo_value ''db'' []) demo_verifier demo_tls
      (fst (?cns 0)) (snd (?cns 0)) one_world = (Inr resp, u)"
    using s(1) by (simp add: demo_tls_passes)
  from handler_run [OF this] have "(advance demo_platform demo_value ''db'' [] demo_verifier demo_tls (?cns 0) ^^ 7)
      (pl_stage (opened one_world) 0, pl_world (opened one_world)) = (Answered (Inr resp), u)"
    by (simp add: opened_def)
  from turns_in_a_row [where cns = ?cns and i = 0, OF this] have "pl_world ?h = u" by (simp add: run_schedule_def)
  moreover have "distinct (map (\<lambda>e. is_serial e) (pl_issued ?h))"
  proof -
    have "set (map is_request (pl_issued ?h)) \<subseteq> {0}"
      using schedule_turns [of demo_platform demo_value "''db''" "[]" demo_verifier demo_tls ?cns "replicate 7 0" one_world] by simp
    then have "card (set (map is_request (pl_issued ?h))) \<le> card {0 :: nat}" by (intro card_mono) simp_all
    then have "length (pl_issued ?h) \<le> 1"
      using distinct_card [OF schedule_once [OF demo_trusted demo_built,
        where verify = demo_verifier and dir = "''db''" and a = "[]" and cns = ?cns and sched = "replicate 7 0" and w = one_world]]
      by simp
    then show ?thesis by (cases "pl_issued ?h") auto
  qed
  ultimately show ?thesis using c by (intro exI [of _ ?cns] exI [of _ ?h] exI [of _ c]) simp
qed

lemma parallel_certificates_paired_witness:
  "\<exists>cns h e. h = run_schedule demo_platform demo_value ''db'' [] demo_verifier demo_tls cns (replicate 7 0) one_world \<and>
     e \<in> set (pl_issued h) \<and> stored (certPath ''db'') (pl_world h) (is_serial e) = Some (Raw (is_cert e)) \<and>
     stored (csrPath ''db'') (pl_world h) (is_serial e) = Some (csr_Raw (is_csr e))"
proof -
  obtain cns h and c :: x509_cert where h: "h = run_schedule demo_platform demo_value ''db'' [] demo_verifier demo_tls cns (replicate 7 0) one_world"
    "distinct (map (\<lambda>e. is_serial e) (pl_issued h))"
    "stored (certPath ''db'') (pl_world h) (SerialNumber c) = Some (Raw c)" using demo_turns by blast
  have "stored (certPath ''db'') one_world (SerialNumber c) = None" by (simp add: stored_def one_world_def empty_world_def)
  from parallel_certificates_paired [OF demo_built demo_trusted h this] obtain e where e: "e \<in> set (pl_issued h)"
    "is_serial e = SerialNumber c" "Raw (is_cert e) = Raw c"
    "stored (csrPath ''db'') (pl_world h) (SerialNumber c) = Some (csr_Raw (is_csr e))" by blast
  with h(1,3) show ?thesis by (intro exI [of _ cns] exI [of _ h] exI [of _ e]) simp
qed

end
