(* ===== verification/Csrattrs.thy ===== *)
theory Csrattrs
  imports DER_Reference
begin

text \<open>
  \<open>internal/csrattrs\<close>: the CsrAttrs response of \<open>GET /csrattrs\<close> (RFC 7030, RFC 8951, RFC 9908).
  \<open>Encode\<close> takes the builder operations of \<open>cryptobyte\<close> as an argument; \<open>encoding/asn1\<close>, which
  \<open>marshalExtensions\<close> calls, is standard library and is written out. The lemmas specify what is
  written by a syntax tree in the notation of the RFCs and show that the encoder produces the DER of
  that tree or reports an error, never anything else.
\<close>

section \<open>The options\<close>

text \<open>A \<open>*T\<close> is an option; the \<open>int\<close> of the modulus size is kept at its 64 bits.\<close>

record key_algorithm =
  ka_OID :: string
  ka_CurveOID :: string
  ka_RSAModulusBits :: "64 word"

record extension_req =
  ext_OID :: string
  ext_Critical :: bool
  ext_ValueHex :: string

record rdn_template =
  rdn_OID :: string
  rdn_Value :: "string option"

record template_extension =
  te_OID :: string
  te_Critical :: bool
  te_ValueHex :: "string option"

record csr_template =
  tm_Subject :: "rdn_template list"
  tm_KeyType :: "key_algorithm option"
  tm_Extensions :: "template_extension list"

record csr_options =
  opt_ChallengePassword :: bool
  opt_KeyAlgorithm :: "key_algorithm option"
  opt_RequiredExtensions :: "extension_req list"
  opt_ExtraOIDs :: "string list"
  opt_Template :: "csr_template option"

definition oidChallengePassword :: string where
  "oidChallengePassword = ''1.2.840.113549.1.9.7''"

definition oidExtensionReq :: string where
  "oidExtensionReq = ''1.2.840.113549.1.9.14''"

definition oidCertificationRequestInfoTemplate :: string where
  "oidCertificationRequestInfoTemplate = ''1.2.840.113549.1.9.16.2.61''"

definition oidExtensionReqTemplate :: string where
  "oidExtensionReqTemplate = ''1.2.840.113549.1.9.16.2.62''"

section \<open>The code\<close>

text \<open>A function that returns only an \<open>error\<close> is an option of an error; \<open>None\<close> is nil.\<close>

definition Validate :: "csr_options \<Rightarrow> go_error option" where
  "Validate opts =
     (if (case opt_KeyAlgorithm opts of
            None \<Rightarrow> False | Some ka \<Rightarrow> ka_CurveOID ka \<noteq> [] \<and> ka_RSAModulusBits ka \<noteq> 0)
      then Some (ErrNew ''csrattrs: key_algorithm cannot set both a curve OID and an RSA modulus size'' [])
      else
        (case opt_Template opts of
           None \<Rightarrow> None
         | Some t \<Rightarrow>
             (case tm_KeyType t of
                None \<Rightarrow> None
              | Some kt \<Rightarrow>
                  if ka_RSAModulusBits kt \<noteq> 0
                  then Some (ErrNew ''csrattrs: template key type does not support an RSA modulus size (use the top-level key_algorithm instead)'' [])
                  else if ka_CurveOID kt = []
                  then Some (ErrNew ''csrattrs: template key type requires a curve OID'' [])
                  else None)))"

definition isEmpty :: "csr_options \<Rightarrow> bool" where
  "isEmpty opts =
     (\<not> opt_ChallengePassword opts \<and>
      opt_KeyAlgorithm opts = None \<and>
      length (opt_RequiredExtensions opts) = 0 \<and>
      length (opt_ExtraOIDs opts) = 0 \<and>
      opt_Template opts = None)"

definition parseOID :: "string \<Rightarrow> oid result" where
  "parseOID dotted =
     rmap_index 0 (\<lambda>i f. wrap_err ''invalid OID %q: %w'' [FStr dotted] (Atoi f))
       (split_on (CHR ''.'') dotted)"

definition addOID :: "'b cb_builder \<Rightarrow> string \<Rightarrow> 'b \<Rightarrow> 'b" where
  "addOID B dotted b =
     (case parseOID dotted of
        Inl err \<Rightarrow> cb_SetError B err b
      | Inr ar \<Rightarrow> cb_AddASN1ObjectIdentifier B ar b)"

text \<open>A nil continuation is \<open>None\<close>.\<close>

definition addAttribute :: "'b cb_builder \<Rightarrow> string \<Rightarrow> ('b \<Rightarrow> 'b) option \<Rightarrow> 'b \<Rightarrow> 'b" where
  "addAttribute B oidStr addValue =
     cb_AddASN1 B tag_SEQUENCE (\<lambda>b.
       cb_AddASN1 B tag_SET (\<lambda>b. case addValue of None \<Rightarrow> b | Some f \<Rightarrow> f b) (addOID B oidStr b))"

definition addKeyAlgorithmAttribute :: "'b cb_builder \<Rightarrow> key_algorithm \<Rightarrow> 'b \<Rightarrow> 'b" where
  "addKeyAlgorithmAttribute B ka =
     (if ka_CurveOID ka \<noteq> [] then addAttribute B (ka_OID ka) (Some (addOID B (ka_CurveOID ka)))
      else if ka_RSAModulusBits ka \<noteq> 0
      then addAttribute B (ka_OID ka) (Some (cb_AddASN1Int64 B (sint (ka_RSAModulusBits ka))))
      else addAttribute B (ka_OID ka) None)"

text \<open>
  \<open>asn1.Marshal\<close> of a \<open>[]pkix.Extension\<close>: a SEQUENCE OF \<open>SEQUENCE { Id, Critical, Value }\<close>, where
  \<open>Critical\<close> is optional and left out when false. Its own check of an identifier looks at the first
  two arcs only.
\<close>

record pkix_extension =
  px_Id :: oid
  px_Critical :: bool
  px_Value :: bytes

definition asn1_oid_ok :: "oid \<Rightarrow> bool" where
  "asn1_oid_ok ar =
     (case ar of a # b # r \<Rightarrow> \<not> (a > 2 \<or> (a < 2 \<and> b \<ge> 40)) | _ \<Rightarrow> False)"

definition extension_tree :: "pkix_extension \<Rightarrow> asn1" where
  "extension_tree e =
     Constr tag_SEQUENCE
       ([Oid (px_Id e)] @ (if px_Critical e then [Prim tag_BOOLEAN [0xFF]] else []) @
        [Prim tag_OCTET_STRING (px_Value e)])"

definition asn1_Marshal :: "pkix_extension list \<Rightarrow> bytes result" where
  "asn1_Marshal exts =
     (if list_all (\<lambda>e. asn1_oid_ok (px_Id e)) exts
      then Inr (der (Constr tag_SEQUENCE (map extension_tree exts)))
      else Inl (ErrNew ''asn1: structure error: invalid object identifier'' []))"

definition marshalExtension :: "nat \<Rightarrow> extension_req \<Rightarrow> pkix_extension result" where
  "marshalExtension i e =
     rbind (wrap_err ''extension %d: %w'' [FInt (int i)] (parseOID (ext_OID e))) (\<lambda>ar.
     rbind (wrap_err ''extension %d: invalid value_hex: %w'' [FInt (int i)]
              (hex_DecodeString (ext_ValueHex e))) (\<lambda>val.
     Inr \<lparr> px_Id = ar, px_Critical = ext_Critical e, px_Value = val \<rparr>))"

definition marshalExtensions :: "extension_req list \<Rightarrow> bytes result" where
  "marshalExtensions exts = rbind (rmap_index 0 marshalExtension exts) asn1_Marshal"

definition addExtensionReqAttribute :: "'b cb_builder \<Rightarrow> extension_req list \<Rightarrow> 'b \<Rightarrow> 'b" where
  "addExtensionReqAttribute B exts b =
     (case marshalExtensions exts of
        Inl err \<Rightarrow> cb_SetError B (ErrWrap ''required_extensions: %w'' [] err) b
      | Inr extsDER \<Rightarrow> addAttribute B oidExtensionReq (Some (cb_AddBytes B extsDER)) b)"

definition addExtensionTemplate :: "'b cb_builder \<Rightarrow> template_extension \<Rightarrow> 'b \<Rightarrow> 'b" where
  "addExtensionTemplate B e =
     cb_AddASN1 B tag_SEQUENCE (\<lambda>b.
       let b = addOID B (te_OID e) b;
           b = (if te_Critical e then cb_AddASN1Boolean B True b else b)
       in case te_ValueHex e of
            None \<Rightarrow> b
          | Some h \<Rightarrow>
              (case hex_DecodeString h of
                 Inl err \<Rightarrow> cb_SetError B (ErrWrap ''invalid value_hex: %w'' [] err) b
               | Inr val \<Rightarrow> cb_AddASN1OctetString B val b))"

definition addExtensionReqTemplateAttribute ::
  "'b cb_builder \<Rightarrow> template_extension list \<Rightarrow> 'b \<Rightarrow> 'b" where
  "addExtensionReqTemplateAttribute B exts =
     addAttribute B oidExtensionReqTemplate (Some (
       cb_AddASN1 B tag_SEQUENCE (\<lambda>b. fold (addExtensionTemplate B) exts b)))"

definition addSubjectTemplate :: "'b cb_builder \<Rightarrow> rdn_template list \<Rightarrow> 'b \<Rightarrow> 'b" where
  "addSubjectTemplate B rdns =
     cb_AddASN1 B tag_SEQUENCE (\<lambda>b.
       fold (\<lambda>rdn.
         cb_AddASN1 B tag_SET (\<lambda>b.
           cb_AddASN1 B tag_SEQUENCE (\<lambda>b.
             let b = addOID B (rdn_OID rdn) b
             in case rdn_Value rdn of
                  None \<Rightarrow> b
                | Some v \<Rightarrow> cb_AddASN1 B tag_UTF8String (\<lambda>b. cb_AddBytes B (bytes_of v) b) b) b))
         rdns b)"

definition addSubjectPKInfoTemplate :: "'b cb_builder \<Rightarrow> key_algorithm \<Rightarrow> 'b \<Rightarrow> 'b" where
  "addSubjectPKInfoTemplate B ka =
     cb_AddASN1 B (context_constructed 0) (\<lambda>b.
       cb_AddASN1 B tag_SEQUENCE (\<lambda>b.
         let b = addOID B (ka_OID ka) b
         in if ka_CurveOID ka \<noteq> [] then addOID B (ka_CurveOID ka) b else b) b)"

definition addTemplateAttributes :: "'b cb_builder \<Rightarrow> template_extension list \<Rightarrow> 'b \<Rightarrow> 'b" where
  "addTemplateAttributes B exts =
     cb_AddASN1 B (context_constructed 1) (\<lambda>b.
       if length exts = 0 then b
       else
         let allPresent = list_all (\<lambda>e. te_ValueHex e \<noteq> None) exts
         in if allPresent
            then addExtensionReqAttribute B
                   (map (\<lambda>e. \<lparr> ext_OID = te_OID e, ext_Critical = te_Critical e,
                               ext_ValueHex = the (te_ValueHex e) \<rparr>) exts) b
            else addExtensionReqTemplateAttribute B exts b)"

definition addTemplate :: "'b cb_builder \<Rightarrow> csr_template \<Rightarrow> 'b \<Rightarrow> 'b" where
  "addTemplate B t =
     cb_AddASN1 B tag_SEQUENCE (\<lambda>b.
       let b = cb_AddASN1Int64 B 0 b; \<comment> \<open>version\<close>
           b = (if length (tm_Subject t) > 0 then addSubjectTemplate B (tm_Subject t) b else b);
           b = (case tm_KeyType t of None \<Rightarrow> b | Some kt \<Rightarrow> addSubjectPKInfoTemplate B kt b)
       in addTemplateAttributes B (tm_Extensions t) b)"

text \<open>The result's byte slice is an option: the code distinguishes nil from an encoding.\<close>

definition Encode :: "'b cb_builder \<Rightarrow> csr_options \<Rightarrow> bytes option result" where
  "Encode B opts =
     (case Validate opts of
        Some err \<Rightarrow> Inl err
      | None \<Rightarrow>
     if isEmpty opts then Inr None
     else
       (let b =
          cb_AddASN1 B tag_SEQUENCE (\<lambda>b. \<comment> \<open>CsrAttrs\<close>
            let b = (if opt_ChallengePassword opts then addOID B oidChallengePassword b else b);
                b = (case opt_KeyAlgorithm opts of
                       None \<Rightarrow> b | Some ka \<Rightarrow> addKeyAlgorithmAttribute B ka b);
                b = (if length (opt_RequiredExtensions opts) > 0
                     then addExtensionReqAttribute B (opt_RequiredExtensions opts) b else b);
                b = fold (addOID B) (opt_ExtraOIDs opts) b
            in case opt_Template opts of
                 None \<Rightarrow> b
               | Some t \<Rightarrow> addAttribute B oidCertificationRequestInfoTemplate (Some (addTemplate B t)) b)
          (cb_new B)
        in rmap Some (wrap_err ''csrattrs: %w'' [] (cb_Bytes B b))))"

section \<open>The response as the RFCs describe it\<close>

text \<open>
  The syntax tree of each part; \<open>None\<close> where a string of the options is no identifier or no
  hexadecimal value. \<open>seq_of\<close> is an element made of the given parts, some of which may be missing.
\<close>

definition seq_of :: "byte \<Rightarrow> asn1 list option list \<Rightarrow> asn1 option" where
  "seq_of t parts = map_option (Constr t) (concat_opt parts)"

definition elem :: "asn1 option \<Rightarrow> asn1 list option" where
  "elem x = map_option (\<lambda>t. [t]) x"

definition oid_tree :: "string \<Rightarrow> asn1 option" where
  "oid_tree s = map_option Oid (ok_option (parseOID s))"

definition attribute_tree :: "string \<Rightarrow> asn1 list option \<Rightarrow> asn1 option" where
  "attribute_tree s vals = seq_of tag_SEQUENCE [elem (oid_tree s), elem (seq_of tag_SET [vals])]"

definition key_algorithm_tree :: "key_algorithm \<Rightarrow> asn1 option" where
  "key_algorithm_tree ka =
     attribute_tree (ka_OID ka)
       (if ka_CurveOID ka \<noteq> [] then elem (oid_tree (ka_CurveOID ka))
        else if ka_RSAModulusBits ka \<noteq> 0
        then Some [Prim tag_INTEGER (int_octets (sint (ka_RSAModulusBits ka)))]
        else Some [])"

text \<open>Extensions that \<open>encoding/asn1\<close> has encoded are copied into the message.\<close>

definition extension_req_tree :: "extension_req list \<Rightarrow> asn1 option" where
  "extension_req_tree exts =
     Option.bind (ok_option (marshalExtensions exts))
       (\<lambda>d. attribute_tree oidExtensionReq (Some [Copied d]))"

definition extension_template_tree :: "template_extension \<Rightarrow> asn1 option" where
  "extension_template_tree e =
     seq_of tag_SEQUENCE
       [elem (oid_tree (te_OID e)),
        Some (if te_Critical e then [Prim tag_BOOLEAN [0xFF]] else []),
        (case te_ValueHex e of
           None \<Rightarrow> Some []
         | Some h \<Rightarrow> elem (map_option (Prim tag_OCTET_STRING) (ok_option (hex_DecodeString h))))]"

definition rdn_tree :: "rdn_template \<Rightarrow> asn1 option" where
  "rdn_tree r =
     seq_of tag_SET [elem (seq_of tag_SEQUENCE
       [elem (oid_tree (rdn_OID r)),
        Some (case rdn_Value r of None \<Rightarrow> [] | Some v \<Rightarrow> [Prim tag_UTF8String (bytes_of v)])])]"

text \<open>
  RFC 9908, section 3.4: one extension attribute, whose type says whether every value is given.
\<close>

definition template_attributes_tree :: "template_extension list \<Rightarrow> asn1 option" where
  "template_attributes_tree exts =
     seq_of (context_constructed 1)
       [if exts = [] then Some []
        else if \<forall>e\<in>set exts. te_ValueHex e \<noteq> None
        then elem (extension_req_tree (map (\<lambda>e. \<lparr> ext_OID = te_OID e, ext_Critical = te_Critical e,
                                                   ext_ValueHex = the (te_ValueHex e) \<rparr>) exts))
        else elem (attribute_tree oidExtensionReqTemplate
               (elem (seq_of tag_SEQUENCE (map (\<lambda>e. elem (extension_template_tree e)) exts))))]"

definition template_tree :: "csr_template \<Rightarrow> asn1 option" where
  "template_tree t =
     seq_of tag_SEQUENCE
       [Some [Prim tag_INTEGER [0]],
        (if tm_Subject t = [] then Some []
         else elem (seq_of tag_SEQUENCE (map (\<lambda>r. elem (rdn_tree r)) (tm_Subject t)))),
        (case tm_KeyType t of
           None \<Rightarrow> Some []
         | Some kt \<Rightarrow> elem (seq_of (context_constructed 0) [elem (seq_of tag_SEQUENCE
             [elem (oid_tree (ka_OID kt)),
              (if ka_CurveOID kt = [] then Some [] else elem (oid_tree (ka_CurveOID kt)))])])),
        elem (template_attributes_tree (tm_Extensions t))]"

definition csr_attrs_tree :: "csr_options \<Rightarrow> asn1 option" where
  "csr_attrs_tree opts =
     seq_of tag_SEQUENCE
       ([if opt_ChallengePassword opts then elem (oid_tree oidChallengePassword) else Some [],
         (case opt_KeyAlgorithm opts of None \<Rightarrow> Some [] | Some ka \<Rightarrow> elem (key_algorithm_tree ka)),
         (if opt_RequiredExtensions opts = [] then Some []
          else elem (extension_req_tree (opt_RequiredExtensions opts)))] @
        map (\<lambda>s. elem (oid_tree s)) (opt_ExtraOIDs opts) @
        [case opt_Template opts of
           None \<Rightarrow> Some []
         | Some t \<Rightarrow> elem (attribute_tree oidCertificationRequestInfoTemplate (elem (template_tree t)))])"

section \<open>What the code writes\<close>

lemma csrattrs_low_tags [simp]:
  "low_tag tag_SEQUENCE" "low_tag tag_SET" "low_tag tag_UTF8String"
  "low_tag (context_constructed 0)" "low_tag (context_constructed 1)"
  by (simp_all add: low_tag_def context_constructed_def)

text \<open>The body of the message, named for the proofs.\<close>

definition encode_body :: "'b cb_builder \<Rightarrow> csr_options \<Rightarrow> 'b \<Rightarrow> 'b" where
  "encode_body B opts =
     cb_AddASN1 B tag_SEQUENCE (\<lambda>b.
       let b = (if opt_ChallengePassword opts then addOID B oidChallengePassword b else b);
           b = (case opt_KeyAlgorithm opts of
                  None \<Rightarrow> b | Some ka \<Rightarrow> addKeyAlgorithmAttribute B ka b);
           b = (if length (opt_RequiredExtensions opts) > 0
                then addExtensionReqAttribute B (opt_RequiredExtensions opts) b else b);
           b = fold (addOID B) (opt_ExtraOIDs opts) b
       in case opt_Template opts of
            None \<Rightarrow> b
          | Some t \<Rightarrow> addAttribute B oidCertificationRequestInfoTemplate (Some (addTemplate B t)) b)"

lemma concat_opt_one: "concat_opt [x] = x"
  by (cases x) auto

context cryptobyte_builder
begin

text \<open>
  As \<open>writes_tree\<close>, for a tree that exists only if the strings of the options are well formed: where
  there is no tree, the builder ends in an error.
\<close>

abbreviation writes_opt :: "('b \<Rightarrow> 'b) \<Rightarrow> asn1 option \<Rightarrow> bool" where
  "writes_opt g x \<equiv> writes g (Option.bind x (enc enc_oid))"

abbreviation writes_opts :: "('b \<Rightarrow> 'b) \<Rightarrow> asn1 list option \<Rightarrow> bool" where
  "writes_opts g xs \<equiv> writes g (Option.bind xs (\<lambda>ts. concat_opt (map (enc enc_oid) ts)))"

lemma writes_opts_Nil: "writes_opts (\<lambda>b. b) (Some [])"
  by (simp add: writes_id)

lemma writes_opts_elem: "writes_opt g x \<Longrightarrow> writes_opts g (elem x)"
  by (cases x) (simp_all add: elem_def concat_opt_one [of "enc _ _", simplified])

lemma writes_opts_append:
  assumes "writes_opts g (concat_opt xs)" "writes_opts h (concat_opt ys)"
  shows "writes_opts (\<lambda>b. h (g b)) (concat_opt (xs @ ys))"
proof -
  have "Option.bind (concat_opt (xs @ ys)) (\<lambda>ts. concat_opt (map (enc enc_oid) ts)) =
     Option.bind (Option.bind (concat_opt xs) (\<lambda>ts. concat_opt (map (enc enc_oid) ts)))
       (\<lambda>u. Option.bind (Option.bind (concat_opt ys) (\<lambda>ts. concat_opt (map (enc enc_oid) ts)))
         (\<lambda>v. Some (u @ v)))"
    by (cases "concat_opt xs"; cases "concat_opt ys")
      (auto simp: concat_opt_append split: bind_splits)
  with writes_seq [OF assms] show ?thesis by simp
qed

lemma writes_opts_snoc:
  "writes_opts g (concat_opt xs) \<Longrightarrow> writes_opts h y \<Longrightarrow>
     writes_opts (\<lambda>b. h (g b)) (concat_opt (xs @ [y]))"
  by (rule writes_opts_append) (simp_all only: concat_opt_one)

lemma writes_opts_two:
  "writes_opts g x \<Longrightarrow> writes_opts h y \<Longrightarrow> writes_opts (\<lambda>b. h (g b)) (concat_opt [x, y])"
  using writes_opts_snoc [of g "[x]" h y] by (simp only: concat_opt_one append.simps)

lemma writes_opts_fold:
  "(\<And>a. a \<in> set as \<Longrightarrow> writes_opt (f a) (t a)) \<Longrightarrow>
     writes_opts (fold f as) (concat_opt (map (\<lambda>a. elem (t a)) as))"
proof (induction as)
  case Nil
  then show ?case using writes_opts_Nil by (simp add: id_def)
next
  case (Cons a as)
  then have "writes_opts (\<lambda>b. fold f as (f a b)) (concat_opt ([elem (t a)] @ map (\<lambda>a. elem (t a)) as))"
    by (intro writes_opts_append) (simp_all only: concat_opt_one writes_opts_elem list.set_intros)
  then show ?case by (simp only: fold.simps comp_def list.map append.simps)
qed

lemma writes_opt_seq_of:
  "low_tag t \<Longrightarrow> writes_opts f (concat_opt parts) \<Longrightarrow> writes_opt (cb_AddASN1 B t f) (seq_of t parts)"
  using writes_AddASN1 [of t f "Option.bind (concat_opt parts) (\<lambda>ts. concat_opt (map (enc enc_oid) ts))"]
  by (cases "concat_opt parts") (simp_all add: seq_of_def)

lemma writes_opt_seq_of1:
  "low_tag t \<Longrightarrow> writes_opts f x \<Longrightarrow> writes_opt (cb_AddASN1 B t f) (seq_of t [x])"
  by (rule writes_opt_seq_of) (simp_all only: concat_opt_one)

text \<open>The functions of the package, in the order of the file.\<close>

lemma addOID_writes: "writes_opt (addOID B s) (oid_tree s)"
proof (cases "parseOID s")
  case (Inl e)
  then have "addOID B s = cb_SetError B e" "oid_tree s = None"
    by (simp_all add: addOID_def oid_tree_def fun_eq_iff)
  then show ?thesis using writes_SetError by simp
next
  case (Inr ar)
  then have "addOID B s = cb_AddASN1ObjectIdentifier B ar" "oid_tree s = Some (Oid ar)"
    by (simp_all add: addOID_def oid_tree_def fun_eq_iff)
  then show ?thesis using writes_tree_oid by simp
qed

lemma addAttribute_writes:
  "writes_opts f vals \<Longrightarrow> writes_opt (addAttribute B s (Some f)) (attribute_tree s vals)"
  "writes_opt (addAttribute B s None) (attribute_tree s (Some []))"
  unfolding addAttribute_def attribute_tree_def option.case
  by (intro writes_opt_seq_of writes_opts_two writes_opts_elem addOID_writes writes_opt_seq_of1
      csrattrs_low_tags writes_opts_Nil; assumption)+

lemma int64_writes:
  "- (2 ^ 63) \<le> v \<Longrightarrow> v < 2 ^ 63 \<Longrightarrow>
     writes_opts (cb_AddASN1Int64 B v) (Some [Prim tag_INTEGER (int_octets v)])"
  using writes_tree_int64 [of v] by (simp only: writes_tree_single bind.bind_lunit)

lemma addKeyAlgorithmAttribute_writes:
  "writes_opt (addKeyAlgorithmAttribute B ka) (key_algorithm_tree ka)"
proof -
  have "- (2 ^ 63) \<le> sint (ka_RSAModulusBits ka)" "sint (ka_RSAModulusBits ka) < 2 ^ 63"
    using sint_ge [of "ka_RSAModulusBits ka"] sint_lt [of "ka_RSAModulusBits ka"] by simp_all
  from int64_writes [OF this] show ?thesis
    unfolding addKeyAlgorithmAttribute_def key_algorithm_tree_def
    using addAttribute_writes addOID_writes writes_opts_elem by simp
qed

lemma addExtensionReqAttribute_writes:
  "writes_opt (addExtensionReqAttribute B exts) (extension_req_tree exts)"
proof (cases "marshalExtensions exts")
  case (Inl e)
  then have "addExtensionReqAttribute B exts = cb_SetError B (ErrWrap ''required_extensions: %w'' [] e)"
    "extension_req_tree exts = None"
    by (simp_all add: addExtensionReqAttribute_def extension_req_tree_def fun_eq_iff)
  then show ?thesis using writes_SetError by simp
next
  case (Inr d)
  then have "addExtensionReqAttribute B exts = addAttribute B oidExtensionReq (Some (cb_AddBytes B d))"
    "extension_req_tree exts = attribute_tree oidExtensionReq (Some [Copied d])"
    by (simp_all add: addExtensionReqAttribute_def extension_req_tree_def fun_eq_iff)
  moreover have "writes_opts (cb_AddBytes B d) (Some [Copied d])"
    using writes_AddBytes by simp
  ultimately show ?thesis using addAttribute_writes(1) by metis
qed

lemma single_writes: "writes_tree g t \<Longrightarrow> writes_opts g (Some [t])"
  by (simp only: writes_tree_single bind.bind_lunit)

lemma boolean_writes:
  "writes_opts (\<lambda>b. if c then cb_AddASN1Boolean B True b else b)
     (Some (if c then [Prim tag_BOOLEAN [0xFF]] else []))"
  using single_writes [OF writes_tree_boolean [of True]] writes_opts_Nil by (cases c) simp_all

lemma writes_opts_if:
  "(c \<Longrightarrow> writes_opts g x) \<Longrightarrow> (\<not> c \<Longrightarrow> writes_opts h y) \<Longrightarrow>
     writes_opts (\<lambda>b. if c then g b else h b) (if c then x else y)"
  by simp

lemma addExtensionTemplate_writes:
  "writes_opt (addExtensionTemplate B e) (extension_template_tree e)"
proof -
  define g where "g = (\<lambda>b. case te_ValueHex e of None \<Rightarrow> b
      | Some h \<Rightarrow> (case hex_DecodeString h of
            Inl err \<Rightarrow> cb_SetError B (ErrWrap ''invalid value_hex: %w'' [] err) b
          | Inr val \<Rightarrow> cb_AddASN1OctetString B val b))"
  have g: "writes_opts g (case te_ValueHex e of None \<Rightarrow> Some []
      | Some h \<Rightarrow> elem (map_option (Prim tag_OCTET_STRING) (ok_option (hex_DecodeString h))))"
  proof (cases "te_ValueHex e")
    case None
    then show ?thesis using writes_opts_Nil by (simp add: g_def)
  next
    case (Some h)
    then show ?thesis
      using writes_SetError single_writes [OF writes_tree_octets]
      by (cases "hex_DecodeString h") (simp_all add: g_def elem_def)
  qed
  have "writes_opts (\<lambda>b. g (if te_Critical e then cb_AddASN1Boolean B True (addOID B (te_OID e) b)
        else addOID B (te_OID e) b))
     (concat_opt ([elem (oid_tree (te_OID e)), Some (if te_Critical e then [Prim tag_BOOLEAN [0xFF]] else [])] @
       [case te_ValueHex e of None \<Rightarrow> Some []
      | Some h \<Rightarrow> elem (map_option (Prim tag_OCTET_STRING) (ok_option (hex_DecodeString h)))]))"
    using writes_opts_snoc [OF writes_opts_two [OF writes_opts_elem [OF addOID_writes]
        boolean_writes] g] .
  from writes_opt_seq_of [OF csrattrs_low_tags(1) this] show ?thesis
    by (simp only: addExtensionTemplate_def extension_template_tree_def Let_def g_def append.simps)
qed

lemma addExtensionReqTemplateAttribute_writes:
  "writes_opt (addExtensionReqTemplateAttribute B exts)
     (attribute_tree oidExtensionReqTemplate
        (elem (seq_of tag_SEQUENCE (map (\<lambda>e. elem (extension_template_tree e)) exts))))"
  unfolding addExtensionReqTemplateAttribute_def
  by (intro addAttribute_writes(1) writes_opts_elem writes_opt_seq_of csrattrs_low_tags
      writes_opts_fold addExtensionTemplate_writes)

lemma addSubjectTemplate_writes:
  "writes_opt (addSubjectTemplate B rdns) (seq_of tag_SEQUENCE (map (\<lambda>r. elem (rdn_tree r)) rdns))"
proof -
  have v: "writes_opts (\<lambda>b. case rdn_Value r of None \<Rightarrow> b
        | Some v \<Rightarrow> cb_AddASN1 B tag_UTF8String (\<lambda>b. cb_AddBytes B (bytes_of v) b) b)
      (Some (case rdn_Value r of None \<Rightarrow> [] | Some v \<Rightarrow> [Prim tag_UTF8String (bytes_of v)]))" for r
    using single_writes [OF writes_tree_prim [OF csrattrs_low_tags(3)]] writes_opts_Nil
    by (cases "rdn_Value r") simp_all
  note r = writes_opt_seq_of [OF csrattrs_low_tags(1) writes_opts_two [OF writes_opts_elem [OF addOID_writes] v]]
  note s = writes_opt_seq_of1 [OF csrattrs_low_tags(2) writes_opts_elem [OF r]]
  show ?thesis
    unfolding addSubjectTemplate_def rdn_tree_def Let_def
    by (rule writes_opt_seq_of [OF csrattrs_low_tags(1) writes_opts_fold [OF s]])
qed

lemma addSubjectPKInfoTemplate_writes:
  "writes_opt (addSubjectPKInfoTemplate B kt)
     (seq_of (context_constructed 0) [elem (seq_of tag_SEQUENCE
        [elem (oid_tree (ka_OID kt)),
         (if ka_CurveOID kt = [] then Some [] else elem (oid_tree (ka_CurveOID kt)))])])"
proof -
  have "writes_opts (\<lambda>b. if ka_CurveOID kt \<noteq> [] then addOID B (ka_CurveOID kt) b else b)
     (if ka_CurveOID kt = [] then Some [] else elem (oid_tree (ka_CurveOID kt)))"
    using writes_opts_elem [OF addOID_writes] writes_opts_Nil by simp
  then show ?thesis
    unfolding addSubjectPKInfoTemplate_def Let_def
    by (intro writes_opt_seq_of1 writes_opt_seq_of csrattrs_low_tags writes_opts_elem
        writes_opts_two addOID_writes)
qed

lemma addTemplateAttributes_writes:
  "writes_opt (addTemplateAttributes B exts) (template_attributes_tree exts)"
  unfolding addTemplateAttributes_def template_attributes_tree_def
proof (rule writes_opt_seq_of1 [OF csrattrs_low_tags(5)], unfold Let_def)
  note w = writes_opts_elem [OF addExtensionReqAttribute_writes]
    writes_opts_elem [OF addExtensionReqTemplateAttribute_writes] writes_opts_Nil
  have "list_all (\<lambda>e. te_ValueHex e \<noteq> None) exts \<longleftrightarrow> (\<forall>e\<in>set exts. te_ValueHex e \<noteq> None)"
    by (simp add: list_all_iff)
  moreover have "writes_opts
    (\<lambda>b. if exts = [] then b
         else if \<forall>e\<in>set exts. te_ValueHex e \<noteq> None
         then addExtensionReqAttribute B
                (map (\<lambda>e. \<lparr> ext_OID = te_OID e, ext_Critical = te_Critical e,
                            ext_ValueHex = the (te_ValueHex e) \<rparr>) exts) b
         else addExtensionReqTemplateAttribute B exts b)
    (if exts = [] then Some []
     else if \<forall>e\<in>set exts. te_ValueHex e \<noteq> None
     then elem (extension_req_tree (map (\<lambda>e. \<lparr> ext_OID = te_OID e, ext_Critical = te_Critical e,
                                                ext_ValueHex = the (te_ValueHex e) \<rparr>) exts))
     else elem (attribute_tree oidExtensionReqTemplate
            (elem (seq_of tag_SEQUENCE (map (\<lambda>e. elem (extension_template_tree e)) exts)))))"
    by (intro writes_opts_if w)
  ultimately show "writes_opts
    (\<lambda>b. if length exts = 0 then b
         else if list_all (\<lambda>e. te_ValueHex e \<noteq> None) exts
         then addExtensionReqAttribute B
                (map (\<lambda>e. \<lparr> ext_OID = te_OID e, ext_Critical = te_Critical e,
                            ext_ValueHex = the (te_ValueHex e) \<rparr>) exts) b
         else addExtensionReqTemplateAttribute B exts b)
    (if exts = [] then Some []
     else if \<forall>e\<in>set exts. te_ValueHex e \<noteq> None
     then elem (extension_req_tree (map (\<lambda>e. \<lparr> ext_OID = te_OID e, ext_Critical = te_Critical e,
                                                ext_ValueHex = the (te_ValueHex e) \<rparr>) exts))
     else elem (attribute_tree oidExtensionReqTemplate
            (elem (seq_of tag_SEQUENCE (map (\<lambda>e. elem (extension_template_tree e)) exts)))))"
    by (simp only: length_0_conv)
qed

lemma addTemplate_writes: "writes_opt (addTemplate B t) (template_tree t)"
proof -
  have "int_octets 0 = [0]" by (simp add: int_octets.simps)
  with int64_writes [of 0] have v: "writes_opts (cb_AddASN1Int64 B 0) (Some [Prim tag_INTEGER [0]])"
    by simp
  have s: "writes_opts (\<lambda>b. if length (tm_Subject t) > 0 then addSubjectTemplate B (tm_Subject t) b else b)
     (if tm_Subject t = [] then Some []
      else elem (seq_of tag_SEQUENCE (map (\<lambda>r. elem (rdn_tree r)) (tm_Subject t))))"
    using writes_opts_elem [OF addSubjectTemplate_writes] writes_opts_Nil by simp
  have k: "writes_opts (\<lambda>b. case tm_KeyType t of None \<Rightarrow> b | Some kt \<Rightarrow> addSubjectPKInfoTemplate B kt b)
     (case tm_KeyType t of
           None \<Rightarrow> Some []
         | Some kt \<Rightarrow> elem (seq_of (context_constructed 0) [elem (seq_of tag_SEQUENCE
             [elem (oid_tree (ka_OID kt)),
              (if ka_CurveOID kt = [] then Some [] else elem (oid_tree (ka_CurveOID kt)))])]))"
    using writes_opts_elem [OF addSubjectPKInfoTemplate_writes] writes_opts_Nil
    by (cases "tm_KeyType t") simp_all
  note all = writes_opts_snoc [OF writes_opts_snoc [OF writes_opts_two [OF v s] k]
      writes_opts_elem [OF addTemplateAttributes_writes [of "tm_Extensions t"]]]
  from writes_opt_seq_of [OF csrattrs_low_tags(1) all] show ?thesis
    by (simp only: addTemplate_def template_tree_def Let_def append.simps)
qed

text \<open>The whole message.\<close>

lemma Encode_cases:
  "Encode B opts =
     (case Validate opts of
        Some err \<Rightarrow> Inl err
      | None \<Rightarrow> if isEmpty opts then Inr None
                else rmap Some (wrap_err ''csrattrs: %w'' [] (cb_Bytes B (encode_body B opts (cb_new B)))))"
  by (simp add: Encode_def encode_body_def Let_def split: option.split)

lemma encode_body_writes: "writes_opt (encode_body B opts) (csr_attrs_tree opts)"
proof -
  have p: "writes_opts (\<lambda>b. if opt_ChallengePassword opts then addOID B oidChallengePassword b else b)
     (if opt_ChallengePassword opts then elem (oid_tree oidChallengePassword) else Some [])"
    using writes_opts_elem [OF addOID_writes] writes_opts_Nil by simp
  have k: "writes_opts (\<lambda>b. case opt_KeyAlgorithm opts of None \<Rightarrow> b | Some ka \<Rightarrow> addKeyAlgorithmAttribute B ka b)
     (case opt_KeyAlgorithm opts of None \<Rightarrow> Some [] | Some ka \<Rightarrow> elem (key_algorithm_tree ka))"
    using writes_opts_elem [OF addKeyAlgorithmAttribute_writes] writes_opts_Nil
    by (cases "opt_KeyAlgorithm opts") simp_all
  have x: "writes_opts (\<lambda>b. if length (opt_RequiredExtensions opts) > 0
         then addExtensionReqAttribute B (opt_RequiredExtensions opts) b else b)
     (if opt_RequiredExtensions opts = [] then Some []
      else elem (extension_req_tree (opt_RequiredExtensions opts)))"
    using writes_opts_elem [OF addExtensionReqAttribute_writes] writes_opts_Nil by simp
  have t: "writes_opts (\<lambda>b. case opt_Template opts of None \<Rightarrow> b
       | Some t \<Rightarrow> addAttribute B oidCertificationRequestInfoTemplate (Some (addTemplate B t)) b)
     (case opt_Template opts of None \<Rightarrow> Some []
      | Some t \<Rightarrow> elem (attribute_tree oidCertificationRequestInfoTemplate (elem (template_tree t))))"
    using writes_opts_elem [OF addAttribute_writes(1) [OF writes_opts_elem [OF addTemplate_writes]]]
      writes_opts_Nil
    by (cases "opt_Template opts") simp_all
  note all = writes_opts_append [OF writes_opts_snoc [OF writes_opts_two [OF p k] x]
      writes_opts_snoc [OF writes_opts_fold [of "opt_ExtraOIDs opts" "addOID B" oid_tree, OF addOID_writes] t]]
  from writes_opt_seq_of [OF csrattrs_low_tags(1) all] show ?thesis
    by (simp only: encode_body_def csr_attrs_tree_def Let_def append.simps append_assoc)
qed

lemma encode_tree:
  assumes "Validate opts = None" "\<not> isEmpty opts" and t: "csr_attrs_tree opts = Some t"
    and len: "length (der t) \<le> max_content"
    and ok: "\<forall>ar\<in>set (tree_oids t). oid_in_range ar \<and> oid_valid ar"
  shows "Encode B opts = Inr (Some (der t))"
  using assms message_ok [of "encode_body B opts" t] encode_body_writes [of opts]
  by (simp add: Encode_cases)

lemma encode_bad:
  assumes "Validate opts = None" "\<not> isEmpty opts"
    and bad: "case csr_attrs_tree opts of None \<Rightarrow> True
              | Some t \<Rightarrow> \<exists>ar\<in>set (tree_oids t). \<not> oid_valid ar"
  shows "\<exists>e. Encode B opts = Inl e"
proof -
  have "\<exists>e. cb_Bytes B (encode_body B opts (cb_new B)) = Inl e"
  proof (cases "csr_attrs_tree opts")
    case None
    with encode_body_writes [of opts] have "writes (encode_body B opts) None" by simp
    then have "ok_option (cb_Bytes B (encode_body B opts (cb_new B))) = None"
      by (rule writes_message)
    then show ?thesis by (cases "cb_Bytes B (encode_body B opts (cb_new B))") auto
  next
    case (Some t)
    with bad encode_body_writes [of opts] show ?thesis
      by (auto intro: message_bad [of "encode_body B opts" t])
  qed
  with assms(1,2) show ?thesis by (auto simp: Encode_cases)
qed

lemma encode_sound:
  assumes "Encode B opts = Inr (Some d)"
    and rng: "\<forall>t. csr_attrs_tree opts = Some t \<longrightarrow> (\<forall>ar\<in>set (tree_oids t). oid_in_range ar)"
  shows "\<exists>t. csr_attrs_tree opts = Some t \<and> d = der t"
proof -
  from assms(1) have n: "Validate opts = None" "\<not> isEmpty opts"
    and d: "cb_Bytes B (encode_body B opts (cb_new B)) = Inr d"
    by (auto simp: Encode_cases split: option.splits if_splits)
  with encode_bad [OF n] assms(1) obtain t where t: "csr_attrs_tree opts = Some t"
    by (cases "csr_attrs_tree opts") auto
  with encode_body_writes [of opts] rng d message_tree [of "encode_body B opts" t d] show ?thesis
    by auto
qed

end

section \<open>Properties\<close>

text \<open>
  The options of two of RFC 9908's examples: section 5.4 (RSA 4096 with SHA-256), and a template
  that leaves the subject's common name and a critical key usage value to the client.
\<close>

definition rfc9908_5_4 :: csr_options where
  "rfc9908_5_4 = \<lparr> opt_ChallengePassword = True,
     opt_KeyAlgorithm = Some \<lparr> ka_OID = ''1.2.840.113549.1.1.1'', ka_CurveOID = [],
                               ka_RSAModulusBits = 4096 \<rparr>,
     opt_RequiredExtensions = [], opt_ExtraOIDs = [''1.2.840.113549.1.1.11''],
     opt_Template = None \<rparr>"

definition template_example :: csr_options where
  "template_example = \<lparr> opt_ChallengePassword = False, opt_KeyAlgorithm = None,
     opt_RequiredExtensions = [], opt_ExtraOIDs = [],
     opt_Template = Some \<lparr>
       tm_Subject = [\<lparr> rdn_OID = ''2.5.4.3'', rdn_Value = None \<rparr>],
       tm_KeyType = Some \<lparr> ka_OID = ''1.2.840.10045.2.1'', ka_CurveOID = ''1.3.132.0.34'',
                           ka_RSAModulusBits = 0 \<rparr>,
       tm_Extensions = [\<lparr> te_OID = ''2.5.29.15'', te_Critical = True, te_ValueHex = None \<rparr>] \<rparr> \<rparr>"

lemma rfc9908_5_4_tree:
  "csr_attrs_tree rfc9908_5_4 = Some (Constr tag_SEQUENCE
     [Oid [1, 2, 840, 113549, 1, 9, 7],
      Constr tag_SEQUENCE [Oid [1, 2, 840, 113549, 1, 1, 1],
                           Constr tag_SET [Prim tag_INTEGER [0x10, 0]]],
      Oid [1, 2, 840, 113549, 1, 1, 11]])"
  by code_simp

lemma rfc9908_5_4_der:
  "der (Constr tag_SEQUENCE
     [Oid [1, 2, 840, 113549, 1, 9, 7],
      Constr tag_SEQUENCE [Oid [1, 2, 840, 113549, 1, 1, 1],
                           Constr tag_SET [Prim tag_INTEGER [0x10, 0]]],
      Oid [1, 2, 840, 113549, 1, 1, 11]]) =
   [0x30, 0x29, 0x06, 0x09, 0x2A, 0x86, 0x48, 0x86, 0xF7, 0x0D, 0x01, 0x09, 0x07, 0x30, 0x11, 0x06,
    0x09, 0x2A, 0x86, 0x48, 0x86, 0xF7, 0x0D, 0x01, 0x01, 0x01, 0x31, 0x04, 0x02, 0x02, 0x10, 0x00,
    0x06, 0x09, 0x2A, 0x86, 0x48, 0x86, 0xF7, 0x0D, 0x01, 0x01, 0x0B]"
  by (simp add: der_oid_content_def base128_def radix.simps wrap64_id der_tlv_def der_length_def Let_def)

lemma template_example_tree:
  "csr_attrs_tree template_example = Some (Constr tag_SEQUENCE
     [Constr tag_SEQUENCE
       [Oid [1, 2, 840, 113549, 1, 9, 16, 2, 61],
        Constr tag_SET
          [Constr tag_SEQUENCE
            [Prim tag_INTEGER [0],
             Constr tag_SEQUENCE [Constr tag_SET [Constr tag_SEQUENCE [Oid [2, 5, 4, 3]]]],
             Constr (context_constructed 0)
               [Constr tag_SEQUENCE [Oid [1, 2, 840, 10045, 2, 1], Oid [1, 3, 132, 0, 34]]],
             Constr (context_constructed 1)
               [Constr tag_SEQUENCE
                 [Oid [1, 2, 840, 113549, 1, 9, 16, 2, 62],
                  Constr tag_SET [Constr tag_SEQUENCE [Constr tag_SEQUENCE
                    [Oid [2, 5, 29, 15], Prim tag_BOOLEAN [0xFF]]]]]]]]]])"
  by code_simp



text \<open>
  Whatever \<open>Encode\<close> returns is the DER of the prescribed CsrAttrs value: when it returns bytes, the
  options have a tree and the bytes are its encoding (identifiers whose first two arcs overflow 64
  bits apart). So no partly written or misnested message ever leaves the encoder.
\<close>

lemma csrattrs_sound:
  assumes "cryptobyte_builder B enc_oid" and "Encode B opts = Inr (Some d)"
    and "\<forall>t. csr_attrs_tree opts = Some t \<longrightarrow> (\<forall>ar\<in>set (tree_oids t). oid_in_range ar)"
  shows "\<exists>t. csr_attrs_tree opts = Some t \<and> d = der t"
  using assms by (rule cryptobyte_builder.encode_sound)

text \<open>
  A malformed option is never encoded: when a dotted string is no list of decimal arcs, a value is
  no hexadecimal string, or an identifier written by the builder is invalid under X.660, \<open>Encode\<close>
  returns an error.
\<close>

lemma csrattrs_rejects:
  assumes "cryptobyte_builder B enc_oid" and "Validate opts = None" and "\<not> isEmpty opts"
    and "case csr_attrs_tree opts of None \<Rightarrow> True
         | Some t \<Rightarrow> \<exists>ar\<in>set (tree_oids t). \<not> oid_valid ar"
  shows "\<exists>e. Encode B opts = Inl e"
  using assms by (rule cryptobyte_builder.encode_bad)

text \<open>
  \<open>Encode\<close> returns the nil slice, which the handler answers with 204, exactly when no option is
  set: no challenge password, key algorithm, extension, extra identifier or template.
\<close>

lemma csrattrs_nil_iff_empty:
  "Encode B opts = Inr None \<longleftrightarrow>
     \<not> opt_ChallengePassword opts \<and> opt_KeyAlgorithm opts = None \<and>
     opt_RequiredExtensions opts = [] \<and> opt_ExtraOIDs opts = [] \<and> opt_Template opts = None"
proof -
  have "rmap Some r \<noteq> Inr None" for r :: "bytes result" by (cases r) auto
  moreover have "isEmpty opts \<Longrightarrow> Validate opts = None" by (simp add: isEmpty_def Validate_def)
  ultimately have "Encode B opts = Inr None \<longleftrightarrow> isEmpty opts"
    by (auto simp: Encode_def Let_def split: option.splits)
  then show ?thesis by (simp add: isEmpty_def)
qed


end
