(* ===== verification/Estd.thy ===== *)
theory Estd
  imports Parallel Config Csrattrs
begin

text \<open>
  \<open>cmd/estd\<close>: the command. It loads and validates the configuration, builds the chosen CA backend, the store,
  the TLS configuration and the CSR attributes, serves, and shuts down. What \<open>ListenAndServeTLS\<close> and
  \<open>Shutdown\<close> return, and which of the two the \<open>select\<close> gets first, is an argument. The lemmas show that a
  server that starts is the one the configuration describes, that starting never panics and writes no file,
  and when the command exits with which status.
\<close>

section \<open>The CSR attributes of the configuration\<close>

definition key_algorithm_of :: "key_algorithm_config \<Rightarrow> key_algorithm" where
  "key_algorithm_of k = \<lparr> ka_OID = kc_OID k, ka_CurveOID = kc_CurveOID k,
     ka_RSAModulusBits = word_of_int (kc_RSAModulusBits k) \<rparr>"

definition csrAttrsOptions :: "csr_attrs_config option \<Rightarrow> csr_options" where
  "csrAttrsOptions cfg =
     (case cfg of
        None \<Rightarrow> \<lparr> opt_ChallengePassword = False, opt_KeyAlgorithm = None, opt_RequiredExtensions = [],
                  opt_ExtraOIDs = [], opt_Template = None \<rparr>
      | Some a \<Rightarrow> \<lparr>
          opt_ChallengePassword = ac_ChallengePassword a,
          opt_KeyAlgorithm = map_option key_algorithm_of (ac_KeyAlgorithm a),
          opt_RequiredExtensions = map (\<lambda>e. \<lparr> ext_OID = xc_OID e, ext_Critical = xc_Critical e,
             ext_ValueHex = xc_ValueHex e \<rparr>) (ac_RequiredExtensions a),
          opt_ExtraOIDs = ac_ExtraOIDs a,
          opt_Template = map_option (\<lambda>t. \<lparr>
             tm_Subject = map (\<lambda>r. \<lparr> rdn_OID = rc_OID r, rdn_Value = rc_Value r \<rparr>) (tc_Subject t),
             tm_KeyType = map_option key_algorithm_of (tc_KeyType t),
             tm_Extensions = map (\<lambda>e. \<lparr> te_OID = tx_OID e, te_Critical = tx_Critical e,
                te_ValueHex = tx_ValueHex e \<rparr>) (tc_Extensions t) \<rparr>) (ac_Template a) \<rparr>)"

text \<open>The section that options come from.\<close>

definition key_section :: "key_algorithm \<Rightarrow> key_algorithm_config" where
  "key_section k = \<lparr> kc_OID = ka_OID k, kc_CurveOID = ka_CurveOID k, kc_RSAModulusBits = sint (ka_RSAModulusBits k) \<rparr>"

definition attrs_section :: "csr_options \<Rightarrow> csr_attrs_config" where
  "attrs_section opts = \<lparr>
     ac_ChallengePassword = opt_ChallengePassword opts,
     ac_KeyAlgorithm = map_option key_section (opt_KeyAlgorithm opts),
     ac_RequiredExtensions = map (\<lambda>e. \<lparr> xc_OID = ext_OID e, xc_Critical = ext_Critical e, xc_ValueHex = ext_ValueHex e \<rparr>)
       (opt_RequiredExtensions opts),
     ac_ExtraOIDs = opt_ExtraOIDs opts,
     ac_Template = map_option (\<lambda>t. \<lparr>
        tc_Subject = map (\<lambda>r. \<lparr> rc_OID = rdn_OID r, rc_Value = rdn_Value r \<rparr>) (tm_Subject t),
        tc_KeyType = map_option key_section (tm_KeyType t),
        tc_Extensions = map (\<lambda>e. \<lparr> tx_OID = te_OID e, tx_Critical = te_Critical e, tx_ValueHex = te_ValueHex e \<rparr>)
          (tm_Extensions t) \<rparr>) (opt_Template opts) \<rparr>"

lemma key_section_of: "int64 (kc_RSAModulusBits k) \<Longrightarrow> key_section (key_algorithm_of k) = k"
  by (simp add: key_section_def key_algorithm_of_def int64_def signed_of_int signed_take_bit_int_eq_self)

lemma key_section_fits: "key_fits k \<Longrightarrow> map_option key_section (map_option key_algorithm_of k) = k"
  by (cases k) (simp_all add: key_fits_def key_section_of)

lemma record_eta:
  "\<lparr> xc_OID = xc_OID x, xc_Critical = xc_Critical x, xc_ValueHex = xc_ValueHex x \<rparr> = x"
  "\<lparr> rc_OID = rc_OID r, rc_Value = rc_Value r \<rparr> = r"
  "\<lparr> tx_OID = tx_OID y, tx_Critical = tx_Critical y, tx_ValueHex = tx_ValueHex y \<rparr> = y"
  "\<lparr> tc_Subject = tc_Subject t, tc_KeyType = tc_KeyType t, tc_Extensions = tc_Extensions t \<rparr> = t"
  "\<lparr> ac_ChallengePassword = ac_ChallengePassword a, ac_KeyAlgorithm = ac_KeyAlgorithm a,
     ac_RequiredExtensions = ac_RequiredExtensions a, ac_ExtraOIDs = ac_ExtraOIDs a, ac_Template = ac_Template a \<rparr> = a"
  by simp_all

lemma attrs_section_of:
  assumes "key_fits (ac_KeyAlgorithm a)" "case ac_Template a of None \<Rightarrow> True | Some t \<Rightarrow> key_fits (tc_KeyType t)"
  shows "attrs_section (csrAttrsOptions (Some a)) = a"
  using assms(2) key_section_fits [OF assms(1)] record_eta(5) [of a]
  by (cases "ac_Template a")
    (simp_all add: attrs_section_def csrAttrsOptions_def comp_def key_section_fits record_eta del: option.map_comp)

lemma options_empty: "isEmpty (csrAttrsOptions cfg) \<longleftrightarrow> cfg \<in> {None, Some zero_csr_attrs}"
proof (cases cfg)
  case (Some a)
  then show ?thesis by (cases a) (auto simp: csrAttrsOptions_def isEmpty_def zero_csr_attrs_def)
qed (simp add: csrAttrsOptions_def isEmpty_def)

section \<open>Starting\<close>

text \<open>A dereference of a nil pointer panics.\<close>

datatype 'a outcome = Panicked | Returned 'a

record ('c, 'w) http_server =
  hs_Addr :: string
  hs_Handler :: "'w server"
  hs_TLSConfig :: "'c tls_config"

text \<open>What the command uses of its process: the order of \<open>range\<close> and \<open>exec.LookPath\<close>.\<close>

record process =
  pr_map_order :: map_order
  pr_LookPath :: "string \<Rightarrow> go_error option"

definition select_backend ::
  "('k, 'c, 'b, 'z os_world_scheme) platform \<Rightarrow> config \<Rightarrow> (('k, 'c) ca_value result outcome, 'z) os_call" where
  "select_backend P cfg w =
     (if cf_CABackend cfg = ''openssl'' then
        (case LoadCACertificate (pf_x509 P) (cf_CACertFile cfg) w of
           (Inl err, w) \<Rightarrow> (Returned (Inl err), w)
         | (Inr caCert, w) \<Rightarrow>
             (case cf_OpenSSLCA cfg of
                None \<Rightarrow> (Panicked, w)
              | Some oc \<Rightarrow> (Returned (Inr (OpenSSLCA (NewOpenSSLCA (os_OpenSSLPath oc) (os_ConfigFile oc) caCert
                                (os_ExtensionsSection oc)))), w)))
      else if cf_CABackend cfg = ''ejbca'' then
        (case cf_EJBCACA cfg of
           None \<Rightarrow> (Panicked, w)
         | Some e \<Rightarrow>
             (case NewEJBCA (pf_x509 P) (pf_ejbca P) \<lparr>
                     eo_BaseURL = jc_BaseURL e, eo_ClientCertFile = jc_ClientCertFile e,
                     eo_ClientKeyFile = jc_ClientKeyFile e, eo_ServerCAFile = jc_ServerCAFile e,
                     eo_CAName = jc_CAName e, eo_CASubjectDN = jc_CASubjectDN e,
                     eo_CertificateProfileName = jc_CertificateProfileName e,
                     eo_EndEntityProfileName = jc_EndEntityProfileName e \<rparr> w of
                (r, w) \<Rightarrow> (Returned (rmap EJBCA r), w)))
      else
        (case LoadCAKeyPair (pf_x509 P) (cf_CACertFile cfg) (cf_CAKeyFile cfg) w of
           (Inl err, w) \<Rightarrow> (Returned (Inl err), w)
         | (Inr (caCert, caKey), w) \<Rightarrow> (Returned (Inr (LocalCA caCert caKey (cf_CertValidity cfg))), w)))"

text \<open>From the backend on; the nil slice of \<open>Encode\<close> is the empty one.\<close>

definition build_server ::
  "('k, 'c, 'b, 'z os_world_scheme) platform \<Rightarrow> config \<Rightarrow> ('k, 'c) ca_value
     \<Rightarrow> (('c, 'z os_world_scheme) http_server result, 'z) os_call" where
  "build_server P cfg caBackend w =
     (case NewFileStore (cf_StoreDir cfg) w of
        (Inl err, w) \<Rightarrow> (Inl err, w)
      | (Inr fileStore, w) \<Rightarrow>
     (case BuildTLSConfig (ej_LoadX509KeyPair (pf_ejbca P)) (x_ParseCertificate (pf_x509 P))
             (cf_ServerCertFile cfg) (cf_ServerKeyFile cfg) (cf_ClientCAFiles cfg) w of
        (Inl err, w) \<Rightarrow> (Inl err, w)
      | (Inr tlsConfig, w) \<Rightarrow>
     (case Encode (pf_builder P) (csrAttrsOptions (cf_CSRAttrs cfg)) of
        Inl err \<Rightarrow> (Inl err, w)
      | Inr csrAttrsDER \<Rightarrow>
          (Inr \<lparr> hs_Addr = cf_ListenAddr cfg,
                 hs_Handler = est_instance P caBackend fileStore (case csrAttrsDER of None \<Rightarrow> [] | Some d \<Rightarrow> d),
                 hs_TLSConfig = tlsConfig \<rparr>, w))))"

definition startup ::
  "process \<Rightarrow> ('k, 'c, 'b, 'z os_world_scheme) platform \<Rightarrow> string
     \<Rightarrow> (('c, 'z os_world_scheme) http_server result outcome, 'z) os_call" where
  "startup E P configPath w =
     (case Load configPath w of
        (Inl err, w) \<Rightarrow> (Returned (Inl err), w)
      | (Inr cfg, w) \<Rightarrow>
     (case Config.Validate (pr_map_order E) (pr_LookPath E) cfg w of
        ((Some err, _), w) \<Rightarrow> (Returned (Inl err), w)
      | ((None, cfg), w) \<Rightarrow>
     (case select_backend P cfg w of
        (Panicked, w) \<Rightarrow> (Panicked, w)
      | (Returned (Inl err), w) \<Rightarrow> (Returned (Inl err), w)
      | (Returned (Inr caBackend), w) \<Rightarrow>
          (case build_server P cfg caBackend w of (r, w) \<Rightarrow> (Returned r, w)))))"

section \<open>Running\<close>

text \<open>
  The \<open>select\<close>: the server came back with an error (it never returns nil, but the code asks), or a signal came first
  and \<open>Shutdown\<close> returned.
\<close>

datatype ending = Served "go_error option" | Signalled "go_error option"

definition ErrServerClosed :: go_error where
  "ErrServerClosed = ErrVar ''http.ErrServerClosed''"

definition serve_until :: "ending \<Rightarrow> go_error option" where
  "serve_until e =
     (case e of
        Served err \<Rightarrow> if err \<noteq> None \<and> err \<noteq> Some ErrServerClosed then err else None
      | Signalled shutdownErr \<Rightarrow> if shutdownErr \<noteq> None then shutdownErr else None)"

definition run ::
  "process \<Rightarrow> ('k, 'c, 'b, 'z os_world_scheme) platform
     \<Rightarrow> (('c, 'z os_world_scheme) http_server \<Rightarrow> 'z os_world_scheme \<Rightarrow> ending \<times> 'z os_world_scheme)
     \<Rightarrow> string \<Rightarrow> (go_error option outcome, 'z) os_call" where
  "run E P live configPath w =
     (case startup E P configPath w of
        (Panicked, w) \<Rightarrow> (Panicked, w)
      | (Returned (Inl err), w) \<Rightarrow> (Returned (Some err), w)
      | (Returned (Inr httpServer), w) \<Rightarrow>
          (case live httpServer w of (e, w) \<Rightarrow> (Returned (serve_until e), w)))"

text \<open>The exit status; a panic exits with 2.\<close>

definition estd_main ::
  "process \<Rightarrow> ('k, 'c, 'b, 'z os_world_scheme) platform
     \<Rightarrow> (('c, 'z os_world_scheme) http_server \<Rightarrow> 'z os_world_scheme \<Rightarrow> ending \<times> 'z os_world_scheme)
     \<Rightarrow> string \<Rightarrow> (nat, 'z) os_call" where
  "estd_main E P live configPath w =
     (if configPath = [] then (1, w)
      else (case run E P live configPath w of
              (Panicked, w) \<Rightarrow> (2, w)
            | (Returned (Some err), w) \<Rightarrow> (1, w)
            | (Returned None, w) \<Rightarrow> (0, w)))"

section \<open>What starting does to the system\<close>

lemma os_ReadFile_same: "os_ReadFile p w = (r, w') \<Longrightarrow> w_files w' = w_files w \<and> w_dirs w' = w_dirs w"
  by (auto simp: os_ReadFile_def os_tick_def split: option.splits)

lemma Load_same: "Load p w = (r, w') \<Longrightarrow> w_files w' = w_files w \<and> w_dirs w' = w_dirs w"
  by (auto simp: Load_def split: prod.splits sum.splits dest!: os_ReadFile_same)

lemma LoadCACertificate_same: "LoadCACertificate X p w = (r, w') \<Longrightarrow> w_files w' = w_files w \<and> w_dirs w' = w_dirs w"
  by (auto simp: LoadCACertificate_def split: prod.splits sum.splits option.splits dest!: os_ReadFile_same)

lemma LoadCAKeyPair_same: "LoadCAKeyPair X p q w = (r, w') \<Longrightarrow> w_files w' = w_files w \<and> w_dirs w' = w_dirs w"
  by (auto simp: LoadCAKeyPair_def split: prod.splits sum.splits option.splits dest!: os_ReadFile_same)

lemma NewEJBCA_same:
  "loads_only (ej_LoadX509KeyPair E) \<Longrightarrow> NewEJBCA X E opts w = (r, w') \<Longrightarrow> w_files w' = w_files w \<and> w_dirs w' = w_dirs w"
  unfolding loads_only_def
  by (auto simp: NewEJBCA_def Let_def split: prod.splits sum.splits if_splits dest!: os_ReadFile_same)

lemma NewFileStore_same:
  "NewFileStore d w = (r, w') \<Longrightarrow> w_files w' = w_files w \<and> (\<forall>x. r = Inr x \<longrightarrow> x = d)"
  by (auto simp: NewFileStore_def os_MkdirAll_def os_tick_def Let_def split: prod.splits sum.splits option.splits if_splits)

lemma select_backend_same:
  "loads_only (ej_LoadX509KeyPair (pf_ejbca P)) \<Longrightarrow> select_backend P cfg w = (r, w') \<Longrightarrow>
     w_files w' = w_files w \<and> w_dirs w' = w_dirs w"
  by (auto simp: select_backend_def split: prod.splits sum.splits option.splits if_splits
      dest!: LoadCACertificate_same LoadCAKeyPair_same NewEJBCA_same)

lemma build_server_same:
  "loads_only (ej_LoadX509KeyPair (pf_ejbca P)) \<Longrightarrow> build_server P cfg v w = (r, w') \<Longrightarrow> w_files w' = w_files w"
  by (auto simp: build_server_def split: prod.splits sum.splits
      dest!: NewFileStore_same BuildTLSConfig_files)

section \<open>The server the configuration describes\<close>

definition configured :: "config \<Rightarrow> ('k, 'c) ca_value \<Rightarrow> bool" where
  "configured cfg v \<longleftrightarrow>
     (case v of
        LocalCA _ _ validity \<Rightarrow> cf_CABackend cfg = ''local'' \<and> validity = cf_CertValidity cfg \<and> 0 < validity
      | OpenSSLCA c \<Rightarrow> cf_CABackend cfg = ''openssl'' \<and>
          (\<exists>oc cert. cf_OpenSSLCA cfg = Some oc \<and>
             c = NewOpenSSLCA (os_OpenSSLPath oc) (os_ConfigFile oc) cert (os_ExtensionsSection oc) \<and>
             os_OpenSSLPath oc \<noteq> [] \<and> os_ConfigFile oc \<noteq> [] \<and> os_ExtensionsSection oc \<noteq> [])
      | EJBCA c \<Rightarrow> cf_CABackend cfg = ''ejbca'' \<and>
          (\<exists>e. cf_EJBCACA cfg = Some e \<and> ec_baseURL c = TrimRight (jc_BaseURL e) (CHR ''/'') \<and>
             ec_caName c = jc_CAName e \<and> ec_caSubjectDN c = jc_CASubjectDN e \<and>
             ec_certificateProfileName c = jc_CertificateProfileName e \<and>
             ec_endEntityProfileName c = jc_EndEntityProfileName e))"

lemma select_configured:
  assumes "complete cfg" "with_defaults cfg = cfg" "select_backend P cfg w = (Returned (Inr v), w')"
  shows "configured cfg v"
proof -
  have defaults: "os_OpenSSLPath oc \<noteq> [] \<and> os_ExtensionsSection oc \<noteq> []"
    if "cf_CABackend cfg = ''openssl''" "cf_OpenSSLCA cfg = Some oc" for oc
  proof -
    have "cf_OpenSSLCA (with_defaults cfg) = Some (oc \<lparr>
        os_OpenSSLPath := if os_OpenSSLPath oc = [] then ''openssl'' else os_OpenSSLPath oc,
        os_ExtensionsSection := if os_ExtensionsSection oc = [] then ''est_extensions'' else os_ExtensionsSection oc \<rparr>)"
      using that by (simp add: with_defaults_def default_backend_def)
    then have "oc = oc \<lparr>
        os_OpenSSLPath := if os_OpenSSLPath oc = [] then ''openssl'' else os_OpenSSLPath oc,
        os_ExtensionsSection := if os_ExtensionsSection oc = [] then ''est_extensions'' else os_ExtensionsSection oc \<rparr>"
      using that(2) assms(2) by simp
    then show ?thesis by (cases oc) (auto split: if_splits)
  qed
  consider "cf_CABackend cfg = ''local''" | "cf_CABackend cfg = ''openssl''" | "cf_CABackend cfg = ''ejbca''"
    using assms(1) unfolding complete_def backend_complete_def by blast
  then show ?thesis
  proof cases
    case 1
    then show ?thesis using assms(1,3) unfolding complete_def
      by (auto simp: select_backend_def configured_def split: prod.splits sum.splits)
  next
    case 2
    then show ?thesis using assms(1,3) defaults [OF 2] unfolding complete_def backend_complete_def
      by (auto simp: select_backend_def configured_def split: prod.splits sum.splits)
  next
    case 3
    then show ?thesis using assms(3)
      by (auto simp: select_backend_def configured_def NewEJBCA_def Let_def rmap_def
          split: prod.splits sum.splits option.splits if_splits)
  qed
qed

lemma startup_steps:
  assumes "map_range (pr_map_order E)" "startup E P path w = (Returned (Inr srv), w')"
  shows "\<exists>c w1 w2 v w3. Load path w = (Inr c, w1) \<and>
     complete (with_defaults c) \<and> tool_found (pr_LookPath E) (with_defaults c) \<and>
     list_all (path_present w) (named_files (with_defaults c)) \<and>
     w_files w2 = w_files w \<and> w_dirs w2 = w_dirs w \<and>
     select_backend P (with_defaults c) w2 = (Returned (Inr v), w3) \<and>
     build_server P (with_defaults c) v w3 = (Inr srv, w')"
proof -
  from assms(2) obtain c w1 cfg w2 v w3 where s: "Load path w = (Inr c, w1)"
    "Config.Validate (pr_map_order E) (pr_LookPath E) c w1 = ((None, cfg), w2)"
    "select_backend P cfg w2 = (Returned (Inr v), w3)" "build_server P cfg v w3 = (Inr srv, w')"
    by (auto simp: startup_def split: prod.splits sum.splits option.splits outcome.splits)
  from s(2) [unfolded Validate_success [OF assms(1)]]
  have v: "cfg = with_defaults c" "complete cfg" "tool_found (pr_LookPath E) cfg" "stat_all (named_files cfg) w1 = (None, w2)"
    by blast+
  have l: "w_files w1 = w_files w" "w_dirs w1 = w_dirs w" using Load_same [OF s(1)] by simp_all
  from stat_all_cases [OF v(4)] l have "list_all (path_present w) (named_files cfg)"
    "w_files w2 = w_files w" "w_dirs w2 = w_dirs w"
    by (auto simp: list_all_iff path_present_def)
  with s v show ?thesis by blast
qed

lemma build_server_parts:
  assumes "loads_only (ej_LoadX509KeyPair (pf_ejbca P))" "build_server P cfg v w = (Inr srv, w')"
  shows "\<exists>attrs. Encode (pf_builder P) (csrAttrsOptions (cf_CSRAttrs cfg)) = Inr attrs \<and>
     hs_Handler srv = est_instance P v (cf_StoreDir cfg) (case attrs of None \<Rightarrow> [] | Some d \<Rightarrow> d) \<and>
     hs_Addr srv = cf_ListenAddr cfg \<and> built_config (hs_TLSConfig srv) \<and>
     tls_ClientCAs (hs_TLSConfig srv) =
       concat (map (\<lambda>f. certs_from_PEM (x_ParseCertificate (pf_x509 P)) (f_data (the (w_files w f)))) (cf_ClientCAFiles cfg)) \<and>
     w_files w' = w_files w"
proof -
  let ?load = "ej_LoadX509KeyPair (pf_ejbca P)" and ?parse = "x_ParseCertificate (pf_x509 P)"
  from assms(2) obtain d w1 t attrs where b: "NewFileStore (cf_StoreDir cfg) w = (Inr d, w1)"
    "BuildTLSConfig ?load ?parse (cf_ServerCertFile cfg) (cf_ServerKeyFile cfg) (cf_ClientCAFiles cfg) w1 = (Inr t, w')"
    "Encode (pf_builder P) (csrAttrsOptions (cf_CSRAttrs cfg)) = Inr attrs"
    "srv = \<lparr> hs_Addr = cf_ListenAddr cfg,
             hs_Handler = est_instance P v d (case attrs of None \<Rightarrow> [] | Some d \<Rightarrow> d), hs_TLSConfig = t \<rparr>"
    by (auto simp: build_server_def split: prod.splits sum.splits)
  from b(2) obtain cert w2 pool where t: "?load (cf_ServerCertFile cfg) (cf_ServerKeyFile cfg) w1 = (Inr cert, w2)"
    "append_client_cas ?parse [] (cf_ClientCAFiles cfg) w2 = (Inr pool, w')" "tls_ClientCAs t = pool" "built_config t"
    by (auto simp: BuildTLSConfig_def built_config_def split: prod.splits sum.splits)
  have "w_files w2 = w_files w1" using assms(1) t(1) unfolding loads_only_def by blast
  with NewFileStore_same [OF b(1)] append_client_cas_ok [OF t(2)] b(3,4) t(3,4) show ?thesis by auto
qed

text \<open>\<open>Validate\<close> makes the dereferences safe.\<close>

lemma select_panic_free: "complete cfg \<Longrightarrow> select_backend P cfg w \<noteq> (Panicked, w')"
  unfolding complete_def backend_complete_def select_backend_def
  by (auto split: prod.splits sum.splits option.splits)

lemma startup_panic_free:
  assumes "map_range (pr_map_order E)"
  shows "startup E P path w \<noteq> (Panicked, w')"
proof
  assume "startup E P path w = (Panicked, w')"
  then obtain c w1 cfg w2 where "Config.Validate (pr_map_order E) (pr_LookPath E) c w1 = ((None, cfg), w2)"
    "select_backend P cfg w2 = (Panicked, w')"
    by (auto simp: startup_def split: prod.splits sum.splits option.splits outcome.splits)
  then show False using Validate_success [OF assms] select_panic_free by blast
qed

lemma startup_files:
  assumes "loads_only (ej_LoadX509KeyPair (pf_ejbca P))" "startup E P path w = (r, w')"
  shows "w_files w' = w_files w"
  using assms(2)
  by (auto simp: startup_def split: prod.splits sum.splits option.splits outcome.splits
      dest!: Load_same Validate_same select_backend_same [OF assms(1)] build_server_same [OF assms(1)])

section \<open>A concrete start\<close>

text \<open>
  A configuration of the in-process CA with the CSR attributes of RFC 9908, section 5.4, and a system with its file.
\<close>

definition estd_config :: config where
  "estd_config = zero_config \<lparr> cf_ListenAddr := '':8443'', cf_ServerCertFile := ''s.crt'', cf_ServerKeyFile := ''s.key'',
     cf_ClientCAFiles := [''c.pem''], cf_StoreDir := ''db'', cf_CertValidity := 1000000000, cf_CABackend := ''local'',
     cf_CACertFile := ''ca.pem'', cf_CAKeyFile := ''ca.key'',
     cf_CSRAttrs := Some (zero_csr_attrs \<lparr> ac_ChallengePassword := True,
       ac_KeyAlgorithm := Some (zero_key_algorithm \<lparr> kc_OID := ''1.2.840.113549.1.1.1'', kc_RSAModulusBits := 4096 \<rparr>),
       ac_ExtraOIDs := [''1.2.840.113549.1.1.11''] \<rparr>) \<rparr>"

definition estd_process :: process where
  "estd_process = \<lparr> pr_map_order = rev, pr_LookPath = (\<lambda>_. None) \<rparr>"

definition estd_world :: os_world where
  "estd_world = empty_world \<lparr> w_files := (\<lambda>p.
     if p = ''estd.json'' then Some \<lparr> f_data = bytes_of (json_text (config_json estd_config)), f_perm = perm_600 \<rparr>
     else if p \<in> set [''ca.pem'', ''c.pem''] then Some \<lparr> f_data = pem_bundle [[0x30, 0]], f_perm = perm_600 \<rparr>
     else if p = ''ca.key'' then Some \<lparr> f_data = pem_EncodeToMemory ''PRIVATE KEY'' [1], f_perm = perm_600 \<rparr>
     else if p \<in> set [''s.crt'', ''s.key'']
     then Some \<lparr> f_data = [1], f_perm = perm_600 \<rparr> else None) \<rparr>"

lemma estd_config_text: "list_all utf8_valid (config_strings estd_config)"
  by (simp add: config_strings_def estd_config_def zero_config_def csr_attrs_strings_def zero_csr_attrs_def key_strings_def
      zero_key_algorithm_def utf8_literal byte_code_def)

lemma read_quiet: "no_faults w \<Longrightarrow> w_files w p = Some f \<Longrightarrow> os_ReadFile p w = (Inr (f_data f), os_tick w)"
  by (simp add: os_ReadFile_def no_faults_def os_fault_def)

lemma estd_defaults: "with_defaults estd_config = estd_config"
  by (simp add: with_defaults_def default_backend_def estd_config_def)

lemma estd_accepted:
  "complete estd_config" "tool_found look estd_config" "config_fits estd_config"
  "list_all (path_present estd_world) (named_files estd_config)"
  by (simp_all add: complete_def backend_complete_def tool_found_def named_files_def backend_files_def estd_config_def
      zero_config_def zero_csr_attrs_def zero_key_algorithm_def path_present_def config_fits_def key_fits_def int64_def estd_world_def)

lemma estd_loads: "Load ''estd.json'' estd_world = (Inr estd_config, os_tick estd_world)"
proof -
  have q: "no_faults estd_world" by (simp add: no_faults_def estd_world_def empty_world_def quiet_env_def)
  have "w_files estd_world ''estd.json'' = Some \<lparr> f_data = bytes_of (json_text (config_json estd_config)), f_perm = perm_600 \<rparr>"
    by (simp add: estd_world_def)
  from read_quiet [OF q this] decode_config_json [OF estd_accepted(3)] json_parse_text [OF config_text [OF estd_config_text]]
  show ?thesis by (simp add: Load_def json_Unmarshal_def)
qed

lemma estd_validated:
  "\<exists>w'. Config.Validate rev (\<lambda>_. None) estd_config (os_tick estd_world) = ((None, estd_config), w') \<and>
     w_files w' = w_files estd_world \<and> no_faults w'"
proof -
  have q: "no_faults estd_world" by (simp add: no_faults_def estd_world_def empty_world_def quiet_env_def)
  obtain r w' where s: "stat_all (named_files estd_config) (os_tick estd_world) = (r, w')" by fastforce
  from stat_all_cases [OF s] q estd_accepted(4) have "r = None" "w_files w' = w_files estd_world" "no_faults w'"
    by (auto simp: list_all_iff no_faults_def)
  with s have "Config.Validate rev (\<lambda>_. None) estd_config (os_tick estd_world) = ((None, estd_config), w')"
    unfolding Validate_success [OF map_range_rev] estd_defaults using estd_accepted(1,2) by simp
  with \<open>w_files w' = w_files estd_world\<close> \<open>no_faults w'\<close> show ?thesis by blast
qed

lemma estd_attrs: "csrAttrsOptions (cf_CSRAttrs estd_config) = rfc9908_5_4"
  by (simp add: csrAttrsOptions_def estd_config_def zero_csr_attrs_def zero_key_algorithm_def key_algorithm_of_def
      rfc9908_5_4_def)

lemma rfc9908_5_4_encoded: "\<exists>d. Encode ref_builder rfc9908_5_4 = Inr (Some d)"
proof -
  have "Csrattrs.Validate rfc9908_5_4 = None" "\<not> isEmpty rfc9908_5_4"
    by (simp_all add: Csrattrs.Validate_def isEmpty_def rfc9908_5_4_def)
  from ref.encode_tree [OF this rfc9908_5_4_tree] show ?thesis unfolding rfc9908_5_4_der
    by (auto simp: max_content_def oid_in_range_def oid_valid_def)
qed

text \<open>It starts.\<close>

lemma estd_starts:
  "\<exists>srv w'. startup estd_process demo_platform ''estd.json'' estd_world = (Returned (Inr srv), w')"
proof -
  have fl: "w_files estd_world ''estd.json'' = Some \<lparr> f_data = bytes_of (json_text (config_json estd_config)),
      f_perm = perm_600 \<rparr>"
    "w_files estd_world ''ca.pem'' = Some \<lparr> f_data = pem_bundle [[0x30, 0]], f_perm = perm_600 \<rparr>"
    "w_files estd_world ''ca.key'' = Some \<lparr> f_data = pem_EncodeToMemory ''PRIVATE KEY'' [1], f_perm = perm_600 \<rparr>"
    "w_files estd_world ''c.pem'' = Some \<lparr> f_data = pem_bundle [[0x30, 0]], f_perm = perm_600 \<rparr>" "w_files estd_world ''db'' = None"
    by (simp_all add: estd_world_def empty_world_def)
  have q: "no_faults estd_world" by (simp add: no_faults_def estd_world_def empty_world_def quiet_env_def)
  obtain w1 where w1: "Config.Validate rev (\<lambda>_. None) estd_config (os_tick estd_world) = ((None, estd_config), w1)"
    "w_files w1 = w_files estd_world" "no_faults w1" using estd_validated by blast
  note load = estd_loads
  have pf: "pf_x509 demo_platform = demo_lib one_template" "pf_ejbca demo_platform = demo_client 201 []"
    "pf_builder demo_platform = ref_builder" by (simp_all add: demo_platform_def)
  have cf: "cf_CABackend estd_config = ''local''" "cf_CACertFile estd_config = ''ca.pem''" "cf_CAKeyFile estd_config = ''ca.key''"
    "cf_StoreDir estd_config = ''db''" "cf_ClientCAFiles estd_config = [''c.pem'']"
    by (simp_all add: estd_config_def)
  have r: "os_ReadFile p u = (Inr (f_data f), os_tick u)"
    if "w_files u = w_files estd_world" "no_faults u" "w_files estd_world p = Some f" for p u f
    using read_quiet [of u p f] that by simp
  obtain cert where sel: "select_backend demo_platform estd_config w1 =
      (Returned (Inr (LocalCA cert () (cf_CertValidity estd_config))), os_tick (os_tick w1))"
    using r [OF w1(2,3) fl(2)] r [of "os_tick w1", OF _ _ fl(3)] w1
    by (simp add: select_backend_def cf pf LoadCAKeyPair_def pem_bundle_def demo_lib_def parsePrivateKey_def)
  let ?w = "os_tick (os_tick w1)"
  have w: "w_files ?w = w_files estd_world" "no_faults ?w" using w1 by simp_all
  obtain w4 where fs: "NewFileStore ''db'' ?w = (Inr ''db'', w4)" "w_files w4 = w_files estd_world" "no_faults w4"
    using w fl(5)
    by (simp add: NewFileStore_def os_MkdirAll_def path_prefixes_def os_fault_def no_faults_def Let_def upt_rec)
  obtain t w5 where tls: "BuildTLSConfig (ej_LoadX509KeyPair (demo_client 201 [])) (x_ParseCertificate (demo_lib one_template))
      (cf_ServerCertFile estd_config) (cf_ServerKeyFile estd_config) [''c.pem''] w4 = (Inr t, w5)"
    using r [OF fs(2,3) fl(4)]
    by (simp add: BuildTLSConfig_def demo_client_def certs_from_bundle demo_lib_def)
  obtain d where enc: "Encode ref_builder rfc9908_5_4 = Inr (Some d)" using rfc9908_5_4_encoded by blast
  show ?thesis
    using load w1(1) sel fs tls enc
    by (simp add: startup_def estd_process_def build_server_def cf pf estd_attrs)
qed

lemma csr_attrs_nonempty: "csr_attrs_tree opts = Some t \<Longrightarrow> der t \<noteq> []"
  by (auto simp: csr_attrs_tree_def seq_of_def der_tlv_def split: option.splits)

section \<open>Properties\<close>


lemma demo_loads: "loads_only (ej_LoadX509KeyPair (pf_ejbca demo_platform))"
  by (simp add: loads_only_def demo_platform_def demo_client_def)

lemma demo_order: "map_range (pr_map_order estd_process)"
  by (simp add: estd_process_def)

lemma estd_load: "fst (Load ''estd.json'' estd_world) = Inr estd_config"
  by (simp add: estd_loads)




text \<open>
  C18: The exit status is 0 exactly when the server started and then was closed or shut down without an error, and 1
  otherwise. It is never that of a panic: after \<open>Validate\<close> the sections \<open>run\<close> dereferences are there, for every
  file, every state of the system and every failing call. A server that does not start has changed no file.
\<close>

theorem estd_exit_status:
  assumes "map_range (pr_map_order E)" "loads_only (ej_LoadX509KeyPair (pf_ejbca P))"
    and "estd_main E P live path w = (status, w')"
  shows "status \<in> {0, 1} \<and>
     (status = 0 \<longleftrightarrow> path \<noteq> [] \<and> (\<exists>srv w1 e. startup E P path w = (Returned (Inr srv), w1) \<and> live srv w1 = (e, w') \<and>
        e \<in> {Served None, Served (Some ErrServerClosed), Signalled None})) \<and>
     ((\<nexists>srv w1. startup E P path w = (Returned (Inr srv), w1)) \<longrightarrow> w_files w' = w_files w)"
proof (cases "path = []")
  case True
  then show ?thesis using assms(3) by (simp add: estd_main_def)
next
  case False
  obtain r w1 where s: "startup E P path w = (r, w1)" by fastforce
  have files: "w_files w1 = w_files w" by (rule startup_files [OF assms(2) s])
  have "r \<noteq> Panicked" using startup_panic_free [OF assms(1), of P path w w1] s by blast
  then consider err where "r = Returned (Inl err)" | srv where "r = Returned (Inr srv)"
    by (metis outcome.exhaust sum.exhaust)
  then show ?thesis
  proof cases
    case 1
    then show ?thesis using False s files assms(3) by (simp add: estd_main_def run_def)
  next
    case 2
    obtain e w2 where l: "live srv w1 = (e, w2)" by fastforce
    have "serve_until e = None \<longleftrightarrow> e \<in> {Served None, Served (Some ErrServerClosed), Signalled None}"
      by (cases e) (auto simp: serve_until_def)
    with 2 l False s assms(3) show ?thesis
      by (cases "serve_until e") (auto simp: estd_main_def run_def)
  qed
qed

lemma estd_exit_status_witness:
  "\<exists>w'. estd_main estd_process demo_platform (\<lambda>_ w. (Signalled None, w)) ''estd.json'' estd_world = (0, w')"
proof -
  obtain srv w1 where s: "startup estd_process demo_platform ''estd.json'' estd_world = (Returned (Inr srv), w1)"
    using estd_starts by blast
  obtain st w' where m: "estd_main estd_process demo_platform (\<lambda>_ w. (Signalled None, w)) ''estd.json'' estd_world = (st, w')"
    by fastforce
  have "w' = w1" using m s by (auto simp: estd_main_def run_def split: option.splits)
  with estd_exit_status [OF demo_order demo_loads m] s m show ?thesis by auto
qed

end
