(* ===== verification/Spec2Isabelle.thy ===== *)
theory Spec2Isabelle
  imports Store_Steps DER_Reference Openssl_Mutex Config_Types Estd
begin

text \<open>
  A verification of \<open>estd\<close>, a server for Enrollment over Secure Transport (RFC 7030): clients with a certificate
  enrol and renew over TLS, a CA backend issues, and what is issued is kept in a directory.


  THE PROGRAM AND ITS PARTS

  \<open>cmd/estd\<close> reads a JSON file, validates it, builds one of three CA backends (a key in the process, a subprocess
  \<open>openssl ca\<close>, the REST API of an EJBCA), a store, a TLS configuration and the DER of the CSR attributes, and serves
  until it is told to stop. \<open>internal/estapi\<close> routes four paths: \<open>/cacerts\<close> asks the backend for its chain;
  \<open>/simpleenroll\<close> and \<open>/simplereenroll\<close> look for the client's certificate, decode the request, compare identities (the
  second), let the backend issue, write request, certificate and metadata to the store and answer with a certs-only
  PKCS#7 message; \<open>/csrattrs\<close> answers with what was encoded at the start. Handlers run in parallel over the one
  backend and the one store.


  THE THEORIES

  Each component has a theory, which holds its types and operations in the order of the code, its lemmas, and at the
  end its properties with instances at concrete inputs.

  Components (under \<open>src/\<close>):
  \<^item> \<open>Pkcs7\<close>: \<open>internal/pkcs7/pkcs7.go\<close>, \<open>EncodeCertsOnly\<close> and \<open>DecodeCertsOnly\<close>.
  \<^item> \<open>Csrattrs\<close>: \<open>internal/csrattrs/csrattrs.go\<close>, \<open>Validate\<close>, \<open>Encode\<close> and every helper.
  \<^item> \<open>FileStore\<close>, \<open>Store_Steps\<close>: \<open>internal/store\<close>. The first has the \<open>Store\<close> interface as a record of operations with
    its contract (locale \<open>cert_store\<close>) and the operations of \<open>FileStore\<close> with every system call that can fail; the
    second has \<open>writeFileAtomic\<close> as a transition system for any number of callers.
  \<^item> \<open>CA\<close>: \<open>internal/ca/ca.go\<close>, \<open>serial.go\<close>, \<open>local.go\<close>: the \<open>CABackend\<close> and \<open>SerialSource\<close> interfaces (locales
    \<open>ca_backend\<close> and \<open>serial_source\<close>), the random serial numbers, the in-process CA.
  \<^item> \<open>Openssl\<close>, \<open>Openssl_Mutex\<close>: \<open>internal/ca/openssl/openssl.go\<close>, and its mutex as a transition system.
  \<^item> \<open>Ejbca\<close>: \<open>internal/ca/ejbca/ejbca.go\<close>, the requests it sends and the replies it accepts.
  \<^item> \<open>Encoding\<close>, \<open>Identity\<close>, \<open>Handlers\<close>, \<open>TLS\<close>: \<open>internal/estapi\<close>: \<open>encoding.go\<close>, \<open>identity.go\<close>, \<open>handlers.go\<close> with
    \<open>server.go\<close>, \<open>tls.go\<close>. The locale \<open>est_server\<close> of \<open>Handlers\<close> joins the contracts of a backend and a store that
    work on one state.
  \<^item> \<open>Config\<close>, \<open>Config_Types\<close>: \<open>internal/config/config.go\<close>: the structs with their JSON names, \<open>Duration\<close>, \<open>Load\<close> and
    \<open>Validate\<close>; and the types of what \<open>Load\<close> returns.
  \<^item> \<open>Server\<close>: any of the three backends (type \<open>ca_value\<close>) with the file store behind the handlers, on one operating
    system; here the locales are interpreted on the code's own operations.
  \<^item> \<open>Service\<close>: the server behind TLS and its histories, one connection after the other.
  \<^item> \<open>Ledger\<close>, \<open>Parallel\<close>: requests in parallel. \<open>Parallel\<close> cuts the handlers into the calls that act on the system
    and runs them by a schedule; \<open>Ledger\<close> is the abstract system of the store's three tables that the schedules
    refine.
  \<^item> \<open>Estd\<close>: \<open>cmd/estd/main.go\<close> and \<open>csrattrs.go\<close>: starting, running, the exit status.

  What the program uses of Go's standard library and of the system, written out:
  \<open>Prelude\<close> (bytes, strings, error values, results), \<open>Go_Text\<close> (\<open>strings\<close>, \<open>strconv\<close>, \<open>hex\<close>, \<open>fmt\<close>, \<open>net/url\<close>,
  \<open>net\<close>, \<open>sort\<close>), \<open>Go_UTF8\<close> (runes), \<open>Go_Base64\<close>, \<open>Go_PEM\<close>, \<open>Go_Time\<close> and \<open>Go_Calendar\<close> (durations; dates and RFC 3339),
  \<open>Go_JSON\<close>, \<open>Go_JSON_Text\<close> and \<open>Go_JSON_Types\<close> (decoding into Go values; the text; what a decoded value is like),
  \<open>Go_OS\<close> (files, directories, temporary files, \<open>path/filepath\<close>, \<open>crypto/rand\<close>, the clock), \<open>X509\<close> (the values of
  \<open>crypto/x509\<close>). \<open>Radix\<close> (positional numerals) and \<open>DER\<close> (X.690) are shared by several components.

  What it uses of third parties: \<open>golang.org/x/crypto/cryptobyte\<close> is the interface of \<open>Cryptobyte\<close> (locales
  \<open>cryptobyte_builder\<close>, \<open>cryptobyte_reader\<close>), whose laws are those of its documentation; \<open>DER_Reference\<close> interprets
  them on a concrete builder and reader, so that the encoders can be evaluated.


  HOW THE CODE IS RENDERED

  A struct is a record and an interface a record of operations; a function that returns an error returns a \<open>result\<close>
  (or an option of an error), and each early return is a branch. Code that touches the system takes and returns its
  state \<open>os_world\<close>: the files with their permissions, the directories, the number of system calls so far, and an
  environment that decides for each call whether it fails and how far it got, and what the clock and the random
  source deliver. The environment is arbitrary, so a theorem about a function holds whatever fails. The state can be
  extended (\<open>os_world_scheme\<close>), so that a subprocess or an HTTP client may have a state of its own. A nil pointer is
  \<open>None\<close>; the dereference of one is the outcome \<open>Panicked\<close> of \<open>Estd\<close>, shown never to happen. Go's integers are
  \<open>int\<close> with the range and the wrap-around written out where they can be reached (durations, object identifiers,
  the JSON reader), bytes are \<open>8 word\<close>.


  WHAT THE LEMMAS SHOW

  Each group is named by its property (C1, C2, ...), whose text stands in front of it.
  \<^item> From the configuration to the certificates: a server that starts is the one its file describes, and with any
    number of requests in any order every certificate in its store was issued to a client that verified against the
    configured CA files (\<open>Estd\<close>). \<open>Validate\<close> accepts exactly the complete configurations; what is written is loaded
    back; what is loaded is well typed (\<open>Config\<close>, \<open>Config_Types\<close>).
  \<^item> Enrolment: who gets a certificate, what has been checked and stored before it goes out, what the client decodes,
    what refused requests leave behind (nothing), for all three backends (\<open>Server\<close>, \<open>Service\<close>).
  \<^item> The store: replacement of files is atomic when calls fail and when callers overlap or die; a certificate is read
    back, metadata determine what they record; requests in parallel keep certificates with their own requests
    (\<open>FileStore\<close>, \<open>Store_Steps\<close>, \<open>Parallel\<close>). Every handler answers in seven of its own turns.
  \<^item> The backends keep the contract of the interface: no CA certificate and no unverified request gets through, no
    lasting file is touched, temporary files are removed, serial numbers are 159 random bits (\<open>CA\<close>, \<open>Openssl\<close>,
    \<open>Ejbca\<close>); runs of the subprocess are one after the other and every caller returns (\<open>Openssl_Mutex\<close>).
  \<^item> The messages: the encoders write the DER of the syntax trees of the RFCs or report an error; the decoder inverts
    its encoder, accepts nothing of another shape and returns on every input (\<open>Pkcs7\<close>, \<open>Csrattrs\<close>); request bodies
    and response bodies (\<open>Encoding\<close>); identities, with what happens to duplicates and line feeds (\<open>Identity\<close>).


  BOUNDS AND LOOPS

  Loops are recursive functions that are shown to end, or \<open>partial_function\<close>s (the reader of \<open>Pkcs7\<close>) whose return
  is a theorem. The bounds are those of the code: 64 KiB of a request body, 10000 names that \<open>os.CreateTemp\<close> tries,
  10000 levels of nesting of the JSON scanner, lines of 76 characters. The laws of \<open>cryptobyte\<close> are stated for contents
  up to \<open>max_content\<close>, the length its builder accepts. There is no fuel.


  WHAT IS ASSUMED

  The signing and parsing of \<open>crypto/x509\<close>, the verification of chains, the loading of key pairs, the HTTP client, the
  subprocess, the local time zone, the order of \<open>range\<close> over a map and \<open>exec.LookPath\<close> are arguments. Where a theorem
  relies on them it says so by a named hypothesis: \<open>creates_faithfully\<close> (a certificate carries what its template
  says), \<open>keeps_lasting\<close> and \<open>client_keeps_files\<close> (the subprocess and the client leave the store's files alone),
  \<open>loads_only\<close> (loading reads), \<open>map_range\<close> (an order is a permutation). Each such theorem has an instance with
  concrete functions.


  NOT MODELLED

  Logging and the \<open>flag\<close> package, which change nothing that is modelled. A request's context: that it was cancelled
  shows as an error of the subprocess, the HTTP client or the body's reader, which are arbitrary. TLS below the
  handshake's decision on the client certificate, and session resumption. HTTP below a request with its body. The body of a redirection. The crash of
  the whole system (a crash of the process is a state in the middle of a run): the files have no write cache, since
  \<open>writeFileAtomic\<close> has no \<open>fsync\<close> to give it a meaning. The steps of two calls of \<open>writeFileAtomic\<close> interleave in
  \<open>Store_Steps\<close>; in \<open>Parallel\<close> each call is one step. Temporary names are drawn at random there without repetition.
  The text of an error is its format and arguments. A variable of interface type without a value, such as a server
  without a backend, does not occur in \<open>cmd/estd\<close>. Tests, examples and documents are not code of the server.
\<close>

end
